(* ===== verification/Sig_Prelude.thy ===== *)
theory Sig_Prelude
  imports Main "HOL-Library.Word" "HOL-Library.Multiset"
begin

text \<open>
  Vocabulary shared by every component of the development: the failure values of the C++ code,
  sequencing of operations that can fail, 32-bit signed arithmetic, byte memories and the C
  run-time copy routines the sources call.

  An operation of the program is a function from its arguments and the state it touches to
  \<open>cpp_error + 'a\<close>. \<open>Inr\<close> is a normal return; \<open>Inl\<close> is one of the ways in which the C++
  code does not return normally.
\<close>

section \<open>Failures and sequencing\<close>

named_theorems lock_simps \<open>closed forms of operations whose lock is free\<close>
named_theorems op_eqs \<open>closed forms of component operations on well-formed states\<close>
named_theorems inv_intros \<open>preservation of component invariants\<close>

datatype cpp_error =
    Terminate         \<comment> \<open>\<^verbatim>\<open>std::terminate\<close>: \<^verbatim>\<open>throw;\<close> with no active exception, an exception nobody catches\<close>
  | NullDeref         \<comment> \<open>a member access through a null pointer\<close>
  | DanglingPtr       \<comment> \<open>an access to storage that is not allocated\<close>
  | OutOfBounds       \<comment> \<open>a read or write outside the array\<close>
  | InvalidParameter  \<comment> \<open>the C run-time's invalid-parameter handler\<close>
  | AssertFailure
  | EmptyFront        \<comment> \<open>\<^verbatim>\<open>front()\<close> or \<^verbatim>\<open>pop()\<close> on an empty container\<close>
  | LockBusy          \<comment> \<open>the calling thread waits: another thread owns the lock\<close>
  | LockNotOwned      \<comment> \<open>a critical section left by a thread that does not own it\<close>
  | BadCast           \<comment> \<open>an object used through a pointer to another class\<close>
  | OutOfFuel         \<comment> \<open>a bounded loop used up its bound\<close>

type_synonym 'a res = "cpp_error + 'a"

definition bindE :: "'e + 'a \<Rightarrow> ('a \<Rightarrow> 'e + 'b) \<Rightarrow> 'e + 'b" where
  "bindE m f = (case m of Inl e \<Rightarrow> Inl e | Inr x \<Rightarrow> f x)"

lemma bindE_Inr [simp]: "bindE (Inr x) f = f x"
  by (simp add: bindE_def)

lemma bindE_Inl [simp]: "bindE (Inl e) f = Inl e"
  by (simp add: bindE_def)

lemma bindE_eq_Inr: "bindE m f = Inr y \<longleftrightarrow> (\<exists>x. m = Inr x \<and> f x = Inr y)"
  by (cases m) auto

lemma bindE_eq_Inl: "bindE m f = Inl e \<longleftrightarrow> m = Inl e \<or> (\<exists>x. m = Inr x \<and> f x = Inl e)"
  by (cases m) auto

lemma bindE_assoc: "bindE (bindE m f) g = bindE m (\<lambda>x. bindE (f x) g)"
  by (cases m) auto

lemma bindE_cong [fundef_cong]:
  "m = m' \<Longrightarrow> (\<And>x. m' = Inr x \<Longrightarrow> f x = f' x) \<Longrightarrow> bindE m f = bindE m' f'"
  by (cases m') auto

text \<open>Run an operation over a list, stopping at the first failure.\<close>

fun foldE :: "('a \<Rightarrow> 's \<Rightarrow> 'e + 's) \<Rightarrow> 'a list \<Rightarrow> 's \<Rightarrow> 'e + 's" where
  "foldE f [] s = Inr s"
| "foldE f (x # xs) s = bindE (f x s) (foldE f xs)"

lemma foldE_append: "foldE f (xs @ ys) s = bindE (foldE f xs s) (foldE f ys)"
  by (induction xs arbitrary: s) (auto simp: bindE_assoc intro!: bindE_cong)

lemma foldE_invariant:
  assumes "\<And>x s. x \<in> set xs \<Longrightarrow> P s \<Longrightarrow> \<exists>s'. f x s = Inr s' \<and> P s'" and "P s"
  shows "\<exists>s'. foldE f xs s = Inr s' \<and> P s'"
  using assms
proof (induction xs arbitrary: s)
  case Nil
  then show ?case by simp
next
  case (Cons x xs)
  from Cons.prems(1)[of x s] Cons.prems(2) obtain s1 where s1: "f x s = Inr s1" "P s1"
    by auto
  have "\<exists>s'. foldE f xs s1 = Inr s' \<and> P s'"
    by (rule Cons.IH) (use Cons.prems(1) s1(2) in auto)
  with s1(1) show ?case by simp
qed

section \<open>Machine integers\<close>

text \<open>
  The sources compute with \<^verbatim>\<open>int\<close>, 32 bits wide in every build configuration. \<open>i32\<close> is the
  two's-complement wrap-around of a result; \<open>size_t\<close> is the conversion of an \<^verbatim>\<open>int\<close> argument
  to the 32-bit unsigned size the C run-time takes.
\<close>

definition i32 :: "int \<Rightarrow> int" where
  "i32 x = signed_take_bit 31 x"

definition size_t :: "int \<Rightarrow> int" where
  "size_t x = x mod 4294967296"

lemma i32_id [simp]: "- 2147483648 \<le> x \<Longrightarrow> x < 2147483648 \<Longrightarrow> i32 x = x"
  by (simp add: i32_def signed_take_bit_int_eq_self)

lemma i32_wrap:
  assumes "2147483648 \<le> x" "x < 6442450944"
  shows "i32 x = x - 4294967296"
proof -
  have "(x - 2147483648 + 4294967296) mod 4294967296 = x - 2147483648"
    unfolding mod_add_self2 by (rule mod_pos_pos_trivial) (use assms in simp_all)
  then have "(x + 2147483648) mod 4294967296 = x - 2147483648" by (simp add: add.commute)
  then show ?thesis by (simp add: i32_def signed_take_bit_eq_take_bit_shift take_bit_eq_mod)
qed

lemma i32_range: "- 2147483648 \<le> i32 x \<and> i32 x < 2147483648"
  using signed_take_bit_int_greater_eq_minus_exp[of 31 x] signed_take_bit_int_less_exp[of 31 x]
  by (simp add: i32_def)

lemma size_t_id [simp]: "0 \<le> x \<Longrightarrow> x < 4294967296 \<Longrightarrow> size_t x = x"
  by (simp add: size_t_def)

lemma size_t_neg: "- 2147483648 \<le> x \<Longrightarrow> x < 0 \<Longrightarrow> size_t x = x + 4294967296"
  unfolding size_t_def by (subst mod_add_self2 [symmetric], rule mod_pos_pos_trivial) auto

lemma unat_less_exp: "unat (w :: 'a::len word) < 2 ^ LENGTH('a)"
  by (rule unsigned_less)

section \<open>Byte memories\<close>

type_synonym byte = "8 word"

definition mem_write :: "byte list \<Rightarrow> nat \<Rightarrow> byte list \<Rightarrow> byte list" where
  "mem_write m off xs = take off m @ xs @ drop (off + length xs) m"

definition mem_read :: "byte list \<Rightarrow> nat \<Rightarrow> nat \<Rightarrow> byte list" where
  "mem_read m off n = take n (drop off m)"

lemma length_mem_write [simp]:
  "off + length xs \<le> length m \<Longrightarrow> length (mem_write m off xs) = length m"
  by (simp add: mem_write_def)

lemma length_mem_read [simp]: "off + n \<le> length m \<Longrightarrow> length (mem_read m off n) = n"
  by (simp add: mem_read_def)

lemma mem_read_write [simp]:
  "off + length xs \<le> length m \<Longrightarrow> mem_read (mem_write m off xs) off (length xs) = xs"
  by (simp add: mem_read_def mem_write_def)

lemma take_mem_write:
  "off + length xs \<le> length m \<Longrightarrow> take (off + length xs) (mem_write m off xs) = take off m @ xs"
  by (simp add: mem_write_def)

lemma take_mem_write_before [simp]:
  "n \<le> off \<Longrightarrow> off \<le> length m \<Longrightarrow> take n (mem_write m off xs) = take n m"
  by (simp add: mem_write_def)

text \<open>
  \<^verbatim>\<open>memcpy_s(dest + doff, destsz, src + soff, cnt)\<close>: nothing happens for a count of zero; a
  count larger than the destination size reaches the invalid-parameter handler; otherwise
  \<open>cnt\<close> bytes are copied, and a range outside one of the two arrays is undefined behaviour.
\<close>

definition memcpy_s ::
  "byte list \<Rightarrow> int \<Rightarrow> int \<Rightarrow> byte list \<Rightarrow> int \<Rightarrow> int \<Rightarrow> byte list res" where
  "memcpy_s dest doff destsz src soff cnt =
     (let n = size_t cnt in
      if n = 0 then Inr dest
      else if size_t destsz < n then Inl InvalidParameter
      else if doff < 0 \<or> int (length dest) < doff + n \<or> soff < 0 \<or> int (length src) < soff + n
        then Inl OutOfBounds
      else Inr (mem_write dest (nat doff) (mem_read src (nat soff) (nat n))))"

definition memset_zero :: "byte list \<Rightarrow> byte list" where
  "memset_zero m = replicate (length m) 0"

lemma length_memset_zero [simp]: "length (memset_zero m) = length m"
  by (simp add: memset_zero_def)

lemma memcpy_s_ok:
  assumes "0 \<le> doff" "0 \<le> soff" "0 \<le> cnt" "cnt \<le> destsz" "destsz < 4294967296"
    and "doff + cnt \<le> int (length dest)" "soff + cnt \<le> int (length src)"
  shows "memcpy_s dest doff destsz src soff cnt
    = Inr (mem_write dest (nat doff) (mem_read src (nat soff) (nat cnt)))"
  using assms by (simp add: memcpy_s_def mem_write_def mem_read_def)

lemma memcpy_s_length:
  "memcpy_s dest doff destsz src soff cnt = Inr d \<Longrightarrow> length d = length dest"
  by (auto simp: memcpy_s_def Let_def size_t_def mem_write_def mem_read_def split: if_splits)

lemma memcpy_s_negative_count:
  assumes "- 2147483648 \<le> cnt" "cnt < 0" "0 \<le> destsz" "destsz < 2147483648"
  shows "memcpy_s dest doff destsz src soff cnt = Inl InvalidParameter"
  using assms by (simp add: memcpy_s_def size_t_neg)

end
