(* ===== verification/Pulled_Buffer.thy ===== *)
theory Pulled_Buffer
  imports Sig_Prelude
begin

text \<open>
  \<^verbatim>\<open>IocpServer/src/utility/Buffer.h\<close>: the interface \<^verbatim>\<open>IBuffer\<close> and its only implementation
  \<^verbatim>\<open>PulledBuffer\<close>, a byte array of fixed size whose live bytes always start at index 0. The locale
  \<open>byte_fifo\<close> is the contract of the interface: a bounded first-in first-out queue of bytes. The
  clients of a buffer (\<^verbatim>\<open>TcpClient\<close>) rely on that contract only.
\<close>

section \<open>The class\<close>

definition BUFFER_SIZE :: int where
  "BUFFER_SIZE = 65536 * 4"

record PulledBuffer =
  m_Buffer :: "byte list"
  m_Length :: int

definition PulledBuffer_new :: PulledBuffer where
  "PulledBuffer_new = \<lparr>m_Buffer = replicate (nat BUFFER_SIZE) 0, m_Length = 0\<rparr>"

definition GetLength :: "PulledBuffer \<Rightarrow> int" where
  "GetLength b = m_Length b"

text \<open>Pointers into the array are offsets from its start.\<close>

definition GetPtr :: "PulledBuffer \<Rightarrow> int" where
  "GetPtr b = 0"

definition GetEmptyPtr :: "PulledBuffer \<Rightarrow> int" where
  "GetEmptyPtr b = m_Length b"

definition GetEmptyLength :: "PulledBuffer \<Rightarrow> int" where
  "GetEmptyLength b = i32 (BUFFER_SIZE - m_Length b)"

definition Write :: "byte list \<Rightarrow> int \<Rightarrow> PulledBuffer \<Rightarrow> (int \<times> PulledBuffer) res" where
  "Write startPoint len b =
     (if i32 (m_Length b + len) > BUFFER_SIZE then Inr (-1, b)
      else bindE (memcpy_s (m_Buffer b) (m_Length b) (BUFFER_SIZE - m_Length b) startPoint 0 len)
        (\<lambda>buf. Inr (len, b\<lparr>m_Buffer := buf, m_Length := i32 (m_Length b + len)\<rparr>)))"

definition ForceAddLength :: "int \<Rightarrow> PulledBuffer \<Rightarrow> PulledBuffer" where
  "ForceAddLength len b = b\<lparr>m_Length := i32 (m_Length b + len)\<rparr>"

definition Clear :: "PulledBuffer \<Rightarrow> PulledBuffer" where
  "Clear b = b\<lparr>m_Buffer := memset_zero (m_Buffer b), m_Length := 0\<rparr>"

text \<open>The tail that \<open>Read\<close> and \<open>ThrowAway\<close> share: move the remaining bytes to the front, through a
  zeroed local array.\<close>

definition pull_front :: "int \<Rightarrow> PulledBuffer \<Rightarrow> PulledBuffer res" where
  "pull_front n b =
     (if m_Length b > 0 then
        (let tempLength = m_Length b in
         bindE (memcpy_s (replicate (nat BUFFER_SIZE) 0) 0 BUFFER_SIZE (m_Buffer b) n (m_Length b))
           (\<lambda>tempBuffer. bindE (Write tempBuffer tempLength (Clear b)) (\<lambda>(_, b'). Inr b')))
      else Inr b)"

definition Read ::
  "int \<Rightarrow> byte list \<Rightarrow> int \<Rightarrow> PulledBuffer \<Rightarrow> ((int \<times> byte list) \<times> PulledBuffer) res" where
  "Read readLength destBuffer destLength b =
     (if readLength > m_Length b then Inl Terminate
      else bindE (memcpy_s destBuffer 0 destLength (m_Buffer b) 0 readLength) (\<lambda>dest.
        bindE (pull_front readLength (b\<lparr>m_Length := i32 (m_Length b - readLength)\<rparr>)) (\<lambda>b'.
        Inr ((readLength, dest), b'))))"

definition ThrowAway :: "int \<Rightarrow> PulledBuffer \<Rightarrow> (int \<times> PulledBuffer) res" where
  "ThrowAway throwLength b =
     (if throwLength > m_Length b then Inl Terminate
      else bindE (pull_front throwLength (b\<lparr>m_Length := i32 (m_Length b - throwLength)\<rparr>)) (\<lambda>b'.
        Inr (throwLength, b')))"

datatype BUFFER_TYPE = PULLED_BUFFER

definition CreateBuffer :: "BUFFER_TYPE \<Rightarrow> PulledBuffer option" where
  "CreateBuffer type = (case type of PULLED_BUFFER \<Rightarrow> Some PulledBuffer_new)"

section \<open>The contract of IBuffer\<close>

text \<open>
  \<open>live b\<close> is the byte sequence a client of the buffer sees. The laws are partial where the
  interface is: reading more than is stored does not return.
\<close>

locale byte_fifo =
  fixes live :: "'b \<Rightarrow> byte list"
    and ok :: "'b \<Rightarrow> bool"
    and cap :: nat
    and fresh :: 'b
    and push :: "byte list \<Rightarrow> 'b \<Rightarrow> (int \<times> 'b) res"
    and pull :: "nat \<Rightarrow> 'b \<Rightarrow> (byte list \<times> 'b) res"
    and discard :: "nat \<Rightarrow> 'b \<Rightarrow> (int \<times> 'b) res"
  assumes fresh_ok: "ok fresh" "live fresh = []"
    and bounded: "ok b \<Longrightarrow> length (live b) \<le> cap"
    and write_fits: "\<lbrakk>ok b; length (live b) + length xs \<le> cap\<rbrakk> \<Longrightarrow>
      \<exists>b'. push xs b = Inr (int (length xs), b') \<and> ok b' \<and> live b' = live b @ xs"
    and write_full: "\<lbrakk>ok b; cap < length (live b) + length xs; length xs \<le> cap\<rbrakk> \<Longrightarrow>
      push xs b = Inr (-1, b)"
    and read_front: "\<lbrakk>ok b; n \<le> length (live b)\<rbrakk> \<Longrightarrow>
      \<exists>b'. pull n b = Inr (take n (live b), b') \<and> ok b' \<and> live b' = drop n (live b)"
    and read_short: "\<lbrakk>ok b; length (live b) < n; n \<le> cap\<rbrakk> \<Longrightarrow> pull n b = Inl Terminate"
    and discard_front: "\<lbrakk>ok b; n \<le> length (live b)\<rbrakk> \<Longrightarrow>
      \<exists>b'. discard n b = Inr (int n, b') \<and> ok b' \<and> live b' = drop n (live b)"
    and discard_short: "\<lbrakk>ok b; length (live b) < n; n \<le> cap\<rbrakk> \<Longrightarrow> discard n b = Inl Terminate"
begin

text \<open>Several writes, then one read of everything, return the concatenation of what was written.\<close>

fun write_all :: "byte list list \<Rightarrow> 'b \<Rightarrow> 'b res" where
  "write_all [] b = Inr b"
| "write_all (xs # xss) b = bindE (push xs b) (\<lambda>(_, b'). write_all xss b')"

lemma write_all_live:
  assumes "ok b" and "length (live b) + length (concat xss) \<le> cap"
  shows "\<exists>b'. write_all xss b = Inr b' \<and> ok b' \<and> live b' = live b @ concat xss"
  using assms
proof (induction xss arbitrary: b)
  case Nil
  then show ?case by simp
next
  case (Cons xs xss)
  then obtain b1 where b1: "push xs b = Inr (int (length xs), b1)" "ok b1" "live b1 = live b @ xs"
    using write_fits[of b xs] by auto
  with Cons.prems(2) obtain b2 where "write_all xss b1 = Inr b2" "ok b2"
    "live b2 = live b1 @ concat xss"
    using Cons.IH[of b1] by auto
  with b1 show ?case by simp
qed

lemma write_all_read:
  assumes "length (concat xss) \<le> cap"
  shows "\<exists>b1 b2. write_all xss fresh = Inr b1 \<and> pull (length (concat xss)) b1 = Inr (concat xss, b2)
    \<and> ok b2 \<and> live b2 = []"
proof -
  obtain b1 where b1: "write_all xss fresh = Inr b1" "ok b1" "live b1 = concat xss"
    using write_all_live[OF fresh_ok(1), of xss] assms by (auto simp: fresh_ok)
  with read_front[of b1 "length (concat xss)"] show ?thesis by auto
qed

text \<open>Discarding in two steps is discarding once.\<close>

lemma discard_discard:
  assumes "ok b" "n + k \<le> length (live b)"
  shows "\<exists>b1 b2. discard n b = Inr (int n, b1) \<and> discard k b1 = Inr (int k, b2)
    \<and> ok b2 \<and> live b2 = drop (n + k) (live b)"
proof -
  obtain b1 where b1: "discard n b = Inr (int n, b1)" "ok b1" "live b1 = drop n (live b)"
    using discard_front[OF assms(1), of n] assms(2) by auto
  then obtain b2 where "discard k b1 = Inr (int k, b2)" "ok b2" "live b2 = drop k (live b1)"
    using discard_front[of b1 k] assms(2) by (metis add_le_imp_le_diff add.commute length_drop)
  with b1 show ?thesis by (auto simp: add.commute)
qed

end

section \<open>PulledBuffer meets the contract\<close>

definition contents :: "PulledBuffer \<Rightarrow> byte list" where
  "contents b = take (nat (m_Length b)) (m_Buffer b)"

definition buf_ok :: "PulledBuffer \<Rightarrow> bool" where
  "buf_ok b \<longleftrightarrow> length (m_Buffer b) = nat BUFFER_SIZE \<and> 0 \<le> m_Length b \<and> m_Length b \<le> BUFFER_SIZE"

lemma BUFFER_SIZE_val: "BUFFER_SIZE = 262144"
  by (simp add: BUFFER_SIZE_def)

lemma buf_ok_new [simp]: "buf_ok PulledBuffer_new"
  by (simp add: buf_ok_def PulledBuffer_new_def BUFFER_SIZE_val)

lemma contents_new [simp]: "contents PulledBuffer_new = []"
  by (simp add: contents_def PulledBuffer_new_def)

lemma buf_ok_Clear [simp]: "buf_ok b \<Longrightarrow> buf_ok (Clear b)"
  by (simp add: buf_ok_def Clear_def BUFFER_SIZE_val)

lemma buf_okD:
  assumes "buf_ok b"
  shows "length (m_Buffer b) = nat BUFFER_SIZE" "0 \<le> m_Length b" "m_Length b \<le> BUFFER_SIZE"
  using assms by (simp_all add: buf_ok_def)

lemma length_contents: "buf_ok b \<Longrightarrow> length (contents b) = nat (m_Length b)"
  using buf_okD[of b] by (simp add: contents_def)

lemma int_length_contents: "buf_ok b \<Longrightarrow> int (length (contents b)) = m_Length b"
  by (simp add: length_contents buf_ok_def)

lemma GetLength_contents: "buf_ok b \<Longrightarrow> GetLength b = int (length (contents b))"
  by (simp add: GetLength_def int_length_contents)

lemma length_contents_le: "buf_ok b \<Longrightarrow> length (contents b) \<le> nat BUFFER_SIZE"
  by (simp add: length_contents buf_ok_def nat_mono)

lemma Write_ok:
  assumes "buf_ok b" and "m_Length b + n \<le> BUFFER_SIZE" and "0 \<le> n" and "n \<le> int (length xs)"
  shows "\<exists>b'. Write xs n b = Inr (n, b') \<and> buf_ok b' \<and> contents b' = contents b @ take (nat n) xs
    \<and> m_Length b' = m_Length b + n"
proof -
  from assms have ovf: "i32 (m_Length b + n) = m_Length b + n"
    by (simp add: buf_ok_def BUFFER_SIZE_val)
  let ?d = "mem_write (m_Buffer b) (nat (m_Length b)) (mem_read xs 0 (nat n))"
  have len: "length (mem_read xs 0 (nat n)) = nat n"
    using assms by (simp add: mem_read_def)
  have cpy: "memcpy_s (m_Buffer b) (m_Length b) (BUFFER_SIZE - m_Length b) xs 0 n = Inr ?d"
    using assms by (subst memcpy_s_ok) (simp_all add: buf_ok_def BUFFER_SIZE_val)
  have fit: "nat (m_Length b) + nat n \<le> length (m_Buffer b)"
    using buf_okD[OF assms(1)] assms(2,3) by simp
  have "take (nat (m_Length b) + nat n) ?d = contents b @ take (nat n) xs"
    using take_mem_write[of "nat (m_Length b)" "mem_read xs 0 (nat n)" "m_Buffer b"] fit len
    by (simp add: contents_def mem_read_def)
  then show ?thesis
    using assms ovf cpy fit len
    by (auto simp: Write_def contents_def buf_ok_def nat_add_distrib)
qed

lemma Write_full:
  assumes "buf_ok b" and "BUFFER_SIZE < m_Length b + n" and "n < 2147221504"
  shows "Write xs n b = Inr (-1, b)"
  using assms by (simp add: Write_def buf_ok_def BUFFER_SIZE_val)

lemma Clear_contents [simp]: "contents (Clear b) = []"
  by (simp add: contents_def Clear_def)

lemma m_Length_Clear [simp]: "m_Length (Clear b) = 0"
  by (simp add: Clear_def)

lemma pull_front_ok:
  assumes "buf_ok b" "0 \<le> n" "n \<le> m_Length b"
  shows "\<exists>b'. pull_front n (b\<lparr>m_Length := m_Length b - n\<rparr>) = Inr b'
    \<and> buf_ok b' \<and> contents b' = drop (nat n) (contents b)"
proof (cases "m_Length b - n > 0")
  case False
  with assms show ?thesis
    by (auto simp: pull_front_def buf_ok_def contents_def)
next
  case True
  let ?b = "b\<lparr>m_Length := m_Length b - n\<rparr>" and ?k = "m_Length b - n"
  let ?t = "mem_write (replicate (nat BUFFER_SIZE) 0) 0 (mem_read (m_Buffer b) (nat n) (nat ?k))"
  have len: "length (mem_read (m_Buffer b) (nat n) (nat ?k)) = nat ?k"
    using buf_okD[OF assms(1)] assms(2,3) by simp
  have cpy: "memcpy_s (replicate (nat BUFFER_SIZE) 0) 0 BUFFER_SIZE (m_Buffer b) n ?k = Inr ?t"
    using assms True by (subst memcpy_s_ok) (simp_all add: buf_ok_def BUFFER_SIZE_val)
  have lt: "length ?t = nat BUFFER_SIZE"
    using buf_okD[OF assms(1)] assms(2) len by (subst length_mem_write) simp_all
  have ok: "buf_ok (Clear ?b)"
    using assms True by (simp add: buf_ok_def Clear_def)
  obtain b' where b': "Write ?t ?k (Clear ?b) = Inr (?k, b')" "buf_ok b'"
    "contents b' = take (nat ?k) ?t"
    using Write_ok[OF ok, of ?k ?t] assms True lt
    by (auto simp: buf_ok_def BUFFER_SIZE_val)
  have "take (nat ?k) ?t = drop (nat n) (contents b)"
    using len assms
    by (simp add: mem_write_def mem_read_def contents_def drop_take nat_diff_distrib)
  with b' cpy True show ?thesis
    by (simp add: pull_front_def Let_def)
qed

lemma Read_ok:
  assumes "buf_ok b" "0 \<le> n" "n \<le> m_Length b" "n \<le> int (length dest)" "destLen = int (length dest)"
    "length dest \<le> nat BUFFER_SIZE"
  shows "\<exists>b'. Read n dest destLen b = Inr ((n, mem_write dest 0 (take (nat n) (contents b))), b')
    \<and> buf_ok b' \<and> contents b' = drop (nat n) (contents b)"
proof -
  have "memcpy_s dest 0 destLen (m_Buffer b) 0 n
      = Inr (mem_write dest 0 (take (nat n) (contents b)))"
    using assms
    by (subst memcpy_s_ok)
      (simp_all add: buf_ok_def BUFFER_SIZE_val mem_read_def contents_def min_absorb1 nat_mono)
  moreover have "i32 (m_Length b - n) = m_Length b - n"
    using assms by (simp add: buf_ok_def BUFFER_SIZE_val)
  ultimately show ?thesis
    using pull_front_ok[OF assms(1-3)] assms(3) by (auto simp: Read_def)
qed

lemma ThrowAway_ok:
  assumes "buf_ok b" "0 \<le> n" "n \<le> m_Length b"
  shows "\<exists>b'. ThrowAway n b = Inr (n, b') \<and> buf_ok b' \<and> contents b' = drop (nat n) (contents b)"
proof -
  have "i32 (m_Length b - n) = m_Length b - n"
    using assms by (simp add: buf_ok_def BUFFER_SIZE_val)
  with pull_front_ok[OF assms] assms(3) show ?thesis by (auto simp: ThrowAway_def)
qed

text \<open>The routine a reader of the interface calls: \<open>Read\<close> into a destination of the buffer's own size.\<close>

definition read_bytes :: "nat \<Rightarrow> PulledBuffer \<Rightarrow> (byte list \<times> PulledBuffer) res" where
  "read_bytes n b = bindE (Read (int n) (replicate (nat BUFFER_SIZE) 0) BUFFER_SIZE b)
     (\<lambda>((r, dest), b'). Inr (take (nat r) dest, b'))"

lemma read_bytes_ok:
  assumes "buf_ok b" "n \<le> length (contents b)"
  shows "\<exists>b'. read_bytes n b = Inr (take n (contents b), b')
    \<and> buf_ok b' \<and> contents b' = drop n (contents b)"
proof -
  have n: "int n \<le> m_Length b" "int n \<le> BUFFER_SIZE"
    using assms by (auto simp: length_contents buf_ok_def)
  then obtain b' where "Read (int n) (replicate (nat BUFFER_SIZE) 0) BUFFER_SIZE b
      = Inr ((int n, mem_write (replicate (nat BUFFER_SIZE) 0) 0 (take n (contents b))), b')"
    "buf_ok b'" "contents b' = drop n (contents b)"
    using Read_ok[OF assms(1), of "int n" "replicate (nat BUFFER_SIZE) 0" BUFFER_SIZE]
    by (auto simp: BUFFER_SIZE_val)
  then show ?thesis
    using assms(2) by (simp add: read_bytes_def mem_write_def)
qed

interpretation pulled: byte_fifo contents buf_ok "nat BUFFER_SIZE" PulledBuffer_new
  "\<lambda>xs. Write xs (int (length xs))" read_bytes "\<lambda>n. ThrowAway (int n)"
proof (unfold_locales, goal_cases)
  case (4 b xs)
  then have "m_Length b + int (length xs) \<le> BUFFER_SIZE"
    using buf_okD[OF 4(1)] by (simp add: length_contents)
  with Write_ok[OF 4(1), of "int (length xs)" xs] show ?case by auto
next
  case (5 b xs)
  then show ?case
    by (intro Write_full) (auto simp: length_contents buf_ok_def BUFFER_SIZE_val)
next
  case (7 b n)
  then show ?case
    by (auto simp: read_bytes_def Read_def length_contents buf_ok_def)
next
  case (8 b n)
  then have "int n \<le> m_Length b" by (auto simp: length_contents buf_ok_def)
  with ThrowAway_ok[OF 8(1), of "int n"] show ?case by auto
next
  case (9 b n)
  then show ?case by (auto simp: ThrowAway_def length_contents buf_ok_def)
qed (simp_all add: length_contents_le read_bytes_ok)

end
