(* ===== verification/Packet_Format.thy ===== *)
theory Packet_Format
  imports Sig_Prelude
begin

text \<open>
  \<^verbatim>\<open>IocpServer/src/packet/Packet.h\<close>: the wire format. The structures are packed to one byte, so a
  packet in memory is its size field (two bytes, least significant first), its flag, its checksum
  byte and its data. A \<^verbatim>\<open>Packet*\<close> is modelled by the bytes it points to. The second half is the
  reference reading of a byte stream as a sequence of frames.
\<close>

section \<open>The structures\<close>

record PacketHeader =
  dataSize :: "16 word"
  flag :: byte
  checkSum :: byte

record Packet = PacketHeader +
  data :: "byte list"

record PacketData =
  packetId :: "32 word"
  clientId :: "32 word"
  sentTime :: "32 word"
  pd_data :: "byte list"

definition sizeof_PacketHeader :: int where
  "sizeof_PacketHeader = 4"

definition Packet_new :: Packet where
  "Packet_new = \<lparr>dataSize = 0, flag = 0, checkSum = 0, data = replicate 65532 0\<rparr>"

definition word16_bytes :: "16 word \<Rightarrow> byte list" where
  "word16_bytes w = [of_nat (unat w mod 256), of_nat (unat w div 256)]"

definition bytes_word16 :: "byte \<Rightarrow> byte \<Rightarrow> 16 word" where
  "bytes_word16 lo hi = of_nat (unat lo + 256 * unat hi)"

definition Packet_bytes :: "Packet \<Rightarrow> byte list" where
  "Packet_bytes p = word16_bytes (dataSize p) @ [flag p, checkSum p] @ data p"

text \<open>Field reads through a \<^verbatim>\<open>Packet*\<close>.\<close>

definition packet_dataSize :: "byte list \<Rightarrow> (16 word) res" where
  "packet_dataSize m = (case m of lo # hi # _ \<Rightarrow> Inr (bytes_word16 lo hi) | _ \<Rightarrow> Inl OutOfBounds)"

definition packet_flag :: "byte list \<Rightarrow> byte res" where
  "packet_flag m = (case m of _ # _ # f # _ \<Rightarrow> Inr f | _ \<Rightarrow> Inl OutOfBounds)"

definition packet_checkSum :: "byte list \<Rightarrow> byte res" where
  "packet_checkSum m = (case m of _ # _ # _ # c # _ \<Rightarrow> Inr c | _ \<Rightarrow> Inl OutOfBounds)"

definition bytes_Packet :: "byte list \<Rightarrow> Packet res" where
  "bytes_Packet m =
     bindE (packet_dataSize m) (\<lambda>n.
     bindE (packet_flag m) (\<lambda>f.
     bindE (packet_checkSum m) (\<lambda>c.
     Inr \<lparr>dataSize = n, flag = f, checkSum = c, data = drop 4 m\<rparr>)))"

section \<open>Frames of a byte stream\<close>

definition frame_data_size :: "byte list \<Rightarrow> nat" where
  "frame_data_size bs = unat (bytes_word16 (bs ! 0) (bs ! 1))"

definition frame_ready :: "byte list \<Rightarrow> bool" where
  "frame_ready bs \<longleftrightarrow> 2 \<le> length bs \<and> 0 < frame_data_size bs
     \<and> frame_data_size bs + 4 \<le> length bs"

function frames :: "byte list \<Rightarrow> byte list list \<times> byte list" where
  "frames bs =
     (if frame_ready bs then
        (let n = frame_data_size bs + 4; (fs, rest) = frames (drop n bs)
         in (take n bs # fs, rest))
      else ([], bs))"
  by pat_completeness auto
termination
  by (relation "measure length") (auto simp: frame_ready_def)

declare frames.simps [simp del]

lemma bytes_word16_bytes [simp]:
  "bytes_word16 (of_nat (unat w mod 256)) (of_nat (unat w div 256)) = w"
proof -
  have "unat w div 256 < 256"
    using unat_less_exp[of w] by (simp add: less_mult_imp_div_less)
  then have "unat (of_nat (unat w div 256) :: byte) = unat w div 256"
    by (simp add: unat_of_nat)
  moreover have "unat (of_nat (unat w mod 256) :: byte) = unat w mod 256"
    by (simp add: unat_of_nat)
  ultimately show ?thesis
    by (simp add: bytes_word16_def)
qed

lemma unat_bytes_word16: "unat (bytes_word16 lo hi) = unat lo + 256 * unat hi"
proof -
  have "unat lo + 256 * unat hi < 65536"
    using unat_less_exp[of lo] unat_less_exp[of hi] by simp
  then show ?thesis
    unfolding bytes_word16_def by (simp only: unat_of_nat) simp
qed

lemma unat_dataSize_bound: "unat (n :: 16 word) \<le> 65535"
  using unat_less_exp[of n] by simp

text \<open>The length of a whole packet, as the \<^verbatim>\<open>int\<close> the code computes and as a natural number.\<close>

lemma copy_length:
  obtains k where "k = unat (n :: 16 word) + 4" "uint n + 4 = int k" "i32 (int k) = int k" "k < 65540"
proof
  show "unat n + 4 < 65540" using unat_dataSize_bound[of n] by simp
  then show "i32 (int (unat n + 4)) = int (unat n + 4)" by (intro i32_id) linarith+
qed simp_all

lemma frame_data_size_bound: "frame_data_size bs \<le> 65535"
  by (simp add: frame_data_size_def unat_dataSize_bound)

lemma frame_data_size_append [simp]:
  "2 \<le> length xs \<Longrightarrow> frame_data_size (xs @ ys) = frame_data_size xs"
  by (cases xs) (auto simp: frame_data_size_def nth_append)

lemma frame_ready_append: "frame_ready xs \<Longrightarrow> frame_ready (xs @ ys)"
  by (simp add: frame_ready_def)

lemma frames_concat: "frames bs = (fs, rest) \<Longrightarrow> concat fs @ rest = bs"
proof (induction bs arbitrary: fs rest rule: frames.induct)
  case (1 bs)
  show ?case
  proof (cases "frame_ready bs")
    case True
    obtain fs' rest' where r: "frames (drop (frame_data_size bs + 4) bs) = (fs', rest')"
      by fastforce
    with 1 True have "concat fs' @ rest' = drop (frame_data_size bs + 4) bs"
      by blast
    moreover have "fs = take (frame_data_size bs + 4) bs # fs'" "rest = rest'"
      using 1(2) True r by (simp_all add: frames.simps[of bs] Let_def)
    ultimately show ?thesis by simp
  next
    case False
    with 1(2) show ?thesis by (simp add: frames.simps[of bs])
  qed
qed

lemma frames_rest_stuck: "frames bs = (fs, rest) \<Longrightarrow> \<not> frame_ready rest"
proof (induction bs arbitrary: fs rest rule: frames.induct)
  case (1 bs)
  then show ?case
    by (cases "frame_ready bs") (auto simp: frames.simps[of bs] Let_def split: prod.splits)
qed

lemma frames_not_ready: "\<not> frame_ready bs \<Longrightarrow> frames bs = ([], bs)"
  by (simp add: frames.simps[of bs])

text \<open>Reading a stream in two pieces gives the frames of the whole stream.\<close>

lemma frames_append:
  "frames (xs @ ys) =
     (let (fs, rest) = frames xs; (gs, rest') = frames (rest @ ys) in (fs @ gs, rest'))"
proof (induction xs rule: frames.induct)
  case (1 xs)
  show ?case
  proof (cases "frame_ready xs")
    case True
    have len: "frame_data_size xs + 4 \<le> length xs" "2 \<le> length xs"
      using True by (simp_all add: frame_ready_def)
    obtain fs rest where r: "frames (drop (frame_data_size xs + 4) xs) = (fs, rest)"
      by fastforce
    obtain gs rest' where g: "frames (rest @ ys) = (gs, rest')"
      by fastforce
    from 1[OF True refl] r g
    have "frames (drop (frame_data_size xs + 4) xs @ ys) = (fs @ gs, rest')" by simp
    then have "frames (xs @ ys) = (take (frame_data_size xs + 4) xs # fs @ gs, rest')"
      using len frame_ready_append[OF True, of ys]
      by (simp add: frames.simps[of "xs @ ys"] Let_def)
    with True r g show ?thesis by (simp add: frames.simps[of xs] Let_def)
  next
    case False
    then show ?thesis by (simp add: frames_not_ready split: prod.splits)
  qed
qed

text \<open>A frame as the sender writes it: the data size field is the number of data bytes.\<close>

definition wire_frame :: "Packet \<Rightarrow> byte list" where
  "wire_frame p = take (unat (dataSize p) + 4) (Packet_bytes p)"

definition sendable :: "Packet \<Rightarrow> bool" where
  "sendable p \<longleftrightarrow> 0 < unat (dataSize p) \<and> unat (dataSize p) \<le> length (data p)"

lemma length_Packet_bytes [simp]: "length (Packet_bytes p) = length (data p) + 4"
  by (simp add: Packet_bytes_def word16_bytes_def)

lemma length_wire_frame: "sendable p \<Longrightarrow> length (wire_frame p) = unat (dataSize p) + 4"
  by (simp add: wire_frame_def sendable_def)

lemma wire_frame_split:
  "wire_frame p = word16_bytes (dataSize p) @ [flag p, checkSum p] @ take (unat (dataSize p)) (data p)"
proof -
  have "length (word16_bytes (dataSize p) @ [flag p, checkSum p]) = 4" by (simp add: word16_bytes_def)
  then show ?thesis
    unfolding wire_frame_def Packet_bytes_def append_assoc[symmetric] by (simp only: take_append) simp
qed

lemma frame_data_size_wire: "sendable p \<Longrightarrow> frame_data_size (wire_frame p @ ys) = unat (dataSize p)"
  by (simp add: frame_data_size_def wire_frame_def Packet_bytes_def word16_bytes_def nth_append
      sendable_def)

lemma frames_wire_frame:
  assumes "sendable p"
  shows "frames (wire_frame p @ ys) = (let (fs, rest) = frames ys in (wire_frame p # fs, rest))"
proof -
  have "frame_ready (wire_frame p @ ys)"
    unfolding frame_ready_def frame_data_size_wire[OF assms]
    using assms by (simp add: length_wire_frame) (simp add: sendable_def)
  with assms show ?thesis
    by (simp add: frames.simps[of "wire_frame p @ ys"] frame_data_size_wire
        length_wire_frame [symmetric] Let_def)
qed

lemma frames_wire_frames:
  "\<forall>p\<in>set ps. sendable p \<Longrightarrow> \<not> frame_ready tail \<Longrightarrow>
   frames (concat (map wire_frame ps) @ tail) = (map wire_frame ps, tail)"
  by (induction ps) (simp_all add: frames_not_ready frames_wire_frame)

end
