(* ===== verification/Auto_Lock.thy ===== *)
theory Auto_Lock
  imports Sig_Prelude
begin

text \<open>
  The lock classes of \<^verbatim>\<open>IocpServer/src/utility/AutoLock.h\<close> (and their copy in
  \<^verbatim>\<open>gordonlee/src/utility/scoped_lock.h\<close>): \<^verbatim>\<open>CriticalSectionLock\<close> over a Win32 critical
  section and the scope guard \<^verbatim>\<open>AutoLock\<close>. A critical section is recursive: the owner may enter
  it again, and it is free once every entry has been left. The scope guard is the combinator
  \<open>AutoLock_scope\<close>; the locale \<open>lock_field\<close> collects what its users need to know of the field
  that holds their lock. The last part is a system of threads that construct and destroy guards of
  one lock, with the mutual exclusion the lock gives them.
\<close>

section \<open>The classes\<close>

type_synonym tid = nat

record CRITICAL_SECTION =
  OwningThread :: "tid option"
  RecursionCount :: nat

definition CriticalSectionLock_new :: CRITICAL_SECTION where
  "CriticalSectionLock_new = \<lparr>OwningThread = None, RecursionCount = 0\<rparr>"

definition Enter :: "tid \<Rightarrow> CRITICAL_SECTION \<Rightarrow> CRITICAL_SECTION res" where
  "Enter t cs =
     (if OwningThread cs = None \<or> OwningThread cs = Some t
      then Inr (cs\<lparr>OwningThread := Some t, RecursionCount := Suc (RecursionCount cs)\<rparr>)
      else Inl LockBusy)"

definition Leave :: "tid \<Rightarrow> CRITICAL_SECTION \<Rightarrow> CRITICAL_SECTION res" where
  "Leave t cs =
     (if OwningThread cs \<noteq> Some t then Inl LockNotOwned
      else if RecursionCount cs \<le> 1 then Inr (cs\<lparr>OwningThread := None, RecursionCount := 0\<rparr>)
      else Inr (cs\<lparr>RecursionCount := RecursionCount cs - 1\<rparr>))"

text \<open>A lock pointer is \<open>None\<close> when it is null; the guard then does nothing.\<close>

definition AutoLock_ctor :: "tid \<Rightarrow> CRITICAL_SECTION option \<Rightarrow> CRITICAL_SECTION option res" where
  "AutoLock_ctor t lock =
     (case lock of None \<Rightarrow> Inr None | Some cs \<Rightarrow> bindE (Enter t cs) (\<lambda>cs'. Inr (Some cs')))"

definition AutoLock_dtor :: "tid \<Rightarrow> CRITICAL_SECTION option \<Rightarrow> CRITICAL_SECTION option res" where
  "AutoLock_dtor t lock =
     (case lock of None \<Rightarrow> Inr None | Some cs \<Rightarrow> bindE (Leave t cs) (\<lambda>cs'. Inr (Some cs')))"

definition AutoLock_scope ::
  "tid \<Rightarrow> ('s \<Rightarrow> CRITICAL_SECTION option) \<Rightarrow> (CRITICAL_SECTION option \<Rightarrow> 's \<Rightarrow> 's)
    \<Rightarrow> ('s \<Rightarrow> ('a \<times> 's) res) \<Rightarrow> 's \<Rightarrow> ('a \<times> 's) res" where
  "AutoLock_scope t get put body s =
     bindE (AutoLock_ctor t (get s)) (\<lambda>l.
     bindE (body (put l s)) (\<lambda>(x, s').
     bindE (AutoLock_dtor t (get s')) (\<lambda>l'.
     Inr (x, put l' s'))))"

section \<open>A lock that is available to a thread\<close>

definition lock_avail :: "tid \<Rightarrow> CRITICAL_SECTION option \<Rightarrow> bool" where
  "lock_avail t lock = (case lock of None \<Rightarrow> True
     | Some cs \<Rightarrow> (case OwningThread cs of None \<Rightarrow> RecursionCount cs = 0
                  | Some u \<Rightarrow> u = t \<and> 0 < RecursionCount cs))"

definition lock_entered :: "tid \<Rightarrow> CRITICAL_SECTION option \<Rightarrow> CRITICAL_SECTION option" where
  "lock_entered t = map_option
     (\<lambda>cs. cs\<lparr>OwningThread := Some t, RecursionCount := Suc (RecursionCount cs)\<rparr>)"

lemma lock_avail_None [simp]: "lock_avail t None"
  by (simp add: lock_avail_def)

lemma lock_avail_new [simp]: "lock_avail t (Some CriticalSectionLock_new)"
  by (simp add: lock_avail_def CriticalSectionLock_new_def)

lemma lock_avail_entered [simp]: "lock_avail t l \<Longrightarrow> lock_avail t (lock_entered t l)"
  by (auto simp: lock_avail_def lock_entered_def split: option.splits)

lemma AutoLock_ctor_avail [lock_simps]:
  "lock_avail t l \<Longrightarrow> AutoLock_ctor t l = Inr (lock_entered t l)"
  by (auto simp: lock_avail_def lock_entered_def AutoLock_ctor_def Enter_def
      split: option.splits)

lemma AutoLock_dtor_entered [lock_simps]:
  "lock_avail t l \<Longrightarrow> AutoLock_dtor t (lock_entered t l) = Inr l"
  by (auto simp: lock_avail_def lock_entered_def AutoLock_dtor_def Leave_def
      split: option.splits)

lemma AutoLock_ctor_busy:
  "\<lbrakk>OwningThread cs = Some u; u \<noteq> t\<rbrakk> \<Longrightarrow> AutoLock_ctor t (Some cs) = Inl LockBusy"
  by (simp add: AutoLock_ctor_def Enter_def)

text \<open>What a class that stores a lock pointer in a field guarantees about that field.\<close>

locale lock_field =
  fixes get :: "'s \<Rightarrow> CRITICAL_SECTION option"
    and put :: "CRITICAL_SECTION option \<Rightarrow> 's \<Rightarrow> 's"
  assumes get_put: "get (put l s) = l"
    and put_get: "put (get s) s = s"
    and put_put: "put l (put l' s) = put l s"
begin

text \<open>A guarded body that returns with the lock as it found it gives back the lock as the guard
  found it, and nothing else of its result changes.\<close>

lemma scope_avail:
  assumes "lock_avail t (get s)"
    and "body (put (lock_entered t (get s)) s) = Inr (x, s')"
    and "get s' = lock_entered t (get s)"
  shows "AutoLock_scope t get put body s = Inr (x, put (get s) s')"
  using assms by (simp add: AutoLock_scope_def lock_simps)

lemma scope_lock_restored:
  assumes "lock_avail t (get s)"
    and "AutoLock_scope t get put body s = Inr (x, s')"
    and "\<And>r y r'. lock_avail t (get r) \<Longrightarrow> body r = Inr (y, r') \<Longrightarrow> get r' = get r"
  shows "get s' = get s"
proof -
  obtain s1 where body: "body (put (lock_entered t (get s)) s) = Inr (x, s1)"
    and s': "bindE (AutoLock_dtor t (get s1)) (\<lambda>l'. Inr (x, put l' s1)) = Inr (x, s')"
    using assms(1,2) by (auto simp: AutoLock_scope_def lock_simps bindE_eq_Inr)
  have "get s1 = lock_entered t (get s)"
    using assms(3)[OF _ body] assms(1) by (simp add: get_put)
  with s' assms(1) show ?thesis by (auto simp: lock_simps get_put)
qed

lemma scope_busy:
  assumes "get s = Some cs" "OwningThread cs = Some u" "u \<noteq> t"
  shows "AutoLock_scope t get put body s = Inl LockBusy"
  using assms by (simp add: AutoLock_scope_def AutoLock_ctor_busy)

lemma scope_body_fails:
  assumes "lock_avail t (get s)" "body (put (lock_entered t (get s)) s) = Inl e"
  shows "AutoLock_scope t get put body s = Inl e"
  using assms by (simp add: AutoLock_scope_def lock_simps)

end

interpretation bare_lock: lock_field "\<lambda>l. l" "\<lambda>l _. l"
  by unfold_locales simp_all

section \<open>Threads that guard themselves with one lock\<close>

record lock_sys =
  the_lock :: CRITICAL_SECTION
  guards :: "tid \<Rightarrow> nat"   \<comment> \<open>live \<open>AutoLock\<close> objects of each thread\<close>

definition lock_sys_init :: lock_sys where
  "lock_sys_init = \<lparr>the_lock = CriticalSectionLock_new, guards = (\<lambda>_. 0)\<rparr>"

inductive guard_step :: "lock_sys \<Rightarrow> lock_sys \<Rightarrow> bool" where
  construct: "AutoLock_ctor t (Some (the_lock s)) = Inr (Some cs) \<Longrightarrow>
     guard_step s (s\<lparr>the_lock := cs, guards := (guards s)(t := Suc (guards s t))\<rparr>)"
| destroy: "\<lbrakk>0 < guards s t; AutoLock_dtor t (Some (the_lock s)) = Inr (Some cs)\<rbrakk> \<Longrightarrow>
     guard_step s (s\<lparr>the_lock := cs, guards := (guards s)(t := guards s t - 1)\<rparr>)"

inductive guard_reach :: "lock_sys \<Rightarrow> bool" where
  none: "guard_reach lock_sys_init"
| more: "guard_reach s \<Longrightarrow> guard_step s s' \<Longrightarrow> guard_reach s'"

inductive_cases guard_stepE: "guard_step s s'"

definition guards_match :: "lock_sys \<Rightarrow> bool" where
  "guards_match s \<longleftrightarrow>
     (case OwningThread (the_lock s) of
        None \<Rightarrow> RecursionCount (the_lock s) = 0 \<and> (\<forall>t. guards s t = 0)
      | Some u \<Rightarrow> 0 < guards s u \<and> RecursionCount (the_lock s) = guards s u
          \<and> (\<forall>t. t \<noteq> u \<longrightarrow> guards s t = 0))"

lemma guards_match_init: "guards_match lock_sys_init"
  by (simp add: guards_match_def lock_sys_init_def CriticalSectionLock_new_def)

lemma guards_match_step: "guard_step s s' \<Longrightarrow> guards_match s \<Longrightarrow> guards_match s'"
  by (erule guard_stepE)
    (auto simp: guards_match_def AutoLock_ctor_def AutoLock_dtor_def Enter_def Leave_def
      split: option.splits if_splits)

lemma guard_reach_match: "guard_reach s \<Longrightarrow> guards_match s"
  by (induction rule: guard_reach.induct) (auto intro: guards_match_init guards_match_step)

end
