(* ===== verification/Resource_Pool.thy ===== *)
theory Resource_Pool
  imports Sig_Prelude
begin

text \<open>
  The contract of a pool that hands out objects from a first-in first-out queue and allocates more
  when the queue is empty. Two classes of the repository are such pools: \<^verbatim>\<open>OverlappedIoPool\<close>
  (IocpServer) and \<^verbatim>\<open>TcpSessionPool\<close> (gordonlee). What their clients need (an object is never
  handed out while somebody holds it) is proved here once, from the contract.
\<close>

locale fifo_pool =
  fixes queue :: "'s \<Rightarrow> 'o list"
    and owned :: "'s \<Rightarrow> 'o set"
    and ok :: "'s \<Rightarrow> bool"
    and acquire :: "'s \<Rightarrow> ('o \<times> 's) res"
    and release :: "'o \<Rightarrow> 's \<Rightarrow> (unit \<times> 's) res"
  assumes ok_queue: "ok s \<Longrightarrow> distinct (queue s) \<and> set (queue s) \<subseteq> owned s"
    and acquire_waiting: "\<lbrakk>ok s; queue s = x # xs\<rbrakk> \<Longrightarrow>
      \<exists>s'. acquire s = Inr (x, s') \<and> ok s' \<and> queue s' = xs \<and> owned s' = owned s"
    and acquire_grow: "\<lbrakk>ok s; queue s = []\<rbrakk> \<Longrightarrow>
      \<exists>x s'. acquire s = Inr (x, s') \<and> ok s' \<and> x \<notin> owned s \<and> x \<notin> set (queue s')
        \<and> set (queue s') \<inter> owned s = {} \<and> owned s' = owned s \<union> insert x (set (queue s'))"
    and release_back: "\<lbrakk>ok s; x \<in> owned s; x \<notin> set (queue s)\<rbrakk> \<Longrightarrow>
      \<exists>s'. release x s = Inr ((), s') \<and> ok s' \<and> queue s' = queue s @ [x] \<and> owned s' = owned s"
begin

definition in_use :: "'s \<Rightarrow> 'o set" where
  "in_use s = owned s - set (queue s)"

lemma acquire_in_use:
  assumes "ok s"
  shows "\<exists>x s'. acquire s = Inr (x, s') \<and> ok s' \<and> x \<notin> in_use s \<and> in_use s' = insert x (in_use s)"
proof (cases "queue s")
  case Nil
  with acquire_grow[OF assms] show ?thesis by (fastforce simp: in_use_def)
next
  case (Cons x xs)
  with acquire_waiting[OF assms Cons] ok_queue[OF assms] show ?thesis
    by (fastforce simp: in_use_def)
qed

lemma release_in_use:
  assumes "ok s" "x \<in> in_use s"
  shows "\<exists>s'. release x s = Inr ((), s') \<and> ok s' \<and> in_use s' = in_use s - {x}"
  using release_back[OF assms(1), of x] assms(2) by (fastforce simp: in_use_def)

text \<open>A client: it acquires, and gives back objects it holds, by position.\<close>

fun session :: "nat option list \<Rightarrow> 'o list \<Rightarrow> 's \<Rightarrow> ('o list \<times> 's) res" where
  "session [] held s = Inr (held, s)"
| "session (None # ops) held s = bindE (acquire s) (\<lambda>(x, s'). session ops (held @ [x]) s')"
| "session (Some i # ops) held s =
     (if i < length held
      then bindE (release (held ! i) s) (\<lambda>(_, s'). session ops (take i held @ drop (Suc i) held) s')
      else session ops held s)"

lemma set_take_drop_nth:
  "distinct xs \<Longrightarrow> i < length xs \<Longrightarrow>
   distinct (take i xs @ drop (Suc i) xs) \<and> set (take i xs @ drop (Suc i) xs) = set xs - {xs ! i}"
proof -
  assume d: "distinct xs" and i: "i < length xs"
  have split: "xs = take i xs @ xs ! i # drop (Suc i) xs"
    using i by (simp add: id_take_nth_drop)
  have "distinct (take i xs @ xs ! i # drop (Suc i) xs)"
    using d split by metis
  moreover have "set xs = set (take i xs @ xs ! i # drop (Suc i) xs)"
    using split by metis
  ultimately show ?thesis by auto
qed

text \<open>Whatever the client does, it never fails, never holds an object twice, and what it holds is
  exactly what the pool counts as in use.\<close>

lemma session_exclusive:
  assumes "ok s" "distinct held" "set held = in_use s"
  shows "\<exists>held' s'. session ops held s = Inr (held', s') \<and> ok s' \<and> distinct held'
    \<and> set held' = in_use s'"
  using assms
proof (induction ops held s rule: session.induct)
  case (1 held s)
  then show ?case by simp
next
  case (2 ops held s)
  obtain x s' where x: "acquire s = Inr (x, s')" "ok s'" "x \<notin> in_use s"
    "in_use s' = insert x (in_use s)"
    using acquire_in_use[OF "2.prems"(1)] by blast
  with 2 have "\<exists>h r. session ops (held @ [x]) s' = Inr (h, r) \<and> ok r \<and> distinct h \<and> set h = in_use r"
    by (intro "2.IH"[of "(x, s')" x s']) auto
  with x(1) show ?case by simp
next
  case (3 i ops held s)
  show ?case
  proof (cases "i < length held")
    case True
    note td = set_take_drop_nth[OF "3.prems"(2) True]
    have "held ! i \<in> in_use s" using True "3.prems"(3) nth_mem by blast
    then obtain s' where s': "release (held ! i) s = Inr ((), s')" "ok s'"
      "in_use s' = in_use s - {held ! i}"
      using release_in_use[OF "3.prems"(1)] by blast
    with td "3.prems"(3)
    have "\<exists>h r. session ops (take i held @ drop (Suc i) held) s' = Inr (h, r) \<and> ok r
      \<and> distinct h \<and> set h = in_use r"
      by (intro "3.IH"(1)[OF True, of "((), s')" "()" s']) auto
    with s'(1) True show ?thesis by simp
  next
    case False
    with 3 show ?thesis by simp
  qed
qed

end

end
