(* ===== verification/Io_Pool.thy ===== *)
theory Io_Pool
  imports Auto_Lock Resource_Pool
begin

text \<open>
  \<^verbatim>\<open>IocpServer/src/iocp/iocp_structure.h\<close>: the extended \<^verbatim>\<open>OVERLAPPED\<close> structure, which points
  back to the session that owns the operation, and \<^verbatim>\<open>OverlappedIoPool\<close>. Structures live in
  arrays obtained from \<^verbatim>\<open>new[]\<close>; a pointer is the index of a cell of \<open>io_heap\<close>, so the pointer
  increments of the pool's loop are increments of the index. A pool's lock is used by that pool
  only (\<^verbatim>\<open>g_recvIoPoolLock\<close> and \<^verbatim>\<open>g_sendIoPoolLock\<close> in \<^verbatim>\<open>network.cpp\<close>), so it is kept in the pool's
  record.
\<close>

section \<open>OverlappedIO\<close>

type_synonym cid = nat  \<comment> \<open>the object a \<^verbatim>\<open>shared_ptr<TcpClient>\<close> points to\<close>
type_synonym ovl = nat  \<comment> \<open>an \<^verbatim>\<open>OverlappedIO*\<close>\<close>

record OverlappedIO =
  Internal :: int
  InternalHigh :: int
  Offset :: int
  OffsetHigh :: int
  Pointer :: int
  hEvent :: int
  Client :: "cid option"

definition Reset :: "OverlappedIO \<Rightarrow> OverlappedIO" where
  "Reset c = c\<lparr>Internal := 0, InternalHigh := 0, Offset := 0, OffsetHigh := 0, Pointer := 0,
     hEvent := 0\<rparr>"

definition SetClientObject :: "cid option \<Rightarrow> OverlappedIO \<Rightarrow> OverlappedIO" where
  "SetClientObject client c = c\<lparr>Client := client\<rparr>"

definition GetClientObject :: "OverlappedIO \<Rightarrow> cid option" where
  "GetClientObject c = Client c"

definition OverlappedIO_new :: OverlappedIO where
  "OverlappedIO_new = Reset \<lparr>Internal = 0, InternalHigh = 0, Offset = 0, OffsetHigh = 0,
     Pointer = 0, hEvent = 0, Client = None\<rparr>"

section \<open>The heap of structures\<close>

record io_heap =
  cells :: "ovl \<rightharpoonup> OverlappedIO"
  next_cell :: ovl
  blocks :: "ovl \<rightharpoonup> nat"   \<comment> \<open>length of the array allocated at an address\<close>

definition io_heap_empty :: io_heap where
  "io_heap_empty = \<lparr>cells = Map.empty, next_cell = 0, blocks = Map.empty\<rparr>"

definition new_array :: "nat \<Rightarrow> io_heap \<Rightarrow> ovl \<times> io_heap" where
  "new_array n h = (next_cell h,
     \<lparr>cells = (\<lambda>a. if next_cell h \<le> a \<and> a < next_cell h + n then Some OverlappedIO_new else cells h a),
      next_cell = next_cell h + n, blocks = (blocks h)(next_cell h \<mapsto> n)\<rparr>)"

definition delete_array :: "ovl \<Rightarrow> io_heap \<Rightarrow> io_heap res" where
  "delete_array a h = (case blocks h a of None \<Rightarrow> Inl DanglingPtr
     | Some n \<Rightarrow> Inr (h\<lparr>cells := (\<lambda>b. if a \<le> b \<and> b < a + n then None else cells h b),
          blocks := (blocks h)(a := None)\<rparr>))"

definition upd_cell :: "(OverlappedIO \<Rightarrow> OverlappedIO) \<Rightarrow> ovl \<Rightarrow> io_heap \<Rightarrow> io_heap res" where
  "upd_cell f a h = (case cells h a of None \<Rightarrow> Inl DanglingPtr
     | Some c \<Rightarrow> Inr (h\<lparr>cells := (cells h)(a \<mapsto> f c)\<rparr>))"

section \<open>OverlappedIoPool\<close>

definition g_default_io_pool_size :: int where
  "g_default_io_pool_size = 2048"

record OverlappedIoPool =
  m_waitingQueue :: "ovl list"
  m_dataPool :: "ovl list"
  m_lock :: "CRITICAL_SECTION option"

type_synonym pool_state = "io_heap \<times> OverlappedIoPool"

definition OverlappedIoPool_new :: "CRITICAL_SECTION option \<Rightarrow> OverlappedIoPool" where
  "OverlappedIoPool_new lock = \<lparr>m_waitingQueue = [], m_dataPool = [], m_lock = lock\<rparr>"

abbreviation pool_lock :: "pool_state \<Rightarrow> CRITICAL_SECTION option" where
  "pool_lock s \<equiv> m_lock (snd s)"

abbreviation pool_set_lock :: "CRITICAL_SECTION option \<Rightarrow> pool_state \<Rightarrow> pool_state" where
  "pool_set_lock l s \<equiv> (fst s, (snd s)\<lparr>m_lock := l\<rparr>)"

definition Enqueue :: "tid \<Rightarrow> ovl \<Rightarrow> pool_state \<Rightarrow> (unit \<times> pool_state) res" where
  "Enqueue t overlapped = AutoLock_scope t pool_lock pool_set_lock (\<lambda>(h, p).
     Inr ((), (h, p\<lparr>m_waitingQueue := m_waitingQueue p @ [overlapped]\<rparr>)))"

fun grow_loop :: "tid \<Rightarrow> nat \<Rightarrow> ovl \<Rightarrow> pool_state \<Rightarrow> pool_state res" where
  "grow_loop t 0 insertPtr s = Inr s"
| "grow_loop t (Suc k) insertPtr (h, p) =
     bindE (upd_cell Reset insertPtr h) (\<lambda>h'.
     bindE (Enqueue t insertPtr (h', p)) (\<lambda>(_, s').
     grow_loop t k (Suc insertPtr) s'))"

definition GrowPoolSize :: "tid \<Rightarrow> int \<Rightarrow> pool_state \<Rightarrow> (bool \<times> pool_state) res" where
  "GrowPoolSize t elementCount = AutoLock_scope t pool_lock pool_set_lock (\<lambda>(h, p).
     if elementCount \<le> 0 then Inr (False, (h, p))
     else let (allocArray, h1) = new_array (nat elementCount) h;
              p1 = p\<lparr>m_dataPool := m_dataPool p @ [allocArray]\<rparr>
          in bindE (grow_loop t (nat elementCount) allocArray (h1, p1)) (\<lambda>s'. Inr (True, s')))"

definition Dequeue :: "tid \<Rightarrow> pool_state \<Rightarrow> (ovl \<times> pool_state) res" where
  "Dequeue t = AutoLock_scope t pool_lock pool_set_lock (\<lambda>s.
     bindE (if m_waitingQueue (snd s) = []
            then bindE (GrowPoolSize t g_default_io_pool_size s) (\<lambda>(grown, s').
                   if grown then Inr s' else Inl Terminate)
            else Inr s) (\<lambda>(h, p).
     case m_waitingQueue p of [] \<Rightarrow> Inl EmptyFront
     | dequeue # rest \<Rightarrow> Inr (dequeue, (h, p\<lparr>m_waitingQueue := rest\<rparr>))))"

definition Clear_pool :: "tid \<Rightarrow> pool_state \<Rightarrow> (unit \<times> pool_state) res" where
  "Clear_pool t = AutoLock_scope t pool_lock pool_set_lock (\<lambda>(h, p).
     bindE (foldE delete_array (m_dataPool p) h) (\<lambda>h'.
     Inr ((), (h', p\<lparr>m_dataPool := [], m_waitingQueue := []\<rparr>))))"

definition MakeOverlappedIo :: "pool_state \<Rightarrow> ovl \<times> pool_state" where
  "MakeOverlappedIo s = (let (h, p) = s; (element, h1) = new_array 1 h
     in (element, (h1, p\<lparr>m_waitingQueue := m_waitingQueue p @ [element]\<rparr>)))"

section \<open>Closed forms when the lock is available\<close>

interpretation pool_lk: lock_field pool_lock pool_set_lock
  by unfold_locales auto

lemma Reset_new [simp]: "Reset OverlappedIO_new = OverlappedIO_new"
  by (simp add: Reset_def OverlappedIO_new_def)

lemma Client_new [simp]: "Client OverlappedIO_new = None"
  by (simp add: Reset_def OverlappedIO_new_def)

lemma Client_Reset [simp]: "Client (Reset c) = Client c"
  by (simp add: Reset_def)

lemma Enqueue_avail [op_eqs]:
  "lock_avail t (m_lock p) \<Longrightarrow>
   Enqueue t a (h, p) = Inr ((), (h, p\<lparr>m_waitingQueue := m_waitingQueue p @ [a]\<rparr>))"
  by (simp add: Enqueue_def AutoLock_scope_def lock_simps)

lemma grow_loop_avail:
  assumes "lock_avail t (m_lock p)"
    and "\<And>a. base \<le> a \<Longrightarrow> a < base + k \<Longrightarrow> cells h a = Some OverlappedIO_new"
  shows "grow_loop t k base (h, p)
    = Inr (h, p\<lparr>m_waitingQueue := m_waitingQueue p @ [base..<base + k]\<rparr>)"
  using assms
proof (induction k arbitrary: base p)
  case 0
  then show ?case by simp
next
  case (Suc k)
  have "upd_cell Reset base h = Inr h"
    using Suc.prems(2)[of base] by (simp add: upd_cell_def fun_upd_idem)
  moreover have "[base..<base + Suc k] = base # [Suc base..<Suc base + k]"
    by (simp add: upt_conv_Cons)
  ultimately show ?case
    using Suc.prems Suc.IH[of "p\<lparr>m_waitingQueue := m_waitingQueue p @ [base]\<rparr>" "Suc base"]
    by (simp add: op_eqs)
qed

lemma GrowPoolSize_avail [op_eqs]:
  assumes "lock_avail t (m_lock p)" "0 < n"
  shows "GrowPoolSize t n (h, p) = Inr (True, (snd (new_array (nat n) h),
    p\<lparr>m_dataPool := m_dataPool p @ [next_cell h],
      m_waitingQueue := m_waitingQueue p @ [next_cell h..<next_cell h + nat n]\<rparr>))"
proof -
  let ?p = "p\<lparr>m_lock := lock_entered t (m_lock p), m_dataPool := m_dataPool p @ [next_cell h]\<rparr>"
  have "grow_loop t (nat n) (next_cell h) (snd (new_array (nat n) h), ?p)
    = Inr (snd (new_array (nat n) h), ?p\<lparr>m_waitingQueue := m_waitingQueue ?p @
        [next_cell h..<next_cell h + nat n]\<rparr>)"
    by (rule grow_loop_avail) (use assms in \<open>auto simp: new_array_def\<close>)
  with assms show ?thesis
    by (simp add: GrowPoolSize_def AutoLock_scope_def lock_simps new_array_def Let_def)
qed

lemma GrowPoolSize_nonpositive:
  "lock_avail t (m_lock p) \<Longrightarrow> n \<le> 0 \<Longrightarrow> GrowPoolSize t n (h, p) = Inr (False, (h, p))"
  by (simp add: GrowPoolSize_def AutoLock_scope_def lock_simps)

lemma Dequeue_waiting [op_eqs]:
  assumes "lock_avail t (m_lock p)" "m_waitingQueue p = a # rest"
  shows "Dequeue t (h, p) = Inr (a, (h, p\<lparr>m_waitingQueue := rest\<rparr>))"
  using assms by (simp add: Dequeue_def AutoLock_scope_def lock_simps)

lemma Dequeue_grow:
  assumes "lock_avail t (m_lock p)" "m_waitingQueue p = []"
  shows "Dequeue t (h, p) = Inr (next_cell h, (snd (new_array (nat g_default_io_pool_size) h),
    p\<lparr>m_dataPool := m_dataPool p @ [next_cell h],
      m_waitingQueue := [Suc (next_cell h)..<next_cell h + nat g_default_io_pool_size]\<rparr>))"
proof -
  let ?n = "nat g_default_io_pool_size"
  have pos: "0 < g_default_io_pool_size" by (simp add: g_default_io_pool_size_def)
  have "[next_cell h..<next_cell h + ?n] = next_cell h # [Suc (next_cell h)..<next_cell h + ?n]"
    using pos by (simp add: upt_conv_Cons)
  with assms pos show ?thesis
    by (simp add: Dequeue_def AutoLock_scope_def lock_simps op_eqs)
qed

section \<open>The pool contract\<close>

definition block_range :: "io_heap \<Rightarrow> ovl \<Rightarrow> ovl set" where
  "block_range h a = (case blocks h a of None \<Rightarrow> {} | Some n \<Rightarrow> {a..<a + n})"

definition pool_owned :: "pool_state \<Rightarrow> ovl set" where
  "pool_owned s = (\<Union>a\<in>set (m_dataPool (snd s)). block_range (fst s) a)"

definition heap_ok :: "io_heap \<Rightarrow> bool" where
  "heap_ok h \<longleftrightarrow> (\<forall>a n. blocks h a = Some n \<longrightarrow> a + n \<le> next_cell h \<and> (\<forall>b\<in>{a..<a + n}. cells h b \<noteq> None))
     \<and> (\<forall>a. cells h a \<noteq> None \<longrightarrow> a < next_cell h) \<and> (\<forall>a n. blocks h a = Some n \<longrightarrow> 0 < n)"

definition pool_ok :: "tid \<Rightarrow> pool_state \<Rightarrow> bool" where
  "pool_ok t s \<longleftrightarrow> lock_avail t (pool_lock s) \<and> heap_ok (fst s)
     \<and> distinct (m_waitingQueue (snd s)) \<and> set (m_waitingQueue (snd s)) \<subseteq> pool_owned s
     \<and> set (m_dataPool (snd s)) \<subseteq> dom (blocks (fst s))"

lemma heap_ok_empty [simp]: "heap_ok io_heap_empty"
  by (simp add: heap_ok_def io_heap_empty_def)

lemma pool_ok_new [simp]: "lock_avail t l \<Longrightarrow> pool_ok t (io_heap_empty, OverlappedIoPool_new l)"
  by (simp add: pool_ok_def OverlappedIoPool_new_def)

lemma heap_ok_blocks_fresh: "heap_ok h \<Longrightarrow> blocks h (next_cell h) = None"
  by (cases "blocks h (next_cell h)") (fastforce simp: heap_ok_def)+

lemma heap_ok_new_array [inv_intros]: "heap_ok h \<Longrightarrow> 0 < n \<Longrightarrow> heap_ok (snd (new_array n h))"
  unfolding heap_ok_def new_array_def by (auto simp: trans_le_add1 less_le_trans)

lemma heap_ok_upd_cell [inv_intros]: "heap_ok h \<Longrightarrow> upd_cell f a h = Inr h' \<Longrightarrow> heap_ok h'"
  by (auto simp: upd_cell_def heap_ok_def split: option.splits if_splits)

lemma pool_owned_below: "heap_ok (fst s) \<Longrightarrow> a \<in> pool_owned s \<Longrightarrow> a < next_cell (fst s)"
  by (fastforce simp: pool_owned_def block_range_def heap_ok_def split: option.splits)

lemma block_range_fresh [simp]: "heap_ok h \<Longrightarrow> block_range h (next_cell h) = {}"
  by (simp add: block_range_def heap_ok_blocks_fresh)

lemma block_range_new_array:
  "heap_ok h \<Longrightarrow> block_range (snd (new_array n h)) a
     = block_range h a \<union> (if a = next_cell h then {next_cell h..<next_cell h + n} else {})"
  by (simp add: block_range_def new_array_def heap_ok_blocks_fresh)

lemma pool_owned_grow:
  assumes "heap_ok h" "0 < n"
  shows "pool_owned (snd (new_array n h), p\<lparr>m_dataPool := m_dataPool p @ [next_cell h],
      m_waitingQueue := q\<rparr>) = pool_owned (h, p) \<union> {next_cell h..<next_cell h + n}"
  using assms(1) by (auto simp: pool_owned_def block_range_new_array split: if_splits)

interpretation io_pool: fifo_pool "\<lambda>s. m_waitingQueue (snd s)" pool_owned "pool_ok t" "Dequeue t" "Enqueue t"
  for t
proof (unfold_locales, goal_cases)
  case (1 s)
  then show ?case by (simp add: pool_ok_def)
next
  case (2 s x xs)
  then show ?case
    by (cases s) (auto simp: pool_ok_def op_eqs pool_owned_def)
next
  case (3 s)
  obtain h p where s: "s = (h, p)" by fastforce
  have n: "0 < nat g_default_io_pool_size" by (simp add: g_default_io_pool_size_def)
  have ok: "heap_ok h" "lock_avail t (m_lock p)" using 3 s by (simp_all add: pool_ok_def)
  have "next_cell h \<notin> pool_owned (h, p)"
    "pool_owned (h, p) \<inter> {next_cell h..<next_cell h + nat g_default_io_pool_size} = {}"
    using pool_owned_below[of "(h, p)"] ok(1) by fastforce+
  moreover have "{next_cell h..<next_cell h + nat g_default_io_pool_size}
    = insert (next_cell h) {Suc (next_cell h)..<next_cell h + nat g_default_io_pool_size}"
    using n by auto
  ultimately show ?case
    using 3 s ok n pool_owned_grow[OF ok(1) n] heap_ok_new_array[OF ok(1) n]
    by (auto simp: Dequeue_grow pool_ok_def new_array_def)
next
  case (4 s x)
  then show ?case
    by (cases s) (auto simp: pool_ok_def op_eqs pool_owned_def)
qed

end
