(* ===== verification/Win_Api.thy ===== *)
theory Win_Api
  imports Sig_Prelude
begin

text \<open>
  The operating system as the sources see it. None of this code is in the repository, so what a
  call returns is a parameter: a value of \<open>winsock\<close> gives, for every call, its result as a function
  of the calls made so far and of the arguments. The calls themselves are recorded, in order, in a
  list of \<open>os_call\<close>, which is what the outside world can observe of the program. Console output
  is recorded as \<open>printf_call\<close> with the fixed part of its text.
\<close>

type_synonym SOCKET = int

definition SOCKET_ERROR :: int where "SOCKET_ERROR = -1"
definition INVALID_SOCKET :: SOCKET where "INVALID_SOCKET = 4294967295"
definition ERROR_IO_PENDING :: int where "ERROR_IO_PENDING = 997"
definition AF_INET :: int where "AF_INET = 2"

record SOCKADDR_IN =
  sin_family :: int
  sin_port :: "16 word"
  s_addr :: "32 word"

definition zero_addr :: SOCKADDR_IN where
  "zero_addr = \<lparr>sin_family = 0, sin_port = 0, s_addr = 0\<rparr>"

text \<open>Host to network order on the little-endian targets of the project.\<close>

definition htons :: "16 word \<Rightarrow> 16 word" where
  "htons w = of_nat (unat w div 256 + 256 * (unat w mod 256))"

datatype os_call =
    WSAStartup_call
  | WSACleanup_call
  | socket_call
  | bind_call SOCKET SOCKADDR_IN
  | listen_call SOCKET
  | connect_call SOCKET SOCKADDR_IN
  | accept_call SOCKET
  | AcceptEx_call SOCKET SOCKET "nat option"  \<comment> \<open>listening and accepting socket, overlapped\<close>
  | getpeername_call SOCKET
  | closesocket_call SOCKET
  | send_call SOCKET "byte list"
  | WSASend_call SOCKET "byte list" nat       \<comment> \<open>socket, bytes, overlapped\<close>
  | WSARecv_call SOCKET int int nat           \<comment> \<open>socket, offset in the buffer, length, overlapped\<close>
  | WSAGetOverlappedResult_call SOCKET        \<comment> \<open>the overlapped argument is the address of a local\<close>
  | CreateIoCompletionPort_call int int int   \<comment> \<open>handle, port, key\<close>
  | beginthreadex_call int
  | CloseHandle_call int
  | GetAcceptExSockaddrs_call nat
  | start_thread_call
  | WaitForSingleObject_call
  | detach_thread_call
  | Sleep_call int                            \<comment> \<open>milliseconds\<close>
  | printf_call string

type_synonym trace = "os_call list"

record winsock =
  WSAStartup_ret :: "trace \<Rightarrow> int"
  socket_ret :: "trace \<Rightarrow> SOCKET"
  bind_ret :: "trace \<Rightarrow> SOCKET \<Rightarrow> SOCKADDR_IN \<Rightarrow> int"
  listen_ret :: "trace \<Rightarrow> SOCKET \<Rightarrow> int"
  accept_ret :: "trace \<Rightarrow> SOCKET \<Rightarrow> SOCKET \<times> SOCKADDR_IN"
  AcceptEx_ret :: "trace \<Rightarrow> SOCKET \<Rightarrow> SOCKET \<Rightarrow> bool \<times> int"  \<comment> \<open>result and last error\<close>
  getpeername_ret :: "trace \<Rightarrow> SOCKET \<Rightarrow> SOCKADDR_IN option"    \<comment> \<open>\<open>None\<close> on failure\<close>
  WSASend_ret :: "trace \<Rightarrow> SOCKET \<Rightarrow> byte list \<Rightarrow> int \<times> int"
  WSARecv_ret :: "trace \<Rightarrow> SOCKET \<Rightarrow> int \<Rightarrow> int \<times> int"
  CreateIoCompletionPort_ret :: "trace \<Rightarrow> int \<Rightarrow> int \<Rightarrow> int \<Rightarrow> int"  \<comment> \<open>\<open>0\<close> on failure\<close>
  beginthreadex_ret :: "trace \<Rightarrow> int"                             \<comment> \<open>\<open>0\<close> on failure\<close>

text \<open>An operating system in which every call succeeds; the concrete instance of the parameter in
  the worked examples.\<close>

definition calm_winsock :: winsock where
  "calm_winsock = \<lparr>WSAStartup_ret = (\<lambda>_. 0), socket_ret = (\<lambda>_. 100), bind_ret = (\<lambda>_ _ _. 0),
     listen_ret = (\<lambda>_ _. 0), accept_ret = (\<lambda>_ _. (200, zero_addr)),
     AcceptEx_ret = (\<lambda>_ _ _. (True, 0)), getpeername_ret = (\<lambda>_ _. None),
     WSASend_ret = (\<lambda>_ _ _. (0, 0)), WSARecv_ret = (\<lambda>_ _ _. (0, 0)),
     CreateIoCompletionPort_ret = (\<lambda>_ _ _ _. 1), beginthreadex_ret = (\<lambda>_. 1)\<rparr>"

text \<open>What a call that returns a status and sets the last error did: it failed outright unless it
  succeeded or is pending.\<close>

definition wsa_failed :: "int \<times> int \<Rightarrow> bool" where
  "wsa_failed r \<longleftrightarrow> fst r = SOCKET_ERROR \<and> snd r \<noteq> ERROR_IO_PENDING"

lemma calm_never_fails [simp]:
  "\<not> wsa_failed (WSASend_ret calm_winsock tr s bs)" "\<not> wsa_failed (WSARecv_ret calm_winsock tr s n)"
  by (simp_all add: wsa_failed_def calm_winsock_def SOCKET_ERROR_def)

end
