(* ===== verification/Tcp_Client.thy ===== *)
theory Tcp_Client
  imports Pulled_Buffer Packet_Format Io_Pool Win_Api
begin

text \<open>
  \<^verbatim>\<open>IocpServer/src/socket/TcpClient.h\<close> and the part of \<^verbatim>\<open>TcpClient.cpp\<close> that works on one
  session: construction, binding, the send path (write, flush, asynchronous send, completion) and
  the asynchronous receive. The state of such an operation is the session object, the heap of
  overlapped structures (the calls reset them) and the trace of system calls. The send path is
  guarded by the session's own lock.
\<close>

section \<open>The class\<close>

datatype IO_STATE = IO_NOT_CONNECTED | IO_CONNECTED | IO_PENDING

record TcpClient =
  m_Socket :: SOCKET
  m_SocketAddr :: SOCKADDR_IN
  m_IsSetupAddr :: bool
  m_isClosing :: bool
  m_pRecvOverlapped :: "ovl option"
  m_RecvIoState :: IO_STATE
  m_pRecvBuffer :: "PulledBuffer option"
  m_RecvBytes :: int
  m_pSendOverlapped :: "ovl option"
  m_SendIoState :: IO_STATE
  m_pSendBuffer :: "PulledBuffer option"
  m_SendBytes :: int
  m_pSendLock :: "CRITICAL_SECTION option"

type_synonym cl_state = "TcpClient \<times> io_heap \<times> trace"

definition deref :: "'a option \<Rightarrow> 'a res" where
  "deref p = (case p of None \<Rightarrow> Inl NullDeref | Some x \<Rightarrow> Inr x)"

abbreviation cl_lock :: "cl_state \<Rightarrow> CRITICAL_SECTION option" where
  "cl_lock s \<equiv> m_pSendLock (fst s)"

abbreviation cl_set_lock :: "CRITICAL_SECTION option \<Rightarrow> cl_state \<Rightarrow> cl_state" where
  "cl_set_lock l s \<equiv> ((fst s)\<lparr>m_pSendLock := l\<rparr>, snd s)"

subsection \<open>Construction and destruction\<close>

definition RemoveBuffers :: "TcpClient \<Rightarrow> TcpClient" where
  "RemoveBuffers c = c\<lparr>m_pRecvBuffer := None, m_pSendBuffer := None\<rparr>"

definition CreateBuffers :: "TcpClient \<Rightarrow> bool \<times> TcpClient" where
  "CreateBuffers c =
     (let c0 = (if m_pRecvBuffer c \<noteq> None \<or> m_pSendBuffer c \<noteq> None then RemoveBuffers c else c);
          c1 = c0\<lparr>m_pRecvBuffer := CreateBuffer PULLED_BUFFER\<rparr>
      in if m_pRecvBuffer c1 = None then (False, c1)
         else let c2 = c1\<lparr>m_pSendBuffer := CreateBuffer PULLED_BUFFER\<rparr>
              in if m_pSendBuffer c2 = None then (False, c2) else (True, c2))"

definition TcpClient_new :: TcpClient where
  "TcpClient_new = snd (CreateBuffers
     \<lparr>m_Socket = 0, m_SocketAddr = zero_addr, m_IsSetupAddr = False, m_isClosing = False,
      m_pRecvOverlapped = None, m_RecvIoState = IO_NOT_CONNECTED, m_pRecvBuffer = None,
      m_RecvBytes = 0, m_pSendOverlapped = None, m_SendIoState = IO_NOT_CONNECTED,
      m_pSendBuffer = None, m_SendBytes = 0, m_pSendLock = Some CriticalSectionLock_new\<rparr>)"

definition TcpClient_delete :: "TcpClient \<Rightarrow> TcpClient" where
  "TcpClient_delete c = (RemoveBuffers c)\<lparr>m_pSendLock := None\<rparr>"

subsection \<open>Binding\<close>

definition Initialize_void :: "winsock \<Rightarrow> TcpClient \<times> trace \<Rightarrow> int \<times> TcpClient \<times> trace" where
  "Initialize_void os = (\<lambda>(c, tr).
     (0, c\<lparr>m_Socket := socket_ret os tr, m_RecvIoState := IO_CONNECTED\<rparr>, tr @ [socket_call]))"

definition Initialize ::
  "winsock \<Rightarrow> SOCKET \<Rightarrow> SOCKADDR_IN \<Rightarrow> TcpClient \<times> trace \<Rightarrow> int \<times> TcpClient \<times> trace" where
  "Initialize os socket addr = (\<lambda>(c, tr).
     let c1 = c\<lparr>m_Socket := socket, m_SocketAddr := addr\<rparr>;
         c2 = (case getpeername_ret os tr (m_Socket c1) of None \<Rightarrow> c1
               | Some peer \<Rightarrow> c1\<lparr>m_SocketAddr := peer\<rparr>)
     in (0, c2\<lparr>m_IsSetupAddr := True, m_RecvIoState := IO_CONNECTED\<rparr>,
         tr @ [getpeername_call (m_Socket c1)]))"

definition BindRecvOverlapped :: "ovl option \<Rightarrow> TcpClient \<Rightarrow> TcpClient" where
  "BindRecvOverlapped o' c = c\<lparr>m_pRecvOverlapped := o'\<rparr>"

definition BindSendOverlapped :: "ovl option \<Rightarrow> TcpClient \<Rightarrow> TcpClient" where
  "BindSendOverlapped o' c = c\<lparr>m_pSendOverlapped := o'\<rparr>"

subsection \<open>The send path\<close>

definition SendAsync :: "winsock \<Rightarrow> tid \<Rightarrow> cl_state \<Rightarrow> (int \<times> cl_state) res" where
  "SendAsync os t = AutoLock_scope t cl_lock cl_set_lock (\<lambda>(c, h, tr).
     bindE (deref (m_pSendBuffer c)) (\<lambda>sb.
     if GetLength sb > 0 then
       (if m_SendIoState c = IO_PENDING then Inr (0, (c, h, tr))
        else
          let c1 = c\<lparr>m_SendIoState := IO_PENDING\<rparr>;
              wsaBuf = mem_read (m_Buffer sb) (nat (GetPtr sb)) (nat (GetLength sb))
          in bindE (deref (m_pSendOverlapped c1)) (\<lambda>ov.
             bindE (upd_cell Reset ov h) (\<lambda>h1.
             let result = WSASend_ret os tr (m_Socket c1) wsaBuf;
                 tr1 = tr @ [WSASend_call (m_Socket c1) wsaBuf ov]
             in if wsa_failed result then Inr (-1, (c1, h1, tr1)) else Inr (0, (c1, h1, tr1)))))
     else Inr (0, (c\<lparr>m_SendIoState := IO_CONNECTED\<rparr>, h, tr))))"

definition FlushSendBuffer :: "winsock \<Rightarrow> tid \<Rightarrow> cl_state \<Rightarrow> (int \<times> cl_state) res" where
  "FlushSendBuffer os t = AutoLock_scope t cl_lock cl_set_lock (\<lambda>(c, h, tr).
     bindE (deref (m_pSendBuffer c)) (\<lambda>sb.
     if GetLength sb > 0 then SendAsync os t (c, h, tr) else Inr (0, (c, h, tr))))"

definition EnqueueSendBuffer ::
  "tid \<Rightarrow> byte list \<Rightarrow> int \<Rightarrow> cl_state \<Rightarrow> (int \<times> cl_state) res" where
  "EnqueueSendBuffer t buffer sendBytes = AutoLock_scope t cl_lock cl_set_lock (\<lambda>(c, h, tr).
     bindE (deref (m_pSendBuffer c)) (\<lambda>sb.
     bindE (Write buffer sendBytes sb) (\<lambda>(writtenBytes, sb').
     let s = (c\<lparr>m_pSendBuffer := Some sb'\<rparr>, h, tr)
     in if writtenBytes \<noteq> sendBytes then Inr (-1, s) else Inr (writtenBytes, s))))"

text \<open>The packet is the memory its pointer refers to; \<open>None\<close> is the null pointer.\<close>

definition WriteSendBuffer ::
  "tid \<Rightarrow> byte list option \<Rightarrow> cl_state \<Rightarrow> (int \<times> cl_state) res" where
  "WriteSendBuffer t packet s = (case packet of None \<Rightarrow> Inl AssertFailure
     | Some copy_src \<Rightarrow> bindE (packet_dataSize copy_src) (\<lambda>n.
         let copy_length = i32 (int (unat n) + sizeof_PacketHeader)
         in EnqueueSendBuffer t copy_src copy_length s))"

definition OnSend_user :: "int \<Rightarrow> TcpClient \<Rightarrow> TcpClient" where
  "OnSend_user errorCode c = c"

definition OnSend :: "tid \<Rightarrow> int \<Rightarrow> cl_state \<Rightarrow> (unit \<times> cl_state) res" where
  "OnSend t transferred = AutoLock_scope t cl_lock cl_set_lock (\<lambda>(c, h, tr).
     bindE (deref (m_pSendBuffer c)) (\<lambda>sb.
     bindE (ThrowAway (i32 transferred) sb) (\<lambda>(_, sb').
     let c1 = c\<lparr>m_pSendBuffer := Some sb', m_SendIoState := IO_CONNECTED\<rparr>
     in Inr ((), (OnSend_user 0 c1, h, tr)))))"

subsection \<open>Receiving, closing, validity\<close>

definition RecvAsync :: "winsock \<Rightarrow> cl_state \<Rightarrow> (int \<times> cl_state) res" where
  "RecvAsync os = (\<lambda>(c, h, tr).
     let tr0 = (if m_RecvIoState c \<noteq> IO_CONNECTED
                then tr @ [printf_call ''RecvAsync.m_RecvIoState is not IO_CONNECTED''] else tr);
         c1 = c\<lparr>m_RecvIoState := IO_PENDING\<rparr>
     in bindE (deref (m_pRecvBuffer c1)) (\<lambda>rb.
        bindE (deref (m_pRecvOverlapped c1)) (\<lambda>ov.
        bindE (upd_cell Reset ov h) (\<lambda>h1.
        let result = WSARecv_ret os tr0 (m_Socket c1) (GetEmptyLength rb);
            tr1 = tr0 @ [WSARecv_call (m_Socket c1) (GetEmptyPtr rb) (GetEmptyLength rb) ov]
        in if wsa_failed result then Inr (-1, (c1, h1, tr1)) else Inr (0, (c1, h1, tr1))))))"

definition Close :: "bool \<Rightarrow> cl_state \<Rightarrow> (unit \<times> cl_state) res" where
  "Close isForce = (\<lambda>(c, h, tr).
     Inr ((), (c\<lparr>m_isClosing := True\<rparr>, h, tr @ [closesocket_call (m_Socket c)])))"

definition IsValid :: "tid \<Rightarrow> cl_state \<Rightarrow> (bool \<times> cl_state) res" where
  "IsValid t = AutoLock_scope t cl_lock cl_set_lock (\<lambda>(c, h, tr).
     if m_isClosing c then Inr (False, (c, h, tr)) else Inr (True, (c, h, tr)))"

subsection \<open>Accessors\<close>

definition GetSocket :: "TcpClient \<Rightarrow> SOCKET" where
  "GetSocket c = m_Socket c"

definition GetRecvBuffer :: "TcpClient \<Rightarrow> PulledBuffer option" where
  "GetRecvBuffer c = m_pRecvBuffer c"

definition GetRecvIoState :: "TcpClient \<Rightarrow> IO_STATE" where
  "GetRecvIoState c = m_RecvIoState c"

definition GetSendIoState :: "TcpClient \<Rightarrow> IO_STATE" where
  "GetSendIoState c = m_SendIoState c"

definition GetRecvOverlapped :: "TcpClient \<Rightarrow> ovl option" where
  "GetRecvOverlapped c = m_pRecvOverlapped c"

definition GetSendOverlapped :: "TcpClient \<Rightarrow> ovl option" where
  "GetSendOverlapped c = m_pSendOverlapped c"

lemmas client_accessors =
  GetSocket_def GetRecvBuffer_def GetRecvIoState_def GetSendIoState_def
  GetRecvOverlapped_def GetSendOverlapped_def

section \<open>Closed forms on a well-formed session\<close>

text \<open>\<open>client_ok t c\<close>: both buffers exist and are within bounds, and thread \<open>t\<close> can take the lock.\<close>

definition recv_bytes :: "TcpClient \<Rightarrow> byte list" where
  "recv_bytes c = (case m_pRecvBuffer c of None \<Rightarrow> [] | Some b \<Rightarrow> contents b)"

definition send_bytes :: "TcpClient \<Rightarrow> byte list" where
  "send_bytes c = (case m_pSendBuffer c of None \<Rightarrow> [] | Some b \<Rightarrow> contents b)"

definition client_ok :: "tid \<Rightarrow> TcpClient \<Rightarrow> bool" where
  "client_ok t c \<longleftrightarrow> (case m_pRecvBuffer c of None \<Rightarrow> False | Some b \<Rightarrow> buf_ok b)
     \<and> (case m_pSendBuffer c of None \<Rightarrow> False | Some b \<Rightarrow> buf_ok b)
     \<and> lock_avail t (m_pSendLock c)"

interpretation client_lk: lock_field cl_lock cl_set_lock
  by unfold_locales auto

lemma client_okE:
  assumes "client_ok t c"
  obtains rb sb where "m_pRecvBuffer c = Some rb" "buf_ok rb" "m_pSendBuffer c = Some sb" "buf_ok sb"
    "lock_avail t (m_pSendLock c)" "recv_bytes c = contents rb" "send_bytes c = contents sb"
  using assms by (auto simp: client_ok_def recv_bytes_def send_bytes_def split: option.splits)

lemma client_ok_new [simp]: "client_ok t TcpClient_new"
  by (simp add: client_ok_def TcpClient_new_def CreateBuffers_def CreateBuffer_def)

lemma TcpClient_new_fields [simp]:
  "m_isClosing TcpClient_new = False" "m_SendIoState TcpClient_new = IO_NOT_CONNECTED"
  "recv_bytes TcpClient_new = []" "send_bytes TcpClient_new = []" "m_RecvBytes TcpClient_new = 0"
  by (simp_all add: TcpClient_new_def CreateBuffers_def CreateBuffer_def recv_bytes_def send_bytes_def)

lemma deref_simps [simp]: "deref (Some x) = Inr x" "deref None = Inl NullDeref"
  by (simp_all add: deref_def)

lemma IsValid_avail [op_eqs]:
  "lock_avail t (m_pSendLock c) \<Longrightarrow> IsValid t (c, h, tr) = Inr (\<not> m_isClosing c, (c, h, tr))"
  by (simp add: IsValid_def AutoLock_scope_def lock_simps)

lemma EnqueueSendBuffer_avail:
  assumes "lock_avail t (m_pSendLock c)" "m_pSendBuffer c = Some sb" "Write xs n sb = Inr (k, sb')"
  shows "EnqueueSendBuffer t xs n (c, h, tr)
    = Inr (if k \<noteq> n then -1 else k, (c\<lparr>m_pSendBuffer := Some sb'\<rparr>, h, tr))"
  using assms by (auto simp: EnqueueSendBuffer_def AutoLock_scope_def lock_simps Let_def)

lemma SendAsync_empty:
  assumes "lock_avail t (m_pSendLock c)" "m_pSendBuffer c = Some sb" "GetLength sb \<le> 0"
  shows "SendAsync os t (c, h, tr) = Inr (0, (c\<lparr>m_SendIoState := IO_CONNECTED\<rparr>, h, tr))"
  using assms by (simp add: SendAsync_def AutoLock_scope_def lock_simps)

lemma SendAsync_pending:
  assumes "lock_avail t (m_pSendLock c)" "m_pSendBuffer c = Some sb" "m_SendIoState c = IO_PENDING"
    and "GetLength sb > 0"
  shows "SendAsync os t (c, h, tr) = Inr (0, (c, h, tr))"
  using assms by (simp add: SendAsync_def AutoLock_scope_def lock_simps)

definition send_posted :: "winsock \<Rightarrow> TcpClient \<Rightarrow> byte list \<Rightarrow> ovl \<Rightarrow> io_heap \<Rightarrow> trace \<Rightarrow> int \<times> cl_state" where
  "send_posted os c bs ov h tr =
     (if wsa_failed (WSASend_ret os tr (m_Socket c) bs) then -1 else 0,
      (c\<lparr>m_SendIoState := IO_PENDING\<rparr>, h, tr @ [WSASend_call (m_Socket c) bs ov]))"

lemma SendAsync_post:
  assumes "lock_avail t (m_pSendLock c)" "m_pSendBuffer c = Some sb" "m_SendIoState c \<noteq> IO_PENDING"
    and "GetLength sb > 0" "m_pSendOverlapped c = Some ov" "upd_cell Reset ov h = Inr h'"
  shows "SendAsync os t (c, h, tr) = Inr (send_posted os c (contents sb) ov h' tr)"
  using assms
  by (simp add: SendAsync_def AutoLock_scope_def lock_simps send_posted_def GetPtr_def GetLength_def
      mem_read_def contents_def Let_def)

lemma FlushSendBuffer_eq:
  assumes "lock_avail t (m_pSendLock c)" "m_pSendBuffer c = Some sb"
  shows "FlushSendBuffer os t (c, h, tr)
    = (if GetLength sb > 0 then
         (if m_SendIoState c = IO_PENDING then Inr (0, (c, h, tr))
          else bindE (deref (m_pSendOverlapped c)) (\<lambda>ov. bindE (upd_cell Reset ov h) (\<lambda>h'.
            Inr (send_posted os c (contents sb) ov h' tr))))
       else Inr (0, (c, h, tr)))"
proof (cases "GetLength sb > 0 \<and> m_SendIoState c \<noteq> IO_PENDING")
  case False
  with assms show ?thesis
    by (auto simp: FlushSendBuffer_def AutoLock_scope_def lock_simps SendAsync_pending)
next
  case True
  let ?c = "c\<lparr>m_pSendLock := lock_entered t (m_pSendLock c)\<rparr>"
  show ?thesis
  proof (cases "m_pSendOverlapped c")
    case None
    with True assms show ?thesis
      by (simp add: FlushSendBuffer_def AutoLock_scope_def lock_simps SendAsync_def)
  next
    case (Some ov)
    show ?thesis
    proof (cases "upd_cell Reset ov h")
      case (Inl e)
      with True assms Some show ?thesis
        by (simp add: FlushSendBuffer_def AutoLock_scope_def lock_simps SendAsync_def Let_def)
    next
      case (Inr h')
      with True assms Some show ?thesis
        using SendAsync_post[of t ?c sb ov h h' os tr]
        by (simp add: FlushSendBuffer_def AutoLock_scope_def lock_simps send_posted_def)
    qed
  qed
qed

lemma OnSend_avail:
  assumes "lock_avail t (m_pSendLock c)" "m_pSendBuffer c = Some sb" "ThrowAway (i32 n) sb = Inr (k, sb')"
  shows "OnSend t n (c, h, tr)
    = Inr ((), (c\<lparr>m_pSendBuffer := Some sb', m_SendIoState := IO_CONNECTED\<rparr>, h, tr))"
  using assms by (simp add: OnSend_def AutoLock_scope_def lock_simps OnSend_user_def)

end
