(* ===== verification/Tcp_Send.thy ===== *)
theory Tcp_Send
  imports Tcp_Client "HOL-Library.Sublist"
begin

text \<open>
  The send path of a session (\<^verbatim>\<open>TcpClient.cpp\<close>: \<^verbatim>\<open>WriteSendBuffer\<close>, \<^verbatim>\<open>FlushSendBuffer\<close>,
  \<^verbatim>\<open>SendAsync\<close>, \<^verbatim>\<open>OnSend\<close>) as a system: packets are written, the buffer is flushed, and the kernel
  completes posted sends, in any order. The invariant ties the bytes that left the process to the
  bytes that were accepted.
\<close>

section \<open>Effect of each operation on the bytes to send\<close>

lemma WriteSendBuffer_fits:
  assumes "client_ok t c" "packet_dataSize pkt = Inr n" "unat n + 4 \<le> length pkt"
    and "length (send_bytes c) + unat n + 4 \<le> nat BUFFER_SIZE"
  shows "\<exists>sb. WriteSendBuffer t (Some pkt) (c, h, tr)
      = Inr (int (unat n) + 4, (c\<lparr>m_pSendBuffer := Some sb\<rparr>, h, tr))
    \<and> buf_ok sb \<and> contents sb = send_bytes c @ take (unat n + 4) pkt"
proof -
  obtain sb where sb: "m_pSendBuffer c = Some sb" "buf_ok sb" "lock_avail t (m_pSendLock c)"
    "send_bytes c = contents sb"
    using client_okE[OF assms(1)] by metis
  obtain k where k_def: "k = unat n + 4" and k: "uint n + 4 = int k" "i32 (int k) = int k" "k < 65540"
    by (rule copy_length)
  have "nat (m_Length sb) + k \<le> nat BUFFER_SIZE" "k \<le> length pkt"
    using assms(3,4) sb(2,4) by (simp_all add: length_contents k_def)
  then have "m_Length sb + int k \<le> BUFFER_SIZE" "k \<le> length pkt"
    using buf_okD[OF sb(2)] by simp_all
  then obtain sb' where "Write pkt (int k) sb = Inr (int k, sb')" "buf_ok sb'"
    "contents sb' = contents sb @ take k pkt"
    using Write_ok[OF sb(2), of "int k" pkt] by auto
  with assms(2) sb k show ?thesis
    by (intro exI[of _ sb']) (simp add: WriteSendBuffer_def sizeof_PacketHeader_def
        EnqueueSendBuffer_avail Let_def k_def [symmetric])
qed

lemma WriteSendBuffer_full:
  assumes "client_ok t c" "packet_dataSize pkt = Inr n"
    and "nat BUFFER_SIZE < length (send_bytes c) + unat n + 4"
  shows "WriteSendBuffer t (Some pkt) (c, h, tr) = Inr (-1, (c, h, tr))"
proof -
  obtain sb where sb: "m_pSendBuffer c = Some sb" "buf_ok sb" "lock_avail t (m_pSendLock c)"
    "send_bytes c = contents sb"
    using client_okE[OF assms(1)] by metis
  obtain k where k_def: "k = unat n + 4" and k: "uint n + 4 = int k" "i32 (int k) = int k" "k < 65540"
    by (rule copy_length)
  have "nat BUFFER_SIZE < nat (m_Length sb) + k"
    using assms(3) sb(2,4) by (simp add: length_contents k_def)
  then have "Write pkt (int k) sb = Inr (-1, sb)"
    using buf_okD[OF sb(2)] k(3) by (intro Write_full sb(2)) simp_all
  with assms(2) sb(1,3) k show ?thesis
    by (simp add: WriteSendBuffer_def sizeof_PacketHeader_def EnqueueSendBuffer_avail)
qed

lemma FlushSendBuffer_client_ok:
  assumes "client_ok t c"
  shows "FlushSendBuffer os t (c, h, tr)
    = (if send_bytes c \<noteq> [] \<and> m_SendIoState c \<noteq> IO_PENDING
       then bindE (deref (m_pSendOverlapped c)) (\<lambda>ov. bindE (upd_cell Reset ov h) (\<lambda>h'.
            Inr (send_posted os c (send_bytes c) ov h' tr)))
       else Inr (0, (c, h, tr)))"
proof -
  obtain sb where sb: "m_pSendBuffer c = Some sb" "buf_ok sb" "lock_avail t (m_pSendLock c)"
    "send_bytes c = contents sb"
    using client_okE[OF assms] by metis
  then show ?thesis
    by (simp add: FlushSendBuffer_eq GetLength_contents)
qed

lemma OnSend_client_ok:
  assumes "client_ok t c" "n \<le> length (send_bytes c)"
  shows "\<exists>sb. OnSend t (int n) (c, h, tr)
      = Inr ((), (c\<lparr>m_pSendBuffer := Some sb, m_SendIoState := IO_CONNECTED\<rparr>, h, tr))
    \<and> buf_ok sb \<and> contents sb = drop n (send_bytes c)"
proof -
  obtain sb where sb: "m_pSendBuffer c = Some sb" "buf_ok sb" "lock_avail t (m_pSendLock c)"
    "send_bytes c = contents sb"
    using client_okE[OF assms(1)] by metis
  have n: "int n \<le> m_Length sb" "int n \<le> BUFFER_SIZE"
    using assms(2) sb buf_okD[OF sb(2)] by (simp_all add: length_contents)
  then obtain sb' where "ThrowAway (int n) sb = Inr (int n, sb')" "buf_ok sb'"
    "contents sb' = drop n (contents sb)"
    using ThrowAway_ok[OF sb(2), of "int n"] by auto
  moreover have "i32 (int n) = int n" using n(2) by (simp add: BUFFER_SIZE_val)
  ultimately show ?thesis
    using sb by (auto intro!: OnSend_avail)
qed

lemma OnSend_too_much:
  assumes "client_ok t c" "length (send_bytes c) < n" "n < 2147483648"
  shows "OnSend t (int n) (c, h, tr) = Inl Terminate"
proof -
  obtain sb where sb: "m_pSendBuffer c = Some sb" "buf_ok sb" "lock_avail t (m_pSendLock c)"
    "send_bytes c = contents sb"
    using client_okE[OF assms(1)] by metis
  with assms(2,3) show ?thesis
    by (auto simp: OnSend_def AutoLock_scope_def lock_simps ThrowAway_def length_contents)
qed

section \<open>The send path as a system\<close>

record send_sys =
  sess :: cl_state
  accepted :: "byte list"   \<comment> \<open>bytes \<open>WriteSendBuffer\<close> took, in order\<close>
  on_wire :: "byte list"    \<comment> \<open>bytes of completed sends, in order\<close>
  posted :: "byte list"     \<comment> \<open>bytes of the send the kernel is working on\<close>

definition newly_posted :: "trace \<Rightarrow> trace \<Rightarrow> byte list option" where
  "newly_posted tr tr' = (case drop (length tr) tr' of [WSASend_call _ bs _] \<Rightarrow> Some bs | _ \<Rightarrow> None)"

inductive send_step :: "winsock \<Rightarrow> tid \<Rightarrow> send_sys \<Rightarrow> send_sys \<Rightarrow> bool" for os t where
  accept: "\<lbrakk>WriteSendBuffer t (Some pkt) (sess S) = Inr (r, s')\<rbrakk> \<Longrightarrow>
     send_step os t S (S\<lparr>sess := s',
       accepted := accepted S @ (if r < 0 then [] else take (nat r) pkt)\<rparr>)"
| flush: "\<lbrakk>FlushSendBuffer os t (sess S) = Inr (r, s')\<rbrakk> \<Longrightarrow>
     send_step os t S (S\<lparr>sess := s',
       posted := (case newly_posted (snd (snd (sess S))) (snd (snd s')) of
                    None \<Rightarrow> posted S | Some bs \<Rightarrow> if r = 0 then bs else [])\<rparr>)"
| complete: "\<lbrakk>m_SendIoState (fst (sess S)) = IO_PENDING; 0 < n; n \<le> length (posted S);
     OnSend t (int n) (sess S) = Inr ((), s')\<rbrakk> \<Longrightarrow>
     send_step os t S (S\<lparr>sess := s', on_wire := on_wire S @ take n (posted S), posted := []\<rparr>)"

inductive send_reach :: "winsock \<Rightarrow> tid \<Rightarrow> send_sys \<Rightarrow> send_sys \<Rightarrow> bool" for os t S0 where
  none: "send_reach os t S0 S0"
| more: "send_reach os t S0 S \<Longrightarrow> send_step os t S S' \<Longrightarrow> send_reach os t S0 S'"

inductive_cases send_stepE: "send_step os t S S'"

definition send_start :: "TcpClient \<Rightarrow> io_heap \<Rightarrow> trace \<Rightarrow> send_sys" where
  "send_start c h tr = \<lparr>sess = (c, h, tr), accepted = [], on_wire = [], posted = []\<rparr>"

definition send_inv :: "tid \<Rightarrow> send_sys \<Rightarrow> bool" where
  "send_inv t S \<longleftrightarrow> client_ok t (fst (sess S))
     \<and> on_wire S @ send_bytes (fst (sess S)) = accepted S
     \<and> prefix (posted S) (send_bytes (fst (sess S)))
     \<and> (posted S \<noteq> [] \<longrightarrow> m_SendIoState (fst (sess S)) = IO_PENDING)"

lemma client_ok_upd_send:
  "client_ok t c \<Longrightarrow> buf_ok sb \<Longrightarrow> client_ok t (c\<lparr>m_pSendBuffer := Some sb\<rparr>)"
  "client_ok t c \<Longrightarrow> client_ok t (c\<lparr>m_SendIoState := st\<rparr>)"
  "client_ok t c \<Longrightarrow> buf_ok sb \<Longrightarrow> client_ok t (c\<lparr>m_pSendBuffer := Some sb, m_SendIoState := st\<rparr>)"
  by (simp_all add: client_ok_def)

lemma send_bytes_upd [simp]:
  "send_bytes (c\<lparr>m_pSendBuffer := Some sb\<rparr>) = contents sb"
  "send_bytes (c\<lparr>m_SendIoState := st\<rparr>) = send_bytes c"
  "send_bytes (c\<lparr>m_pSendBuffer := Some sb, m_SendIoState := st\<rparr>) = contents sb"
  by (simp_all add: send_bytes_def)

text \<open>What \<open>WriteSendBuffer\<close> can do to a well-formed session, whatever the packet memory.\<close>

lemma WriteSendBuffer_cases:
  assumes "client_ok t c" "WriteSendBuffer t (Some pkt) (c, h, tr) = Inr (r, s')"
  shows "(r = -1 \<and> s' = (c, h, tr)) \<or>
    (\<exists>n sb. r = int n \<and> n \<le> length pkt \<and> s' = (c\<lparr>m_pSendBuffer := Some sb\<rparr>, h, tr) \<and> buf_ok sb
      \<and> contents sb = send_bytes c @ take n pkt)"
proof -
  obtain n where n: "packet_dataSize pkt = Inr n"
    using assms(2) by (auto simp: WriteSendBuffer_def bindE_eq_Inr)
  show ?thesis
  proof (cases "nat BUFFER_SIZE < length (send_bytes c) + unat n + 4")
    case True
    with WriteSendBuffer_full[OF assms(1) n True] assms(2) show ?thesis by simp
  next
    case False
    show ?thesis
    proof (cases "unat n + 4 \<le> length pkt")
      case True
      obtain sb where "WriteSendBuffer t (Some pkt) (c, h, tr)
          = Inr (int (unat n) + 4, (c\<lparr>m_pSendBuffer := Some sb\<rparr>, h, tr))"
        "buf_ok sb" "contents sb = send_bytes c @ take (unat n + 4) pkt"
        using WriteSendBuffer_fits[OF assms(1) n True] False by auto
      with assms(2) True show ?thesis
        by (intro disjI2 exI[of _ "unat n + 4"] exI[of _ sb]) auto
    next
      case short: False
      obtain sb where sb: "m_pSendBuffer c = Some sb" "buf_ok sb" "lock_avail t (m_pSendLock c)"
        "send_bytes c = contents sb"
        using client_okE[OF assms(1)] by metis
      obtain k where k_def: "k = unat n + 4"
        and k: "uint n + 4 = int k" "i32 (int k) = int k" "k < 65540"
        by (rule copy_length)
      have "nat (m_Length sb) + k \<le> nat BUFFER_SIZE" "length pkt < k"
        using False short sb(2,4) by (simp_all add: length_contents k_def)
      then have "Write pkt (int k) sb = Inl OutOfBounds"
        using buf_okD[OF sb(2)] k(3) by (simp add: Write_def memcpy_s_def BUFFER_SIZE_val)
      then have "WriteSendBuffer t (Some pkt) (c, h, tr) = Inl OutOfBounds"
        using n sb k by (simp add: WriteSendBuffer_def EnqueueSendBuffer_def AutoLock_scope_def
            lock_simps sizeof_PacketHeader_def)
      with assms(2) show ?thesis by simp
    qed
  qed
qed

lemma FlushSendBuffer_cases:
  assumes "client_ok t c" "FlushSendBuffer os t (c, h, tr) = Inr (r, s')"
  shows "(r = 0 \<and> s' = (c, h, tr) \<and> (send_bytes c = [] \<or> m_SendIoState c = IO_PENDING)) \<or>
    (\<exists>ov h'. send_bytes c \<noteq> [] \<and> m_SendIoState c \<noteq> IO_PENDING \<and> m_pSendOverlapped c = Some ov
      \<and> upd_cell Reset ov h = Inr h' \<and> (r, s') = send_posted os c (send_bytes c) ov h' tr)"
  using assms(2) unfolding FlushSendBuffer_client_ok[OF assms(1)]
  by (auto simp: bindE_eq_Inr deref_def split: if_splits option.splits)

lemma send_inv_step:
  assumes "send_inv t S" "send_step os t S S'"
  shows "send_inv t S'"
proof -
  obtain c h tr where s: "sess S = (c, h, tr)" by (cases "sess S") auto
  have ok: "client_ok t c" using assms(1) s by (simp add: send_inv_def)
  show ?thesis
    using assms(2)
  proof (cases rule: send_step.cases)
    case (accept pkt r s')
    then show ?thesis
      using WriteSendBuffer_cases[OF ok, of pkt h tr r s'] assms(1) s
      by (auto simp: send_inv_def client_ok_upd_send prefix_append)
  next
    case (flush r s')
    then show ?thesis
      using FlushSendBuffer_cases[OF ok, of os h tr r s'] assms(1) s
      by (auto simp: send_inv_def client_ok_upd_send send_posted_def newly_posted_def
          split: if_splits)
  next
    case (complete n s')
    then have n: "n \<le> length (send_bytes c)"
      using assms(1) s by (auto simp: send_inv_def dest: prefix_length_le)
    obtain sb where sb: "OnSend t (int n) (c, h, tr)
        = Inr ((), (c\<lparr>m_pSendBuffer := Some sb, m_SendIoState := IO_CONNECTED\<rparr>, h, tr))"
      "buf_ok sb" "contents sb = drop n (send_bytes c)"
      using OnSend_client_ok[OF ok n] by blast
    have "take n (posted S) = take n (send_bytes c)"
      using complete(4) assms(1) s by (auto simp: send_inv_def prefix_def)
    with complete sb assms(1) s ok show ?thesis
      by (auto simp: send_inv_def client_ok_upd_send)
  qed
qed

lemma send_inv_reach: "send_reach os t S0 S \<Longrightarrow> send_inv t S0 \<Longrightarrow> send_inv t S"
  by (induction rule: send_reach.induct) (auto intro: send_inv_step)

lemma send_inv_start: "client_ok t c \<Longrightarrow> send_bytes c = [] \<Longrightarrow> send_inv t (send_start c h tr)"
  by (simp add: send_inv_def send_start_def)

end
