(* ===== verification/Session_Manager.thy ===== *)
theory Session_Manager
  imports Auto_Lock
begin

text \<open>
  \<^verbatim>\<open>IocpServer/src/socket/TcpSessionManager.h\<close>: the singleton that lists the connected sessions.
  The element type stands for \<^verbatim>\<open>shared_ptr<TcpClient>\<close>; the list keeps its order because
  \<^verbatim>\<open>ProcessPacket\<close> walks it. The macro \<^verbatim>\<open>SCOPED_LOCK(tag)\<close> declares a function-local static lock
  with the fixed name \<^verbatim>\<open>lock_tagName\<close> (the parameter is not pasted into it), so each function
  that uses it has a lock of its own: the record holds one lock for each of the two.

  The locale \<open>session_registry\<close> is the contract the rest of the server relies on.
\<close>

section \<open>The class\<close>

record 'p TcpSessionManager =
  m_clients :: "'p list"
  AddTcpClient_lock :: CRITICAL_SECTION
  RemoveTcpClient_lock :: CRITICAL_SECTION

definition TcpSessionManager_new :: "'p TcpSessionManager" where
  "TcpSessionManager_new = \<lparr>m_clients = [], AddTcpClient_lock = CriticalSectionLock_new,
     RemoveTcpClient_lock = CriticalSectionLock_new\<rparr>"

definition SCOPED_LOCK_Add ::
  "tid \<Rightarrow> ('p TcpSessionManager \<Rightarrow> ('a \<times> 'p TcpSessionManager) res) \<Rightarrow> 'p TcpSessionManager
    \<Rightarrow> ('a \<times> 'p TcpSessionManager) res" where
  "SCOPED_LOCK_Add t = AutoLock_scope t (\<lambda>m. Some (AddTcpClient_lock m))
     (\<lambda>l m. case l of None \<Rightarrow> m | Some cs \<Rightarrow> m\<lparr>AddTcpClient_lock := cs\<rparr>)"

definition SCOPED_LOCK_Remove ::
  "tid \<Rightarrow> ('p TcpSessionManager \<Rightarrow> ('a \<times> 'p TcpSessionManager) res) \<Rightarrow> 'p TcpSessionManager
    \<Rightarrow> ('a \<times> 'p TcpSessionManager) res" where
  "SCOPED_LOCK_Remove t = AutoLock_scope t (\<lambda>m. Some (RemoveTcpClient_lock m))
     (\<lambda>l m. case l of None \<Rightarrow> m | Some cs \<Rightarrow> m\<lparr>RemoveTcpClient_lock := cs\<rparr>)"

definition AddTcpClient :: "tid \<Rightarrow> 'p \<Rightarrow> 'p TcpSessionManager \<Rightarrow> (bool \<times> 'p TcpSessionManager) res" where
  "AddTcpClient t client = SCOPED_LOCK_Add t (\<lambda>m.
     let m1 = m\<lparr>m_clients := removeAll client (m_clients m)\<rparr>;
         m2 = m1\<lparr>m_clients := m_clients m1 @ [client]\<rparr>
     in Inr (True, m2))"

definition RemoveTcpClient :: "tid \<Rightarrow> 'p \<Rightarrow> 'p TcpSessionManager \<Rightarrow> (unit \<times> 'p TcpSessionManager) res" where
  "RemoveTcpClient t client = SCOPED_LOCK_Remove t (\<lambda>m.
     Inr ((), m\<lparr>m_clients := removeAll client (m_clients m)\<rparr>))"

definition GetWholeClients :: "'p TcpSessionManager \<Rightarrow> 'p list" where
  "GetWholeClients m = m_clients m"

section \<open>The registry contract\<close>

datatype 'p registry_op = Add 'p | Remove 'p

locale session_registry =
  fixes members :: "'m \<Rightarrow> 'p list"
    and ok :: "'m \<Rightarrow> bool"
    and add :: "'p \<Rightarrow> 'm \<Rightarrow> (bool \<times> 'm) res"
    and remove :: "'p \<Rightarrow> 'm \<Rightarrow> (unit \<times> 'm) res"
  assumes add_last: "ok m \<Longrightarrow> \<exists>m'. add p m = Inr (True, m') \<and> ok m'
      \<and> members m' = removeAll p (members m) @ [p]"
    and remove_all: "ok m \<Longrightarrow> \<exists>m'. remove p m = Inr ((), m') \<and> ok m'
      \<and> members m' = removeAll p (members m)"
begin

fun apply_op :: "'p registry_op \<Rightarrow> 'm \<Rightarrow> 'm res" where
  "apply_op (Add p) m = bindE (add p m) (\<lambda>(_, m'). Inr m')"
| "apply_op (Remove p) m = bindE (remove p m) (\<lambda>(_, m'). Inr m')"

text \<open>A session is listed exactly when the last operation on it was an addition.\<close>

fun registered :: "'p registry_op list \<Rightarrow> 'p set \<Rightarrow> 'p set" where
  "registered [] S = S"
| "registered (Add p # ops) S = registered ops (insert p S)"
| "registered (Remove p # ops) S = registered ops (S - {p})"

lemma apply_op_ok:
  assumes "ok m"
  shows "\<exists>m'. apply_op x m = Inr m' \<and> ok m'
    \<and> (distinct (members m) \<longrightarrow> distinct (members m'))
    \<and> set (members m') = registered [x] (set (members m))"
proof (cases x)
  case (Add p)
  with add_last[OF assms, of p] show ?thesis by (auto simp: distinct_removeAll)
next
  case (Remove p)
  with remove_all[OF assms, of p] show ?thesis by (auto simp: distinct_removeAll)
qed

lemma apply_ops_members:
  assumes "ok m" "distinct (members m)"
  shows "\<exists>m'. foldE apply_op ops m = Inr m' \<and> ok m' \<and> distinct (members m')
    \<and> set (members m') = registered ops (set (members m))"
  using assms
proof (induction ops arbitrary: m)
  case Nil
  then show ?case by simp
next
  case (Cons x ops)
  from apply_op_ok[OF Cons.prems(1), of x] Cons.prems(2) obtain m1 where
    m1: "apply_op x m = Inr m1" "ok m1" "distinct (members m1)"
      "set (members m1) = registered [x] (set (members m))"
    by blast
  with Cons.IH[of m1] show ?case by (cases x) auto
qed

end

definition manager_ok :: "tid \<Rightarrow> 'p TcpSessionManager \<Rightarrow> bool" where
  "manager_ok t m \<longleftrightarrow> lock_avail t (Some (AddTcpClient_lock m)) \<and> lock_avail t (Some (RemoveTcpClient_lock m))"

lemma manager_ok_new [simp]: "manager_ok t TcpSessionManager_new"
  by (simp add: manager_ok_def TcpSessionManager_new_def)

lemma m_clients_new [simp]: "m_clients TcpSessionManager_new = []"
  by (simp add: TcpSessionManager_new_def)

lemma entered_Some: "\<exists>cs'. lock_entered t (Some cs) = Some cs'"
  by (simp add: lock_entered_def)

lemma AddTcpClient_avail [op_eqs]:
  assumes "lock_avail t (Some (AddTcpClient_lock m))"
  shows "AddTcpClient t c m = Inr (True, m\<lparr>m_clients := removeAll c (m_clients m) @ [c]\<rparr>)"
proof -
  obtain cs where cs: "lock_entered t (Some (AddTcpClient_lock m)) = Some cs"
    using entered_Some by blast
  with AutoLock_dtor_entered[OF assms] AutoLock_ctor_avail[OF assms] show ?thesis
    by (simp add: AddTcpClient_def SCOPED_LOCK_Add_def AutoLock_scope_def)
qed

lemma RemoveTcpClient_avail [op_eqs]:
  assumes "lock_avail t (Some (RemoveTcpClient_lock m))"
  shows "RemoveTcpClient t c m = Inr ((), m\<lparr>m_clients := removeAll c (m_clients m)\<rparr>)"
proof -
  obtain cs where cs: "lock_entered t (Some (RemoveTcpClient_lock m)) = Some cs"
    using entered_Some by blast
  with AutoLock_dtor_entered[OF assms] AutoLock_ctor_avail[OF assms] show ?thesis
    by (simp add: RemoveTcpClient_def SCOPED_LOCK_Remove_def AutoLock_scope_def)
qed

interpretation tcp_registry: session_registry m_clients "manager_ok t" "AddTcpClient t" "RemoveTcpClient t"
  for t
  by unfold_locales (auto simp: manager_ok_def op_eqs)

end
