(* ===== verification/Packet_Dispatch.thy ===== *)
theory Packet_Dispatch
  imports Tcp_Send Session_Manager
begin

text \<open>
  The part of \<^verbatim>\<open>TcpClient.cpp\<close> that reaches beyond one session: cutting the received bytes into
  packets (\<^verbatim>\<open>TryProcessPacket\<close>, \<^verbatim>\<open>OnReceived\<close>) and answering or broadcasting a packet
  (\<^verbatim>\<open>ProcessPacket\<close>). The state is the whole server: the session objects, the overlapped
  structures and their two pools (globals of \<^verbatim>\<open>network.cpp\<close>), the session manager and the trace.
\<close>

section \<open>The server state\<close>

record server =
  clients :: "cid \<rightharpoonup> TcpClient"
  next_client :: cid
  heap :: io_heap
  g_recvIoPool :: OverlappedIoPool
  g_sendIoPool :: OverlappedIoPool
  manager :: "cid option TcpSessionManager"
  calls :: trace

definition on_client ::
  "cid \<Rightarrow> (cl_state \<Rightarrow> ('a \<times> cl_state) res) \<Rightarrow> server \<Rightarrow> ('a \<times> server) res" where
  "on_client i f w = (case clients w i of None \<Rightarrow> Inl DanglingPtr
     | Some c \<Rightarrow> bindE (f (c, heap w, calls w)) (\<lambda>(x, c', h', tr').
         Inr (x, w\<lparr>clients := (clients w)(i \<mapsto> c'), heap := h', calls := tr'\<rparr>)))"

definition printf :: "string \<Rightarrow> server \<Rightarrow> server" where
  "printf msg w = w\<lparr>calls := calls w @ [printf_call msg]\<rparr>"

section \<open>Processing one packet\<close>

definition packet_length_header :: int where
  "packet_length_header = 2"

definition packet_header_size :: int where
  "packet_header_size = sizeof_PacketHeader"

text \<open>The common reaction to a failed write: report, close this session, stop.\<close>

definition close_after_failed_write :: "int \<Rightarrow> cid \<Rightarrow> server \<Rightarrow> server res" where
  "close_after_failed_write n this w =
     (let w1 = (if n = SOCKET_ERROR then printf ''send failed with error'' w else w)
      in bindE (on_client this (Close True) w1) (\<lambda>(_, w2). Inr w2))"

fun broadcast ::
  "winsock \<Rightarrow> tid \<Rightarrow> cid \<Rightarrow> byte list \<Rightarrow> cid option list \<Rightarrow> server \<Rightarrow> server res" where
  "broadcast os t this packet [] w = Inr w"
| "broadcast os t this packet (None # ps) w = broadcast os t this packet ps w"
| "broadcast os t this packet (Some i # ps) w =
     bindE (on_client i (IsValid t) w) (\<lambda>(valid, w1).
     if valid then
       bindE (on_client i (WriteSendBuffer t (Some packet)) w1) (\<lambda>(n, w2).
       if n < 0 then close_after_failed_write n this w2
       else bindE (on_client i (FlushSendBuffer os t) w2) (\<lambda>(_, w3).
            broadcast os t this packet ps w3))
     else broadcast os t this packet ps w1)"

definition ProcessPacket :: "winsock \<Rightarrow> tid \<Rightarrow> cid \<Rightarrow> byte list \<Rightarrow> server \<Rightarrow> server res" where
  "ProcessPacket os t this packet w =
     bindE (packet_checkSum packet) (\<lambda>checkSum.
     bindE (if checkSum = 0x55 then Inr w
            else bindE (on_client this (Close True) w) (\<lambda>(_, w1). Inr w1)) (\<lambda>w1.
     bindE (packet_flag packet) (\<lambda>flag.
     if flag = 0x01 then
       bindE (on_client this (WriteSendBuffer t (Some packet)) w1) (\<lambda>(n, w2).
       if n < 0 then close_after_failed_write n this w2 else Inr w2)
     else if flag = 0x02 then
       broadcast os t this packet (GetWholeClients (manager w1)) w1
     else bindE (on_client this (Close True) w1) (\<lambda>(_, w2). Inr w2))))"

section \<open>Cutting the stream\<close>

text \<open>The body of the loop up to the call of \<open>ProcessPacket\<close>: read \<open>n\<close> bytes into a zeroed local
  array and adjust the byte count.\<close>

definition read_packet :: "int \<Rightarrow> cl_state \<Rightarrow> (byte list \<times> cl_state) res" where
  "read_packet n = (\<lambda>(c, h, tr).
     bindE (deref (m_pRecvBuffer c)) (\<lambda>rb.
     bindE (Read n (replicate (nat BUFFER_SIZE) 0) BUFFER_SIZE rb) (\<lambda>((readBytes, packet), rb').
     Inr (packet, (c\<lparr>m_pRecvBuffer := Some rb', m_RecvBytes := i32 (m_RecvBytes c - readBytes)\<rparr>, h, tr)))))"

text \<open>The loop condition, on the receive buffer; \<open>Some n\<close> is the number of bytes to take.\<close>

definition packet_ready :: "PulledBuffer \<Rightarrow> int option res" where
  "packet_ready rb =
     bindE (packet_dataSize (drop (nat (GetPtr rb)) (m_Buffer rb))) (\<lambda>n.
     let len = i32 (int (unat n) + packet_header_size)
     in Inr (if n > 0 \<and> GetLength rb \<ge> len then Some len else None))"

fun TryProcess_loop :: "winsock \<Rightarrow> tid \<Rightarrow> nat \<Rightarrow> cid \<Rightarrow> server \<Rightarrow> server res" where
  "TryProcess_loop os t 0 this w = Inl OutOfFuel"
| "TryProcess_loop os t (Suc fuel) this w =
     (case clients w this of None \<Rightarrow> Inl DanglingPtr | Some c \<Rightarrow>
      bindE (deref (m_pRecvBuffer c)) (\<lambda>rb.
      bindE (packet_ready rb) (\<lambda>ready.
      case ready of None \<Rightarrow> Inr w
      | Some len \<Rightarrow>
          bindE (on_client this (read_packet len) w) (\<lambda>(packet, w1).
          bindE (ProcessPacket os t this packet w1) (\<lambda>w2.
          case clients w2 this of None \<Rightarrow> Inl DanglingPtr | Some c2 \<Rightarrow>
          (case m_pRecvBuffer c2 of None \<Rightarrow> Inr w2
           | Some rb2 \<Rightarrow> if GetLength rb2 > packet_length_header
                then TryProcess_loop os t fuel this w2 else Inr w2))))))"

definition TryProcessPacket :: "winsock \<Rightarrow> tid \<Rightarrow> cid \<Rightarrow> server \<Rightarrow> server res" where
  "TryProcessPacket os t this w =
     (case clients w this of None \<Rightarrow> Inl DanglingPtr | Some c \<Rightarrow>
      bindE (deref (m_pRecvBuffer c)) (\<lambda>rb.
      if GetLength rb < packet_length_header then Inr w
      else bindE (TryProcess_loop os t (Suc (nat (GetLength rb))) this w) (\<lambda>w1.
           bindE (on_client this (FlushSendBuffer os t) w1) (\<lambda>(_, w2). Inr w2))))"

definition add_received :: "int \<Rightarrow> cl_state \<Rightarrow> (unit \<times> cl_state) res" where
  "add_received transferred = (\<lambda>(c, h, tr).
     let c1 = c\<lparr>m_RecvBytes := i32 (m_RecvBytes c + transferred)\<rparr>
     in bindE (deref (m_pRecvBuffer c1)) (\<lambda>rb.
        Inr ((), (c1\<lparr>m_pRecvBuffer := Some (ForceAddLength (i32 transferred) rb),
                    m_RecvIoState := IO_CONNECTED\<rparr>, h, tr))))"

definition OnReceived :: "winsock \<Rightarrow> tid \<Rightarrow> int \<Rightarrow> cid \<Rightarrow> server \<Rightarrow> server res" where
  "OnReceived os t transferred this w =
     bindE (on_client this (add_received transferred) w) (\<lambda>(_, w1). TryProcessPacket os t this w1)"

section \<open>What processing leaves alone\<close>

text \<open>\<open>server_frame w w'\<close>: only send buffers, send states and closing flags of sessions changed,
  overlapped structures kept their sessions, and calls were only appended.\<close>

definition client_frame :: "TcpClient \<Rightarrow> TcpClient \<Rightarrow> bool" where
  "client_frame c c' \<longleftrightarrow> c' = c\<lparr>m_pSendBuffer := m_pSendBuffer c', m_SendIoState := m_SendIoState c',
     m_isClosing := m_isClosing c'\<rparr> \<and> (m_isClosing c \<longrightarrow> m_isClosing c')"

definition heap_frame :: "io_heap \<Rightarrow> io_heap \<Rightarrow> bool" where
  "heap_frame h h' \<longleftrightarrow> next_cell h' = next_cell h \<and> blocks h' = blocks h
     \<and> (\<forall>a. map_option Client (cells h' a) = map_option Client (cells h a))"

definition server_frame :: "server \<Rightarrow> server \<Rightarrow> bool" where
  "server_frame w w' \<longleftrightarrow> manager w' = manager w \<and> g_recvIoPool w' = g_recvIoPool w
     \<and> g_sendIoPool w' = g_sendIoPool w \<and> next_client w' = next_client w
     \<and> heap_frame (heap w) (heap w')
     \<and> (\<forall>i. rel_option client_frame (clients w i) (clients w' i))
     \<and> (\<exists>cs. calls w' = calls w @ cs)"

text \<open>The session \<open>i\<close> exists and its two overlapped structures are allocated.\<close>

definition bound_client :: "server \<Rightarrow> cid \<Rightarrow> bool" where
  "bound_client w i \<longleftrightarrow> (\<exists>c rv sv. clients w i = Some c \<and> m_pRecvOverlapped c = Some rv
     \<and> m_pSendOverlapped c = Some sv \<and> cells (heap w) rv \<noteq> None \<and> cells (heap w) sv \<noteq> None)"

definition sessions_ok :: "tid \<Rightarrow> server \<Rightarrow> bool" where
  "sessions_ok t w \<longleftrightarrow> (\<forall>i c. clients w i = Some c \<longrightarrow> client_ok t c)
     \<and> (\<forall>p\<in>set (m_clients (manager w)). \<exists>i. p = Some i \<and> bound_client w i)"

lemma client_frame_refl [simp]: "client_frame c c"
  by (simp add: client_frame_def)

lemma client_frame_trans: "client_frame c c' \<Longrightarrow> client_frame c' c'' \<Longrightarrow> client_frame c c''"
  unfolding client_frame_def by (cases c; cases c'; cases c'') auto

lemma client_frame_fields:
  assumes "client_frame c c'"
  shows "m_Socket c' = m_Socket c" "m_pRecvBuffer c' = m_pRecvBuffer c" "m_RecvBytes c' = m_RecvBytes c"
    "m_pRecvOverlapped c' = m_pRecvOverlapped c" "m_pSendOverlapped c' = m_pSendOverlapped c"
    "m_pSendLock c' = m_pSendLock c" "m_RecvIoState c' = m_RecvIoState c" "recv_bytes c' = recv_bytes c"
  using assms unfolding client_frame_def by (cases c; cases c'; simp add: recv_bytes_def)+

lemma heap_frame_refl [simp]: "heap_frame h h"
  by (simp add: heap_frame_def)

lemma heap_frame_trans: "heap_frame h h' \<Longrightarrow> heap_frame h' h'' \<Longrightarrow> heap_frame h h''"
  by (simp add: heap_frame_def)

lemma heap_frame_upd_Reset: "upd_cell Reset a h = Inr h' \<Longrightarrow> heap_frame h h'"
  by (auto simp: upd_cell_def heap_frame_def split: option.splits)

lemma heap_frame_cells: "heap_frame h h' \<Longrightarrow> cells h' a \<noteq> None \<longleftrightarrow> cells h a \<noteq> None"
  by (metis heap_frame_def map_option_is_None)

lemma server_frame_refl [simp]: "server_frame w w"
  by (auto simp: server_frame_def option.rel_refl)

lemma server_frame_trans:
  assumes "server_frame w w'" "server_frame w' w''"
  shows "server_frame w w''"
proof -
  have "rel_option client_frame (clients w i) (clients w'' i)" for i
  proof -
    have "rel_option client_frame (clients w i) (clients w' i)"
      "rel_option client_frame (clients w' i) (clients w'' i)"
      using assms by (simp_all add: server_frame_def)
    then show ?thesis
      by (cases "clients w i"; cases "clients w' i"; cases "clients w'' i")
        (simp_all, blast intro: client_frame_trans)
  qed
  with assms show ?thesis
    by (auto simp: server_frame_def intro: heap_frame_trans)
qed

lemma server_frame_client:
  assumes "server_frame w w'" "clients w i = Some c"
  obtains c' where "clients w' i = Some c'" "client_frame c c'"
  using assms unfolding server_frame_def by (metis option_rel_Some1)

lemma server_frame_bound:
  assumes "server_frame w w'" "bound_client w i"
  shows "bound_client w' i"
proof -
  obtain c rv sv where c: "clients w i = Some c" "m_pRecvOverlapped c = Some rv"
    "m_pSendOverlapped c = Some sv" "cells (heap w) rv \<noteq> None" "cells (heap w) sv \<noteq> None"
    using assms(2) by (auto simp: bound_client_def)
  obtain c' where c': "clients w' i = Some c'" "client_frame c c'"
    using server_frame_client[OF assms(1) c(1)] .
  have "heap_frame (heap w) (heap w')" using assms(1) by (simp add: server_frame_def)
  from heap_frame_cells[OF this] c c' client_frame_fields(4,5)[OF c'(2)] show ?thesis
    unfolding bound_client_def by (intro exI[of _ c'] exI[of _ rv] exI[of _ sv]) simp
qed

section \<open>Every step of the processing succeeds on well-formed sessions\<close>

text \<open>A packet buffer as \<open>TryProcessPacket\<close> passes it: the whole local array.\<close>

definition packet_mem :: "byte list \<Rightarrow> bool" where
  "packet_mem pkt \<longleftrightarrow> length pkt = nat BUFFER_SIZE"

lemma packet_mem_Cons:
  assumes "packet_mem pkt"
  obtains b0 b1 b2 b3 rest where "pkt = b0 # b1 # b2 # b3 # rest"
proof -
  have "4 \<le> length pkt" using assms by (simp add: packet_mem_def BUFFER_SIZE_val)
  then obtain b0 xs where "pkt = b0 # xs" "3 \<le> length xs" by (cases pkt) auto
  moreover from this(2) obtain b1 ys where "xs = b1 # ys" "2 \<le> length ys" by (cases xs) auto
  moreover from this(2) obtain b2 zs where "ys = b2 # zs" "1 \<le> length zs" by (cases ys) auto
  moreover from this(2) obtain b3 rest where "zs = b3 # rest" by (cases zs) auto
  ultimately show ?thesis using that by simp
qed

lemma packet_fields_ok:
  assumes "packet_mem pkt"
  shows "\<exists>n. packet_dataSize pkt = Inr n \<and> unat n + 4 \<le> length pkt" "\<exists>f. packet_flag pkt = Inr f"
    "\<exists>c. packet_checkSum pkt = Inr c"
proof -
  obtain b0 b1 b2 b3 rest where pkt: "pkt = b0 # b1 # b2 # b3 # rest"
    using packet_mem_Cons[OF assms] .
  then show "\<exists>f. packet_flag pkt = Inr f" "\<exists>c. packet_checkSum pkt = Inr c"
    by (simp_all add: packet_flag_def packet_checkSum_def)
  have "unat (bytes_word16 b0 b1) \<le> 65535" by (rule unat_dataSize_bound)
  then show "\<exists>n. packet_dataSize pkt = Inr n \<and> unat n + 4 \<le> length pkt"
    using assms by (simp add: pkt packet_dataSize_def packet_mem_def BUFFER_SIZE_val)
qed

text \<open>One operation on one session, lifted to the server.\<close>

lemma on_client_frame:
  assumes "sessions_ok t w" "clients w i = Some c"
    and "f (c, heap w, calls w) = Inr (x, c', h', tr')"
    and "client_frame c c'" "client_ok t c'" "heap_frame (heap w) h'" "\<exists>cs. tr' = calls w @ cs"
  shows "\<exists>w'. on_client i f w = Inr (x, w') \<and> sessions_ok t w' \<and> server_frame w w'
    \<and> clients w' i = Some c' \<and> calls w' = tr' \<and> (\<forall>j. j \<noteq> i \<longrightarrow> clients w' j = clients w j)"
proof -
  let ?w = "w\<lparr>clients := (clients w)(i \<mapsto> c'), heap := h', calls := tr'\<rparr>"
  have fr: "server_frame w ?w"
    using assms(2,4,6,7) by (auto simp: server_frame_def option.rel_refl)
  have "sessions_ok t ?w"
    using assms(1,5) server_frame_bound[OF fr]
    by (auto simp: sessions_ok_def split: if_splits)
  with fr assms(2,3) show ?thesis by (simp add: on_client_def)
qed

lemma client_frame_upd:
  "client_frame c (c\<lparr>m_isClosing := True\<rparr>)" "client_frame c (c\<lparr>m_pSendBuffer := sb\<rparr>)"
  "client_frame c (c\<lparr>m_SendIoState := st\<rparr>)"
  by (simp_all add: client_frame_def)

lemma Close_step:
  assumes "sessions_ok t w" "clients w i = Some c"
  shows "\<exists>w'. on_client i (Close b) w = Inr ((), w') \<and> sessions_ok t w' \<and> server_frame w w'
    \<and> clients w' i = Some (c\<lparr>m_isClosing := True\<rparr>) \<and> calls w' = calls w @ [closesocket_call (m_Socket c)]
    \<and> (\<forall>j. j \<noteq> i \<longrightarrow> clients w' j = clients w j)"
  by (rule on_client_frame[OF assms])
    (use assms in \<open>auto simp: Close_def client_frame_upd sessions_ok_def client_ok_def\<close>)

lemma IsValid_step:
  assumes "sessions_ok t w" "clients w i = Some c"
  shows "on_client i (IsValid t) w = Inr (\<not> m_isClosing c, w)"
proof -
  have "lock_avail t (m_pSendLock c)" using assms by (auto simp: sessions_ok_def client_ok_def)
  with assms(2) show ?thesis by (simp add: on_client_def op_eqs fun_upd_idem)
qed

lemma WriteSendBuffer_step:
  assumes "sessions_ok t w" "clients w i = Some c" "packet_mem pkt"
  shows "\<exists>n w' c'. on_client i (WriteSendBuffer t (Some pkt)) w = Inr (n, w') \<and> sessions_ok t w'
    \<and> server_frame w w' \<and> clients w' i = Some c' \<and> calls w' = calls w
    \<and> (\<forall>j. j \<noteq> i \<longrightarrow> clients w' j = clients w j)
    \<and> (n = -1 \<and> c' = c \<or> 0 \<le> n \<and> n \<le> int (length pkt) \<and> send_bytes c' = send_bytes c @ take (nat n) pkt
        \<and> (\<exists>sb. c' = c\<lparr>m_pSendBuffer := Some sb\<rparr>))"
proof -
  have ok: "client_ok t c" using assms(1,2) by (simp add: sessions_ok_def)
  obtain n where n: "packet_dataSize pkt = Inr n" "unat n + 4 \<le> length pkt"
    using packet_fields_ok(1)[OF assms(3)] by blast
  obtain r s' where r: "WriteSendBuffer t (Some pkt) (c, heap w, calls w) = Inr (r, s')"
    using WriteSendBuffer_fits[OF ok n, of "heap w" "calls w"] WriteSendBuffer_full[OF ok n(1)]
    by (cases "nat BUFFER_SIZE < length (send_bytes c) + unat n + 4") auto
  from WriteSendBuffer_cases[OF ok r] show ?thesis
  proof (elim disjE exE conjE)
    assume "r = - 1" "s' = (c, heap w, calls w)"
    with r on_client_frame[OF assms(1,2), of "WriteSendBuffer t (Some pkt)" r c "heap w" "calls w"] ok
    show ?thesis by auto
  next
    fix k sb
    assume k: "r = int k" "k \<le> length pkt" "s' = (c\<lparr>m_pSendBuffer := Some sb\<rparr>, heap w, calls w)"
      "buf_ok sb" "contents sb = send_bytes c @ take k pkt"
    let ?c = "c\<lparr>m_pSendBuffer := Some sb\<rparr>"
    obtain w' where "on_client i (WriteSendBuffer t (Some pkt)) w = Inr (r, w')" "sessions_ok t w'"
      "server_frame w w'" "clients w' i = Some ?c" "calls w' = calls w"
      "\<forall>j. j \<noteq> i \<longrightarrow> clients w' j = clients w j"
      using on_client_frame[OF assms(1,2), of "WriteSendBuffer t (Some pkt)" r ?c "heap w" "calls w"]
        r k client_ok_upd_send(1)[OF ok k(4)] by (auto simp: client_frame_upd)
    with k show ?thesis by auto
  qed
qed

lemma FlushSendBuffer_step:
  assumes "sessions_ok t w" "bound_client w i" "clients w i = Some c"
  shows "\<exists>n w' c'. on_client i (FlushSendBuffer os t) w = Inr (n, w') \<and> sessions_ok t w'
    \<and> server_frame w w' \<and> clients w' i = Some c' \<and> send_bytes c' = send_bytes c
    \<and> m_isClosing c' = m_isClosing c \<and> (\<forall>j. j \<noteq> i \<longrightarrow> clients w' j = clients w j)"
proof -
  have ok: "client_ok t c" using assms(1,3) by (simp add: sessions_ok_def)
  obtain sv where sv: "m_pSendOverlapped c = Some sv" "cells (heap w) sv \<noteq> None"
    using assms(2,3) by (auto simp: bound_client_def)
  then obtain h' where h': "upd_cell Reset sv (heap w) = Inr h'"
    by (auto simp: upd_cell_def)
  show ?thesis
  proof (cases "send_bytes c \<noteq> [] \<and> m_SendIoState c \<noteq> IO_PENDING")
    case False
    then have "FlushSendBuffer os t (c, heap w, calls w) = Inr (0, c, heap w, calls w)"
      by (auto simp: FlushSendBuffer_client_ok[OF ok])
    from on_client_frame[where f = "FlushSendBuffer os t", OF assms(1,3) this client_frame_refl ok heap_frame_refl] show ?thesis by auto
  next
    case True
    define p where "p = send_posted os c (send_bytes c) sv h' (calls w)"
    have f: "FlushSendBuffer os t (c, heap w, calls w) = Inr (fst p, c\<lparr>m_SendIoState := IO_PENDING\<rparr>, h',
        calls w @ [WSASend_call (m_Socket c) (send_bytes c) sv])"
      using True sv h' by (simp add: FlushSendBuffer_client_ok[OF ok] p_def send_posted_def)
    from on_client_frame[where f = "FlushSendBuffer os t", OF assms(1,3) f client_frame_upd(3) client_ok_upd_send(2)[OF ok]
        heap_frame_upd_Reset[OF h']]
    show ?thesis by auto
  qed
qed

lemma sessions_ok_printf: "sessions_ok t w \<Longrightarrow> sessions_ok t (printf m w)"
  by (simp add: sessions_ok_def printf_def bound_client_def)

lemma server_frame_printf [simp]: "server_frame w (printf m w)"
  by (auto simp: server_frame_def printf_def option.rel_refl)

lemma clients_printf [simp]: "clients (printf m w) = clients w" "manager (printf m w) = manager w"
  by (simp_all add: printf_def)

lemma close_after_failed_write_step:
  assumes "sessions_ok t w" "clients w this = Some c"
  shows "\<exists>w'. close_after_failed_write n this w = Inr w' \<and> sessions_ok t w' \<and> server_frame w w'
    \<and> clients w' this = Some (c\<lparr>m_isClosing := True\<rparr>) \<and> (\<forall>j. j \<noteq> this \<longrightarrow> clients w' j = clients w j)"
proof -
  define w1 where "w1 = (if n = SOCKET_ERROR then printf ''send failed with error'' w else w)"
  have w1: "sessions_ok t w1" "clients w1 = clients w" "server_frame w w1"
    using assms(1) by (simp_all add: w1_def sessions_ok_printf)
  from Close_step[OF w1(1), of this c True] assms(2) w1(2) obtain w' where
    w': "on_client this (Close True) w1 = Inr ((), w')" "sessions_ok t w'" "server_frame w1 w'"
      "clients w' this = Some (c\<lparr>m_isClosing := True\<rparr>)" "\<forall>j. j \<noteq> this \<longrightarrow> clients w' j = clients w1 j"
    by auto
  have "close_after_failed_write n this w = Inr w'"
    using w'(1) by (simp add: close_after_failed_write_def w1_def Let_def)
  with w' w1 server_frame_trans[OF w1(3) w'(3)] show ?thesis by auto
qed

lemma broadcast_step:
  assumes "sessions_ok t w" "clients w this \<noteq> None" "packet_mem pkt"
    and "\<forall>p\<in>set ps. \<exists>i. p = Some i \<and> bound_client w i"
  shows "\<exists>w'. broadcast os t this pkt ps w = Inr w' \<and> sessions_ok t w' \<and> server_frame w w'"
  using assms
proof (induction ps arbitrary: w)
  case Nil
  then show ?case by simp
next
  case (Cons p ps)
  then obtain i where i0: "p = Some i" "bound_client w i" by auto
  then obtain c where "clients w i = Some c" by (auto simp: bound_client_def)
  note i = i0 this
  note v = IsValid_step[OF Cons.prems(1) i(3)]
  show ?case
  proof (cases "m_isClosing c")
    case True
    with v i(1) Cons.prems show ?thesis by (simp add: Cons.IH)
  next
    case False
    obtain n w2 c2 where w2: "on_client i (WriteSendBuffer t (Some pkt)) w = Inr (n, w2)"
      "sessions_ok t w2" "server_frame w w2" "clients w2 i = Some c2"
      using WriteSendBuffer_step[OF Cons.prems(1) i(3) Cons.prems(3)] by blast
    obtain cthis where this2: "clients w2 this = Some cthis"
      using Cons.prems(2) server_frame_client[OF w2(3)] by blast
    show ?thesis
    proof (cases "n < 0")
      case True
      obtain w3 where "close_after_failed_write n this w2 = Inr w3" "sessions_ok t w3" "server_frame w2 w3"
        using close_after_failed_write_step[OF w2(2) this2, of n] by blast
      with True v False i(1) w2 show ?thesis by (auto intro: server_frame_trans)
    next
      case pos: False
      have b2: "bound_client w2 j" if "bound_client w j" for j
        by (rule server_frame_bound[OF w2(3) that])
      obtain r w3 where w3: "on_client i (FlushSendBuffer os t) w2 = Inr (r, w3)" "sessions_ok t w3"
        "server_frame w2 w3"
        using FlushSendBuffer_step[OF w2(2) b2[OF i(2)] w2(4), of os] by blast
      have "\<forall>p\<in>set ps. \<exists>i. p = Some i \<and> bound_client w3 i"
        using Cons.prems(4) b2 server_frame_bound[OF w3(3)] by (metis list.set_intros(2))
      moreover have "clients w3 this \<noteq> None"
        using server_frame_client[OF w3(3) this2] by (metis option.distinct(1))
      ultimately obtain w' where "broadcast os t this pkt ps w3 = Inr w'" "sessions_ok t w'"
        "server_frame w3 w'"
        using Cons.IH[OF w3(2) _ Cons.prems(3)] by blast
      with v False i(1) w2 pos w3 show ?thesis
        by (auto intro: server_frame_trans)
    qed
  qed
qed

lemma ProcessPacket_step:
  assumes ok: "sessions_ok t w" and me: "clients w this \<noteq> None" and pkt: "packet_mem pkt"
  shows "\<exists>w'. ProcessPacket os t this pkt w = Inr w' \<and> sessions_ok t w' \<and> server_frame w w'"
proof -
  obtain cs fl where f: "packet_checkSum pkt = Inr cs" "packet_flag pkt = Inr fl"
    using packet_fields_ok[OF pkt] by blast
  obtain c where c: "clients w this = Some c" using me by blast
  obtain wc where wc: "on_client this (Close True) w = Inr ((), wc)" "sessions_ok t wc" "server_frame w wc"
    using Close_step[OF ok c, of True] by blast
  obtain w1 where w1: "(if cs = 0x55 then Inr w
      else bindE (on_client this (Close True) w) (\<lambda>(_, w1). Inr w1)) = Inr w1"
    "sessions_ok t w1" "server_frame w w1"
    using ok wc by (cases "cs = 0x55") simp_all
  obtain c1 where c1: "clients w1 this = Some c1"
    using me server_frame_client[OF w1(3)] by blast
  have "\<exists>w'. (if fl = 0x01 then
       bindE (on_client this (WriteSendBuffer t (Some pkt)) w1) (\<lambda>(n, w2).
       if n < 0 then close_after_failed_write n this w2 else Inr w2)
     else if fl = 0x02 then broadcast os t this pkt (GetWholeClients (manager w1)) w1
     else bindE (on_client this (Close True) w1) (\<lambda>(_, w2). Inr w2)) = Inr w'
     \<and> sessions_ok t w' \<and> server_frame w1 w'"
  proof (cases "fl = 0x01")
    case True
    obtain n w2 c2 where w2: "on_client this (WriteSendBuffer t (Some pkt)) w1 = Inr (n, w2)"
      "sessions_ok t w2" "server_frame w1 w2" "clients w2 this = Some c2"
      using WriteSendBuffer_step[OF w1(2) c1 pkt] by blast
    with True close_after_failed_write_step[OF w2(2,4), of n] show ?thesis
      by (cases "n < 0") (auto intro: server_frame_trans)
  next
    case no_echo: False
    show ?thesis
    proof (cases "fl = 0x02")
      case True
      have "\<forall>p\<in>set (GetWholeClients (manager w1)). \<exists>i. p = Some i \<and> bound_client w1 i"
        using w1(2) by (simp add: sessions_ok_def GetWholeClients_def)
      with True broadcast_step[OF w1(2) _ pkt] c1 show ?thesis by simp
    next
      case False
      with no_echo Close_step[OF w1(2) c1, of True] show ?thesis by auto
    qed
  qed
  then obtain w' where w': "(if fl = 0x01 then
       bindE (on_client this (WriteSendBuffer t (Some pkt)) w1) (\<lambda>(n, w2).
       if n < 0 then close_after_failed_write n this w2 else Inr w2)
     else if fl = 0x02 then broadcast os t this pkt (GetWholeClients (manager w1)) w1
     else bindE (on_client this (Close True) w1) (\<lambda>(_, w2). Inr w2)) = Inr w'"
    "sessions_ok t w'" "server_frame w1 w'"
    by blast
  have "ProcessPacket os t this pkt w = Inr w'"
    unfolding ProcessPacket_def f bindE_Inr w1(1) by (rule w'(1))
  with w' server_frame_trans[OF w1(3) w'(3)] show ?thesis by blast
qed

end
