(* ===== verification/Stream_Framing.thy ===== *)
theory Stream_Framing
  imports Packet_Dispatch
begin

text \<open>
  \<^verbatim>\<open>TcpClient::TryProcessPacket\<close> and \<^verbatim>\<open>OnReceived\<close> against the reference reading of the byte
  stream: the loop terminates, hands exactly the frames of the received bytes, in order, to
  \<^verbatim>\<open>ProcessPacket\<close>, and keeps exactly the incomplete rest.
\<close>

section \<open>The reference: dispatching frames\<close>

definition pad :: "byte list \<Rightarrow> byte list" where
  "pad f = f @ replicate (nat BUFFER_SIZE - length f) 0"

definition drop_frame :: "cid \<Rightarrow> nat \<Rightarrow> server \<Rightarrow> server" where
  "drop_frame this n w =
     (case on_client this (read_packet (int n)) w of Inl _ \<Rightarrow> w | Inr (_, w') \<Rightarrow> w')"

fun dispatch :: "winsock \<Rightarrow> tid \<Rightarrow> cid \<Rightarrow> byte list list \<Rightarrow> server \<Rightarrow> server res" where
  "dispatch os t this [] w = Inr w"
| "dispatch os t this (f # fs) w =
     bindE (ProcessPacket os t this (pad f) (drop_frame this (length f) w)) (dispatch os t this fs)"

section \<open>What a receiving session leaves alone\<close>

text \<open>\<open>link_frame w w'\<close>: the sessions keep their sockets, locks and overlapped structures, and closing
  is never undone; the manager, the pools and the owners of the overlapped structures are the same.\<close>

definition client_link :: "TcpClient \<Rightarrow> TcpClient \<Rightarrow> bool" where
  "client_link c c' \<longleftrightarrow> m_Socket c' = m_Socket c \<and> m_pSendLock c' = m_pSendLock c
     \<and> m_pRecvOverlapped c' = m_pRecvOverlapped c \<and> m_pSendOverlapped c' = m_pSendOverlapped c
     \<and> (m_isClosing c \<longrightarrow> m_isClosing c')"

definition link_frame :: "server \<Rightarrow> server \<Rightarrow> bool" where
  "link_frame w w' \<longleftrightarrow> manager w' = manager w \<and> g_recvIoPool w' = g_recvIoPool w
     \<and> g_sendIoPool w' = g_sendIoPool w \<and> next_client w' = next_client w
     \<and> heap_frame (heap w) (heap w')
     \<and> (\<forall>i. rel_option client_link (clients w i) (clients w' i))
     \<and> (\<exists>cs. calls w' = calls w @ cs)"

lemma client_link_refl [simp]: "client_link c c"
  by (simp add: client_link_def)

lemma client_frame_link: "client_frame c c' \<Longrightarrow> client_link c c'"
  using client_frame_fields[of c c'] by (auto simp: client_link_def client_frame_def)

lemma server_frame_link: "server_frame w w' \<Longrightarrow> link_frame w w'"
  by (auto simp: server_frame_def link_frame_def intro: option.rel_mono_strong client_frame_link)

lemma link_frame_refl [simp]: "link_frame w w"
  by (auto simp: link_frame_def option.rel_refl)

lemma link_frame_trans:
  assumes "link_frame w w'" "link_frame w' w''"
  shows "link_frame w w''"
proof -
  have "rel_option client_link (clients w i) (clients w'' i)" for i
  proof -
    have "rel_option client_link (clients w i) (clients w' i)"
      "rel_option client_link (clients w' i) (clients w'' i)"
      using assms by (simp_all add: link_frame_def)
    then show ?thesis
      by (cases "clients w i"; cases "clients w' i"; cases "clients w'' i")
        (auto simp: client_link_def)
  qed
  with assms show ?thesis
    by (auto simp: link_frame_def intro: heap_frame_trans)
qed

lemma link_frame_client:
  assumes "link_frame w w'" "clients w i = Some c"
  obtains c' where "clients w' i = Some c'" "client_link c c'"
  using assms unfolding link_frame_def by (metis option_rel_Some1)

lemma link_frame_bound:
  assumes "link_frame w w'" "bound_client w i"
  shows "bound_client w' i"
proof -
  obtain c rv sv where c: "clients w i = Some c" "m_pRecvOverlapped c = Some rv"
    "m_pSendOverlapped c = Some sv" "cells (heap w) rv \<noteq> None" "cells (heap w) sv \<noteq> None"
    using assms(2) by (auto simp: bound_client_def)
  obtain c' where c': "clients w' i = Some c'" "client_link c c'"
    using link_frame_client[OF assms(1) c(1)] .
  have "heap_frame (heap w) (heap w')" using assms(1) by (simp add: link_frame_def)
  from heap_frame_cells[OF this] c c' show ?thesis
    unfolding bound_client_def client_link_def by (intro exI[of _ c'] exI[of _ rv] exI[of _ sv]) simp
qed

lemma set_client_link:
  assumes "clients w i = Some c" "client_link c c'"
  shows "link_frame w (w\<lparr>clients := (clients w)(i \<mapsto> c')\<rparr>)"
  using assms by (auto simp: link_frame_def option.rel_refl)

lemma set_client_ok:
  assumes "sessions_ok t w" "clients w i = Some c" "client_link c c'" "client_ok t c'"
  shows "sessions_ok t (w\<lparr>clients := (clients w)(i \<mapsto> c')\<rparr>)"
  using assms link_frame_bound[OF set_client_link[OF assms(2,3)]]
  by (auto simp: sessions_ok_def split: if_splits)

section \<open>One turn of the loop\<close>

lemma packet_ready_frames:
  assumes "buf_ok rb" "2 \<le> length (contents rb)"
  shows "packet_ready rb = Inr (if frame_ready (contents rb)
    then Some (int (frame_data_size (contents rb) + 4)) else None)"
proof -
  obtain lo hi xs where xs: "contents rb = lo # hi # xs"
    using assms(2) by (cases "contents rb"; cases "tl (contents rb)") auto
  then obtain ys where ys: "m_Buffer rb = lo # hi # ys"
    unfolding contents_def by (metis append_Cons append_take_drop_id)
  let ?n = "bytes_word16 lo hi"
  obtain k where k: "k = unat ?n + 4" "uint ?n + 4 = int k" "i32 (int k) = int k" "k < 65540"
    by (rule copy_length)
  have pos: "(?n > 0) = (0 < unat ?n)" by (simp add: unat_gt_0 word_gt_0)
  have len: "GetLength rb \<ge> int k \<longleftrightarrow> k \<le> length (contents rb)"
    by (simp add: GetLength_contents[OF assms(1)])
  have ds: "packet_dataSize (drop (nat (GetPtr rb)) (m_Buffer rb)) = Inr ?n"
    using ys by (simp add: GetPtr_def packet_dataSize_def)
  have fd: "frame_data_size (contents rb) = unat ?n"
    using xs by (simp add: frame_data_size_def)
  have "i32 (int (unat ?n) + packet_header_size) = int k"
    using k(2,3) by (simp add: packet_header_size_def sizeof_PacketHeader_def)
  then show ?thesis
    unfolding packet_ready_def ds bindE_Inr Let_def frame_ready_def fd
    using pos len assms(2) k(1) by simp
qed

lemma read_packet_ok:
  assumes "client_ok t c" "recv_bytes c = f @ rest"
  shows "\<exists>c'. read_packet (int (length f)) (c, h, tr) = Inr (pad f, (c', h, tr))
    \<and> client_ok t c' \<and> client_link c c' \<and> recv_bytes c' = rest
    \<and> m_RecvBytes c' = i32 (m_RecvBytes c - int (length f))
    \<and> send_bytes c' = send_bytes c \<and> m_isClosing c' = m_isClosing c \<and> m_SendIoState c' = m_SendIoState c"
proof -
  obtain rb where rb: "m_pRecvBuffer c = Some rb" "buf_ok rb" "recv_bytes c = contents rb"
    using client_okE[OF assms(1)] by metis
  have n: "int (length f) \<le> m_Length rb" "int (length f) \<le> BUFFER_SIZE"
    using int_length_contents[OF rb(2)] buf_okD(3)[OF rb(2)] assms(2) rb(3) by simp_all
  then obtain rb' where rb': "Read (int (length f)) (replicate (nat BUFFER_SIZE) 0) BUFFER_SIZE rb
      = Inr ((int (length f), pad f), rb')" "buf_ok rb'" "contents rb' = rest"
    using Read_ok[OF rb(2), of "int (length f)" "replicate (nat BUFFER_SIZE) 0" BUFFER_SIZE]
      assms(2) rb(3) by (auto simp: BUFFER_SIZE_val mem_write_def pad_def)
  let ?c = "c\<lparr>m_pRecvBuffer := Some rb', m_RecvBytes := i32 (m_RecvBytes c - int (length f))\<rparr>"
  have "client_ok t ?c" using assms(1) rb'(2) by (simp add: client_ok_def)
  with rb(1) rb' show ?thesis
    by (intro exI[of _ ?c]) (simp add: read_packet_def client_link_def recv_bytes_def send_bytes_def)
qed

lemma drop_frame_step:
  assumes "sessions_ok t w" "clients w this = Some c" "recv_bytes c = f @ rest"
  shows "on_client this (read_packet (int (length f))) w = Inr (pad f, drop_frame this (length f) w)
    \<and> sessions_ok t (drop_frame this (length f) w) \<and> link_frame w (drop_frame this (length f) w)
    \<and> (\<exists>c'. clients (drop_frame this (length f) w) this = Some c' \<and> recv_bytes c' = rest
        \<and> send_bytes c' = send_bytes c \<and> m_isClosing c' = m_isClosing c \<and> m_SendIoState c' = m_SendIoState c)
    \<and> calls (drop_frame this (length f) w) = calls w"
proof -
  have ok: "client_ok t c" using assms(1,2) by (simp add: sessions_ok_def)
  obtain c' where c': "read_packet (int (length f)) (c, heap w, calls w) = Inr (pad f, (c', heap w, calls w))"
    "client_ok t c'" "client_link c c'" "recv_bytes c' = rest" "send_bytes c' = send_bytes c"
    "m_isClosing c' = m_isClosing c" "m_SendIoState c' = m_SendIoState c"
    using read_packet_ok[OF ok assms(3)] by blast
  let ?w = "w\<lparr>clients := (clients w)(this \<mapsto> c')\<rparr>"
  have "on_client this (read_packet (int (length f))) w = Inr (pad f, ?w)"
    using assms(2) c'(1) by (simp add: on_client_def)
  with c' set_client_ok[OF assms(1,2) c'(3,2)] set_client_link[OF assms(2) c'(3)] show ?thesis
    by (simp add: drop_frame_def)
qed

lemma packet_mem_pad: "length f \<le> nat BUFFER_SIZE \<Longrightarrow> packet_mem (pad f)"
  by (simp add: packet_mem_def pad_def)

text \<open>A frame of a receive buffer fits the local array.\<close>

lemma frame_fits: "frame_data_size bs + 4 \<le> nat BUFFER_SIZE"
  using frame_data_size_bound[of bs] by (simp add: BUFFER_SIZE_val)

section \<open>The loop\<close>

lemma TryProcess_loop_dispatch:
  assumes "sessions_ok t w" "clients w this = Some c" "2 \<le> length (recv_bytes c)"
    and "length (recv_bytes c) < fuel" "frames (recv_bytes c) = (fs, rest)"
  shows "TryProcess_loop os t fuel this w = dispatch os t this fs w
    \<and> (\<exists>w' c'. dispatch os t this fs w = Inr w' \<and> sessions_ok t w' \<and> link_frame w w'
        \<and> clients w' this = Some c' \<and> recv_bytes c' = rest)"
  using assms
proof (induction fuel arbitrary: w c fs)
  case 0
  then show ?case by simp
next
  case (Suc fuel)
  have ok: "client_ok t c" using Suc.prems(1,2) by (simp add: sessions_ok_def)
  obtain rb where rb: "m_pRecvBuffer c = Some rb" "buf_ok rb" "recv_bytes c = contents rb"
    using client_okE[OF ok] by metis
  note ready = packet_ready_frames[OF rb(2) Suc.prems(3)[unfolded rb(3)]]
  show ?case
  proof (cases "frame_ready (recv_bytes c)")
    case False
    then have "fs = []" "rest = recv_bytes c"
      using Suc.prems(5) by (simp_all add: frames_not_ready)
    with False ready rb Suc.prems(1,2) show ?thesis by simp
  next
    case True
    define n where "n = frame_data_size (recv_bytes c) + 4"
    define f where "f = take n (recv_bytes c)"
    define r where "r = drop n (recv_bytes c)"
    have n: "n \<le> length (recv_bytes c)" "4 < n" using True by (auto simp: frame_ready_def n_def)
    have f: "recv_bytes c = f @ r" "length f = n" using n by (simp_all add: f_def r_def)
    obtain fs' where fs': "frames r = (fs', rest)" "fs = f # fs'"
      using Suc.prems(5) True
      by (auto simp: frames.simps[of "recv_bytes c"] Let_def n_def f_def r_def split: prod.splits)
    note df = drop_frame_step[OF Suc.prems(1,2) f(1)]
    let ?w1 = "drop_frame this (length f) w"
    obtain c1 where c1: "clients ?w1 this = Some c1" "recv_bytes c1 = r" using df by blast
    have pm: "packet_mem (pad f)"
      using frame_fits[of "recv_bytes c"] f(2) by (intro packet_mem_pad) (simp add: n_def)
    obtain w2 where w2: "ProcessPacket os t this (pad f) ?w1 = Inr w2" "sessions_ok t w2"
      "server_frame ?w1 w2"
      using ProcessPacket_step[of t ?w1 this "pad f" os] df c1(1) pm by blast
    obtain c2 where c2: "clients w2 this = Some c2" "client_frame c1 c2"
      using server_frame_client[OF w2(3) c1(1)] .
    have r2: "recv_bytes c2 = r" using client_frame_fields(8)[OF c2(2)] c1(2) by simp
    obtain rb2 where rb2: "m_pRecvBuffer c2 = Some rb2" "buf_ok rb2" "recv_bytes c2 = contents rb2"
      using client_okE[of t c2] w2(2) c2(1) by (metis sessions_ok_def)
    have len2: "GetLength rb2 = int (length r)" using GetLength_contents[OF rb2(2)] rb2(3) r2 by simp
    have link: "link_frame w w2"
      using df server_frame_link[OF w2(3)] link_frame_trans by blast
    have on: "on_client this (read_packet (int n)) w = Inr (pad f, ?w1)" using df f(2) by simp
    have unfold: "TryProcess_loop os t (Suc fuel) this w
      = (if int (length r) > packet_length_header then TryProcess_loop os t fuel this w2 else Inr w2)"
      using Suc.prems(2) rb ready True on w2(1) c2(1) rb2(1) len2 by (simp add: n_def)
    have disp: "dispatch os t this fs w = dispatch os t this fs' w2"
      using fs'(2) w2(1) by simp
    show ?thesis
    proof (cases "2 < length r")
      case True
      have lt: "length (recv_bytes c2) < fuel" using Suc.prems(4) f n(2) r2 by simp
      have "TryProcess_loop os t fuel this w2 = dispatch os t this fs' w2
        \<and> (\<exists>w' c'. dispatch os t this fs' w2 = Inr w' \<and> sessions_ok t w' \<and> link_frame w2 w'
            \<and> clients w' this = Some c' \<and> recv_bytes c' = rest)"
        by (rule Suc.IH[OF w2(2) c2(1) _ lt]) (use True r2 fs'(1) in auto)
      with unfold disp True link show ?thesis
        by (auto simp: packet_length_header_def intro: link_frame_trans)
    next
      case False
      then have "\<not> frame_ready r" by (auto simp: frame_ready_def)
      with fs'(1) have "fs' = []" "rest = r" by (simp_all add: frames_not_ready)
      with unfold disp False link w2(2) c2(1) r2 show ?thesis
        by (auto simp: packet_length_header_def)
    qed
  qed
qed

declare TryProcess_loop.simps [simp del]

section \<open>A completed receive\<close>

text \<open>\<open>flush_this\<close> is the call at the end of \<open>TryProcessPacket\<close>.\<close>

abbreviation flush_this :: "winsock \<Rightarrow> tid \<Rightarrow> cid \<Rightarrow> server \<Rightarrow> server res" where
  "flush_this os t this w1 \<equiv> bindE (on_client this (FlushSendBuffer os t) w1) (\<lambda>(_, w2). Inr w2)"

lemma flush_this_step:
  assumes "sessions_ok t w" "bound_client w i" "clients w i = Some c"
  shows "\<exists>w' c'. flush_this os t i w = Inr w' \<and> sessions_ok t w' \<and> server_frame w w'
    \<and> clients w' i = Some c' \<and> send_bytes c' = send_bytes c \<and> recv_bytes c' = recv_bytes c
    \<and> m_isClosing c' = m_isClosing c \<and> (\<forall>j. j \<noteq> i \<longrightarrow> clients w' j = clients w j)"
proof -
  obtain n w' c' where w': "on_client i (FlushSendBuffer os t) w = Inr (n, w')" "sessions_ok t w'"
    "server_frame w w'" "clients w' i = Some c'" "send_bytes c' = send_bytes c"
    "m_isClosing c' = m_isClosing c" "\<forall>j. j \<noteq> i \<longrightarrow> clients w' j = clients w j"
    using FlushSendBuffer_step[OF assms, of os] by blast
  moreover have "client_frame c c'"
    using server_frame_client[OF w'(3) assms(3)] w'(4) by (metis option.inject)
  ultimately show ?thesis using client_frame_fields(8) by auto
qed

lemma TryProcessPacket_dispatch:
  assumes "sessions_ok t w" "bound_client w this" "clients w this = Some c"
    and "frames (recv_bytes c) = (fs, rest)"
  shows "TryProcessPacket os t this w = (if length (recv_bytes c) < 2 then Inr w
      else bindE (dispatch os t this fs w) (flush_this os t this))"
    and "\<exists>w' c'. TryProcessPacket os t this w = Inr w' \<and> sessions_ok t w' \<and> link_frame w w'
      \<and> clients w' this = Some c' \<and> recv_bytes c' = rest"
proof -
  have ok: "client_ok t c" using assms(1,3) by (simp add: sessions_ok_def)
  obtain rb where rb: "m_pRecvBuffer c = Some rb" "buf_ok rb" "recv_bytes c = contents rb"
    using client_okE[OF ok] by metis
  have len: "GetLength rb = int (length (recv_bytes c))"
    using GetLength_contents[OF rb(2)] rb(3) by simp
  show eq: "TryProcessPacket os t this w = (if length (recv_bytes c) < 2 then Inr w
      else bindE (dispatch os t this fs w) (flush_this os t this))"
    using TryProcess_loop_dispatch[OF assms(1,3) _ _ assms(4), of "Suc (length (recv_bytes c))" os]
      assms(3) rb(1) len
    by (auto simp: TryProcessPacket_def packet_length_header_def)
  show "\<exists>w' c'. TryProcessPacket os t this w = Inr w' \<and> sessions_ok t w' \<and> link_frame w w'
      \<and> clients w' this = Some c' \<and> recv_bytes c' = rest"
  proof (cases "length (recv_bytes c) < 2")
    case True
    then have "\<not> frame_ready (recv_bytes c)" by (simp add: frame_ready_def)
    with assms(4) have "rest = recv_bytes c" by (simp add: frames_not_ready)
    with True eq assms(1,3) show ?thesis by simp
  next
    case False
    then obtain w1 c1 where w1: "dispatch os t this fs w = Inr w1" "sessions_ok t w1" "link_frame w w1"
      "clients w1 this = Some c1" "recv_bytes c1 = rest"
      using TryProcess_loop_dispatch[OF assms(1,3) _ _ assms(4), of "Suc (length (recv_bytes c))" os]
      by auto
    obtain w2 c2 where "flush_this os t this w1 = Inr w2" "sessions_ok t w2" "server_frame w1 w2"
      "clients w2 this = Some c2" "recv_bytes c2 = recv_bytes c1"
      using flush_this_step[OF w1(2) link_frame_bound[OF w1(3) assms(2)] w1(4), of os] by blast
    with False eq w1 show ?thesis
      by (auto intro: link_frame_trans server_frame_link)
  qed
qed

text \<open>
  \<open>received c bs\<close>: the kernel has completed a receive of \<open>bs\<close> into the empty part of the session's
  buffer, as \<^verbatim>\<open>WSARecv\<close> promises for the range it was given.
\<close>

definition received :: "TcpClient \<Rightarrow> byte list \<Rightarrow> bool" where
  "received c bs \<longleftrightarrow> (case m_pRecvBuffer c of None \<Rightarrow> False
     | Some rb \<Rightarrow> int (length bs) \<le> GetEmptyLength rb
         \<and> mem_read (m_Buffer rb) (nat (GetEmptyPtr rb)) (length bs) = bs)"

lemma add_received_ok:
  assumes "client_ok t c" "received c bs"
  shows "\<exists>c'. add_received (int (length bs)) (c, h, tr) = Inr ((), (c', h, tr)) \<and> client_ok t c'
    \<and> client_link c c' \<and> recv_bytes c' = recv_bytes c @ bs \<and> send_bytes c' = send_bytes c
    \<and> m_isClosing c' = m_isClosing c \<and> m_RecvIoState c' = IO_CONNECTED
    \<and> m_SendIoState c' = m_SendIoState c"
proof -
  obtain rb where rb: "m_pRecvBuffer c = Some rb" "buf_ok rb" "recv_bytes c = contents rb"
    using client_okE[OF assms(1)] by metis
  have bs: "int (length bs) \<le> BUFFER_SIZE - m_Length rb"
    "take (length bs) (drop (nat (m_Length rb)) (m_Buffer rb)) = bs"
    using assms(2) rb(1) buf_okD[OF rb(2)]
    by (simp_all add: received_def GetEmptyLength_def GetEmptyPtr_def mem_read_def BUFFER_SIZE_val)
  let ?b = "ForceAddLength (i32 (int (length bs))) rb"
  have b: "?b = rb\<lparr>m_Length := m_Length rb + int (length bs)\<rparr>"
    using bs(1) buf_okD[OF rb(2)] by (simp add: ForceAddLength_def BUFFER_SIZE_val)
  have "buf_ok ?b" using bs(1) rb(2) by (simp add: b buf_ok_def)
  moreover have "contents ?b = contents rb @ bs"
    using bs(2) buf_okD[OF rb(2)]
    by (simp add: b contents_def nat_add_distrib take_add)
  ultimately show ?thesis
    using rb assms(1) unfolding add_received_def
    by (simp add: client_ok_def client_link_def recv_bytes_def send_bytes_def)
qed

lemma OnReceived_dispatch:
  assumes "sessions_ok t w" "bound_client w this" "clients w this = Some c" "received c bs"
    and "frames (recv_bytes c @ bs) = (fs, rest)"
  shows "\<exists>w1 c1 w' c'. on_client this (add_received (int (length bs))) w = Inr ((), w1)
    \<and> clients w1 this = Some c1 \<and> sessions_ok t w1 \<and> bound_client w1 this \<and> link_frame w w1
    \<and> recv_bytes c1 = recv_bytes c @ bs \<and> send_bytes c1 = send_bytes c \<and> m_isClosing c1 = m_isClosing c
    \<and> m_SendIoState c1 = m_SendIoState c \<and> calls w1 = calls w \<and> (\<forall>j. j \<noteq> this \<longrightarrow> clients w1 j = clients w j)
    \<and> OnReceived os t (int (length bs)) this w = TryProcessPacket os t this w1
    \<and> OnReceived os t (int (length bs)) this w = Inr w' \<and> sessions_ok t w' \<and> link_frame w w'
    \<and> clients w' this = Some c' \<and> recv_bytes c' = rest"
proof -
  have ok: "client_ok t c" using assms(1,3) by (simp add: sessions_ok_def)
  obtain c1 where c1: "add_received (int (length bs)) (c, heap w, calls w) = Inr ((), (c1, heap w, calls w))"
    "client_ok t c1" "client_link c c1" "recv_bytes c1 = recv_bytes c @ bs"
    "send_bytes c1 = send_bytes c" "m_isClosing c1 = m_isClosing c" "m_SendIoState c1 = m_SendIoState c"
    using add_received_ok[OF ok assms(4)] by blast
  let ?w = "w\<lparr>clients := (clients w)(this \<mapsto> c1)\<rparr>"
  have w1: "on_client this (add_received (int (length bs))) w = Inr ((), ?w)"
    using assms(3) c1(1) by (simp add: on_client_def)
  note l1 = set_client_link[OF assms(3) c1(3)]
  note s1 = set_client_ok[OF assms(1,3) c1(3,2)]
  have cl: "clients ?w this = Some c1" by simp
  have bnd: "bound_client ?w this" by (rule link_frame_bound[OF l1 assms(2)])
  have fr: "frames (recv_bytes c1) = (fs, rest)" using assms(5) c1(4) by simp
  obtain w' c' where w': "TryProcessPacket os t this ?w = Inr w'" "sessions_ok t w'" "link_frame ?w w'"
    "clients w' this = Some c'" "recv_bytes c' = rest"
    using TryProcessPacket_dispatch(2)[OF s1 bnd cl fr, of os] by blast
  have eq: "OnReceived os t (int (length bs)) this w = TryProcessPacket os t this ?w"
    by (simp add: OnReceived_def w1)
  show ?thesis
    by (rule exI[of _ ?w], rule exI[of _ c1], rule exI[of _ w'], rule exI[of _ c'])
      (use w1 s1 bnd l1 c1 eq w' link_frame_trans[OF l1 w'(3)] in auto)
qed

end
