(* ===== verification/Packet_Effects.thy ===== *)
theory Packet_Effects
  imports Stream_Framing
begin

text \<open>
  What \<^verbatim>\<open>TcpClient::ProcessPacket\<close> does to the sessions' send buffers: an echo goes back to the
  sender, a broadcast to every listed session that is not closing; and what a client of the echo
  service sees when its packets arrive in pieces.
\<close>

section \<open>Writing a packet into one session\<close>

definition frame_of :: "byte list \<Rightarrow> byte list" where
  "frame_of pkt = take (frame_data_size pkt + 4) pkt"

definition has_room :: "TcpClient \<Rightarrow> byte list \<Rightarrow> bool" where
  "has_room c pkt \<longleftrightarrow> length (send_bytes c) + length (frame_of pkt) \<le> nat BUFFER_SIZE"

lemma packet_mem_frame:
  assumes "packet_mem pkt"
  shows "packet_dataSize pkt = Inr (bytes_word16 (pkt ! 0) (pkt ! 1))"
    "length (frame_of pkt) = frame_data_size pkt + 4"
proof -
  obtain b0 b1 b2 b3 rest where pkt: "pkt = b0 # b1 # b2 # b3 # rest"
    using packet_mem_Cons[OF assms] .
  then show "packet_dataSize pkt = Inr (bytes_word16 (pkt ! 0) (pkt ! 1))"
    by (simp add: packet_dataSize_def)
  show "length (frame_of pkt) = frame_data_size pkt + 4"
    using frame_fits[of pkt] assms by (simp add: frame_of_def packet_mem_def)
qed

lemma write_room_step:
  assumes "sessions_ok t w" "clients w i = Some c" "packet_mem pkt" "has_room c pkt"
  shows "\<exists>n w' c'. on_client i (WriteSendBuffer t (Some pkt)) w = Inr (n, w') \<and> 0 \<le> n
    \<and> sessions_ok t w' \<and> server_frame w w' \<and> clients w' i = Some c' \<and> calls w' = calls w
    \<and> (\<forall>j. j \<noteq> i \<longrightarrow> clients w' j = clients w j)
    \<and> send_bytes c' = send_bytes c @ frame_of pkt \<and> m_isClosing c' = m_isClosing c \<and> m_SendIoState c' = m_SendIoState c"
proof -
  have ok: "client_ok t c" using assms(1,2) by (simp add: sessions_ok_def)
  note pm = packet_mem_frame[OF assms(3)]
  let ?n = "bytes_word16 (pkt ! 0) (pkt ! 1)"
  have n: "unat ?n = frame_data_size pkt" by (simp add: frame_data_size_def)
  have fit: "unat ?n + 4 \<le> length pkt" "length (send_bytes c) + unat ?n + 4 \<le> nat BUFFER_SIZE"
    using frame_fits[of pkt] assms(3,4) pm(2) n by (simp_all add: packet_mem_def has_room_def)
  obtain sb where sb: "WriteSendBuffer t (Some pkt) (c, heap w, calls w)
      = Inr (int (unat ?n) + 4, (c\<lparr>m_pSendBuffer := Some sb\<rparr>, heap w, calls w))"
    "buf_ok sb" "contents sb = send_bytes c @ frame_of pkt"
    using WriteSendBuffer_fits[OF ok pm(1) fit, of "heap w" "calls w"] n by (auto simp: frame_of_def)
  let ?c = "c\<lparr>m_pSendBuffer := Some sb\<rparr>"
  obtain w' where w': "on_client i (WriteSendBuffer t (Some pkt)) w = Inr (int (unat ?n) + 4, w')"
    "sessions_ok t w'" "server_frame w w'" "clients w' i = Some ?c" "calls w' = calls w"
    "\<forall>j. j \<noteq> i \<longrightarrow> clients w' j = clients w j"
    using on_client_frame[where f = "WriteSendBuffer t (Some pkt)", OF assms(1,2) sb(1)]
      client_ok_upd_send(1)[OF ok sb(2)] by (auto simp: client_frame_upd)
  show ?thesis
    by (rule exI[of _ "int (unat ?n) + 4"], rule exI[of _ w'], rule exI[of _ ?c])
      (use w' sb(3) in simp)
qed

section \<open>Echo\<close>

definition echo_packet :: "byte list \<Rightarrow> bool" where
  "echo_packet pkt \<longleftrightarrow> packet_checkSum pkt = Inr 0x55 \<and> packet_flag pkt = Inr 0x01"

lemma ProcessPacket_echo_step:
  assumes "sessions_ok t w" "clients w this = Some c" "packet_mem pkt" "echo_packet pkt" "has_room c pkt"
  shows "\<exists>w' c'. ProcessPacket os t this pkt w = Inr w' \<and> sessions_ok t w' \<and> server_frame w w'
    \<and> clients w' this = Some c' \<and> calls w' = calls w \<and> (\<forall>j. j \<noteq> this \<longrightarrow> clients w' j = clients w j)
    \<and> send_bytes c' = send_bytes c @ frame_of pkt \<and> m_isClosing c' = m_isClosing c \<and> m_SendIoState c' = m_SendIoState c"
proof -
  obtain n w' c' where w': "on_client this (WriteSendBuffer t (Some pkt)) w = Inr (n, w')" "0 \<le> n"
    "sessions_ok t w'" "server_frame w w'" "clients w' this = Some c'" "calls w' = calls w"
    "\<forall>j. j \<noteq> this \<longrightarrow> clients w' j = clients w j"
    "send_bytes c' = send_bytes c @ frame_of pkt" "m_isClosing c' = m_isClosing c" "m_SendIoState c' = m_SendIoState c"
    using write_room_step[OF assms(1,2,3,5)] by blast
  moreover have "ProcessPacket os t this pkt w = Inr w'"
    using assms(4) w'(1,2) by (simp add: ProcessPacket_def echo_packet_def)
  ultimately show ?thesis by blast
qed

lemma wire_frame_echo: "flag p = 0x01 \<Longrightarrow> checkSum p = 0x55 \<Longrightarrow> echo_packet (wire_frame p)"
  by (simp add: echo_packet_def wire_frame_split word16_bytes_def packet_checkSum_def packet_flag_def)

lemma pad_fields:
  assumes "4 \<le> length f"
  shows "packet_checkSum (pad f) = packet_checkSum f" "packet_flag (pad f) = packet_flag f"
    "frame_data_size (pad f) = frame_data_size f"
proof -
  obtain b0 xs where "f = b0 # xs" "3 \<le> length xs" using assms by (cases f) auto
  moreover from this(2) obtain b1 ys where "xs = b1 # ys" "2 \<le> length ys" by (cases xs) auto
  moreover from this(2) obtain b2 zs where "ys = b2 # zs" "1 \<le> length zs" by (cases ys) auto
  moreover from this(2) obtain b3 rest where "zs = b3 # rest" by (cases zs) auto
  ultimately have f: "f = b0 # b1 # b2 # b3 # rest" by simp
  show "packet_checkSum (pad f) = packet_checkSum f" "packet_flag (pad f) = packet_flag f"
    by (simp_all add: f pad_def packet_checkSum_def packet_flag_def)
  show "frame_data_size (pad f) = frame_data_size f"
    using assms by (simp add: pad_def)
qed

text \<open>\<open>whole_frame f\<close>: \<open>f\<close> is one complete frame.\<close>

definition whole_frame :: "byte list \<Rightarrow> bool" where
  "whole_frame f \<longleftrightarrow> length f = frame_data_size f + 4"

lemma whole_frame_of_pad: "whole_frame f \<Longrightarrow> frame_of (pad f) = f"
  by (simp add: whole_frame_def frame_of_def pad_fields) (simp add: pad_def)

lemma whole_frame_mem: "whole_frame f \<Longrightarrow> packet_mem (pad f)"
  using frame_fits[of f] by (intro packet_mem_pad) (simp add: whole_frame_def)

lemma frames_whole:
  "frames bs = (fs, rest) \<Longrightarrow> f \<in> set fs \<Longrightarrow> whole_frame f"
proof (induction bs arbitrary: fs rest rule: frames.induct)
  case (1 bs)
  show ?case
  proof (cases "frame_ready bs")
    case True
    let ?n = "frame_data_size bs + 4"
    obtain fs' where fs': "frames (drop ?n bs) = (fs', rest)" "fs = take ?n bs # fs'"
      using "1.prems"(1) True by (auto simp: frames.simps[of bs] Let_def split: prod.splits)
    have "whole_frame (take ?n bs)"
      using True by (simp add: whole_frame_def frame_ready_def frame_data_size_def)
    with 1(1)[OF True refl fs'(1)] fs'(2) "1.prems"(2) show ?thesis by auto
  next
    case False
    with 1 show ?thesis by (simp add: frames_not_ready)
  qed
qed

text \<open>Dispatching echo frames appends them to the sender's send buffer.\<close>

lemma dispatch_echo:
  assumes "sessions_ok t w" "clients w this = Some c" "recv_bytes c = concat fs @ rest"
    and "\<forall>f\<in>set fs. whole_frame f \<and> echo_packet f"
    and "length (send_bytes c) + length (concat fs) \<le> nat BUFFER_SIZE"
  shows "\<exists>w' c'. dispatch os t this fs w = Inr w' \<and> sessions_ok t w' \<and> link_frame w w'
    \<and> clients w' this = Some c' \<and> recv_bytes c' = rest \<and> send_bytes c' = send_bytes c @ concat fs
    \<and> m_isClosing c' = m_isClosing c \<and> m_SendIoState c' = m_SendIoState c \<and> calls w' = calls w"
  using assms
proof (induction fs arbitrary: w c)
  case Nil
  then show ?case by simp
next
  case (Cons f fs)
  have f: "whole_frame f" "echo_packet f" using Cons.prems(4) by auto
  have f4: "4 \<le> length f" using f(1) by (simp add: whole_frame_def)
  have rc: "recv_bytes c = f @ (concat fs @ rest)" using Cons.prems(3) by simp
  let ?w1 = "drop_frame this (length f) w"
  obtain c1 where c1: "sessions_ok t ?w1" "link_frame w ?w1" "clients ?w1 this = Some c1"
    "recv_bytes c1 = concat fs @ rest" "send_bytes c1 = send_bytes c" "m_isClosing c1 = m_isClosing c"
    "m_SendIoState c1 = m_SendIoState c" "calls ?w1 = calls w"
    using drop_frame_step[OF Cons.prems(1,2) rc] by blast
  have e: "echo_packet (pad f)" using f(2) f4 by (simp add: echo_packet_def pad_fields)
  have room: "has_room c1 (pad f)"
    using Cons.prems(5) c1(5) by (simp add: has_room_def whole_frame_of_pad[OF f(1)])
  obtain w2 c2 where w2: "ProcessPacket os t this (pad f) ?w1 = Inr w2" "sessions_ok t w2"
    "server_frame ?w1 w2" "clients w2 this = Some c2" "send_bytes c2 = send_bytes c1 @ f"
    "m_isClosing c2 = m_isClosing c1" "m_SendIoState c2 = m_SendIoState c1" "calls w2 = calls ?w1"
    using ProcessPacket_echo_step[OF c1(1,3) whole_frame_mem[OF f(1)] e room, of os]
    by (auto simp: whole_frame_of_pad[OF f(1)])
  have r2: "recv_bytes c2 = concat fs @ rest"
    using server_frame_client[OF w2(3) c1(3)] w2(4) c1(4) client_frame_fields(8)
    by (metis option.inject)
  obtain w' c' where w': "dispatch os t this fs w2 = Inr w'" "sessions_ok t w'" "link_frame w2 w'"
    "clients w' this = Some c'" "recv_bytes c' = rest" "send_bytes c' = send_bytes c2 @ concat fs"
    "m_isClosing c' = m_isClosing c2" "m_SendIoState c' = m_SendIoState c2" "calls w' = calls w2"
    using Cons.IH[OF w2(2,4) r2] Cons.prems(4,5) w2(5) c1(5) by auto
  have "link_frame w w'"
    using link_frame_trans[OF link_frame_trans[OF c1(2) server_frame_link[OF w2(3)]] w'(3)] .
  with w' w2 c1 show ?case by auto
qed

section \<open>A stream that arrives in pieces\<close>

text \<open>
  \<open>kernel_fill\<close> is the effect of a completed \<^verbatim>\<open>WSARecv\<close> on the buffer it was given; \<open>receive_all\<close>
  is a sequence of such completions, each followed by the call of \<^verbatim>\<open>OnReceived\<close>.
\<close>

definition kernel_fill :: "cid \<Rightarrow> byte list \<Rightarrow> server \<Rightarrow> server" where
  "kernel_fill i bs w = (case clients w i of None \<Rightarrow> w | Some c \<Rightarrow>
     (case m_pRecvBuffer c of None \<Rightarrow> w | Some rb \<Rightarrow>
        w\<lparr>clients := (clients w)(i \<mapsto> c\<lparr>m_pRecvBuffer :=
          Some (rb\<lparr>m_Buffer := mem_write (m_Buffer rb) (nat (GetEmptyPtr rb)) bs\<rparr>)\<rparr>)\<rparr>))"

fun receive_all :: "winsock \<Rightarrow> tid \<Rightarrow> cid \<Rightarrow> byte list list \<Rightarrow> server \<Rightarrow> server res" where
  "receive_all os t this [] w = Inr w"
| "receive_all os t this (bs # bss) w =
     bindE (OnReceived os t (int (length bs)) this (kernel_fill this bs w)) (receive_all os t this bss)"

lemma kernel_fill_step:
  assumes "sessions_ok t w" "clients w i = Some c" "length (recv_bytes c) + length bs \<le> nat BUFFER_SIZE"
  shows "sessions_ok t (kernel_fill i bs w) \<and> link_frame w (kernel_fill i bs w)
    \<and> (\<exists>c'. clients (kernel_fill i bs w) i = Some c' \<and> received c' bs \<and> recv_bytes c' = recv_bytes c
        \<and> send_bytes c' = send_bytes c \<and> m_isClosing c' = m_isClosing c
        \<and> m_RecvIoState c' = m_RecvIoState c \<and> m_SendIoState c' = m_SendIoState c)
    \<and> calls (kernel_fill i bs w) = calls w"
proof -
  have ok: "client_ok t c" using assms(1,2) by (simp add: sessions_ok_def)
  obtain rb where rb: "m_pRecvBuffer c = Some rb" "buf_ok rb" "recv_bytes c = contents rb"
    using client_okE[OF ok] by metis
  let ?rb = "rb\<lparr>m_Buffer := mem_write (m_Buffer rb) (nat (GetEmptyPtr rb)) bs\<rparr>"
  let ?c = "c\<lparr>m_pRecvBuffer := Some ?rb\<rparr>"
  have fit: "nat (m_Length rb) + length bs \<le> length (m_Buffer rb)"
    using assms(3) rb(2,3) buf_okD[OF rb(2)] by (simp add: length_contents)
  have "buf_ok ?rb" using rb(2) fit by (simp add: buf_ok_def GetEmptyPtr_def)
  moreover have "contents ?rb = contents rb"
    using fit by (simp add: contents_def GetEmptyPtr_def)
  moreover have "int (length bs) \<le> GetEmptyLength ?rb"
    using fit buf_okD[OF rb(2)] by (simp add: GetEmptyLength_def BUFFER_SIZE_val)
  moreover have "mem_read (m_Buffer ?rb) (nat (GetEmptyPtr ?rb)) (length bs) = bs"
    using fit by (simp add: GetEmptyPtr_def)
  ultimately have c: "client_ok t ?c" "client_link c ?c" "received ?c bs" "recv_bytes ?c = recv_bytes c"
    "send_bytes ?c = send_bytes c"
    using ok rb by (simp_all add: client_ok_def client_link_def received_def recv_bytes_def send_bytes_def)
  have "kernel_fill i bs w = w\<lparr>clients := (clients w)(i \<mapsto> ?c)\<rparr>"
    using assms(2) rb(1) by (simp add: kernel_fill_def)
  with set_client_ok[OF assms(1,2) c(2,1)] set_client_link[OF assms(2) c(2)] c show ?thesis by simp
qed

text \<open>One completion of echo frames.\<close>

lemma OnReceived_echo:
  assumes "sessions_ok t w" "bound_client w this" "clients w this = Some c" "received c bs"
    and fr: "frames (recv_bytes c @ bs) = (fs, rest)" and echo: "\<forall>f\<in>set fs. echo_packet f"
    and room: "length (send_bytes c) + length (concat fs) \<le> nat BUFFER_SIZE"
  shows "\<exists>w' c'. OnReceived os t (int (length bs)) this w = Inr w' \<and> sessions_ok t w' \<and> link_frame w w'
    \<and> clients w' this = Some c' \<and> recv_bytes c' = rest \<and> send_bytes c' = send_bytes c @ concat fs
    \<and> m_isClosing c' = m_isClosing c"
proof -
  obtain w1 c1 where w1: "clients w1 this = Some c1" "sessions_ok t w1" "bound_client w1 this"
    "link_frame w w1" "recv_bytes c1 = recv_bytes c @ bs" "send_bytes c1 = send_bytes c"
    "m_isClosing c1 = m_isClosing c"
    "OnReceived os t (int (length bs)) this w = TryProcessPacket os t this w1"
    using OnReceived_dispatch[OF assms(1-4) fr, of os] by metis
  have fr1: "frames (recv_bytes c1) = (fs, rest)" using fr w1(5) by simp
  note tp = TryProcessPacket_dispatch(1)[OF w1(2,3,1) fr1, of os]
  show ?thesis
  proof (cases "length (recv_bytes c1) < 2")
    case True
    then have "\<not> frame_ready (recv_bytes c1)" by (simp add: frame_ready_def)
    with fr1 have "fs = []" "rest = recv_bytes c1" by (simp_all add: frames_not_ready)
    with True tp w1 show ?thesis by auto
  next
    case False
    have "\<forall>f\<in>set fs. whole_frame f \<and> echo_packet f" using echo frames_whole[OF fr1] by blast
    then obtain w2 c2 where w2: "dispatch os t this fs w1 = Inr w2" "sessions_ok t w2" "link_frame w1 w2"
      "clients w2 this = Some c2" "recv_bytes c2 = rest" "send_bytes c2 = send_bytes c1 @ concat fs"
      "m_isClosing c2 = m_isClosing c1"
      using dispatch_echo[OF w1(2,1), of fs rest os] frames_concat[OF fr1] room w1(6) by auto
    obtain w3 c3 where w3: "flush_this os t this w2 = Inr w3" "sessions_ok t w3" "server_frame w2 w3"
      "clients w3 this = Some c3" "send_bytes c3 = send_bytes c2" "recv_bytes c3 = recv_bytes c2"
      "m_isClosing c3 = m_isClosing c2"
      using flush_this_step[OF w2(2) link_frame_bound[OF w2(3) w1(3)] w2(4), of os] by blast
    have "link_frame w w3"
      using link_frame_trans[OF link_frame_trans[OF w1(4) w2(3)] server_frame_link[OF w3(3)]] .
    with False tp w1 w2 w3 show ?thesis by auto
  qed
qed

lemma receive_all_echo:
  assumes "sessions_ok t w" "bound_client w this" "clients w this = Some c"
    and "\<not> frame_ready (recv_bytes c)"
    and "frames (recv_bytes c @ concat bss) = (gs, rest)" "\<forall>f\<in>set gs. echo_packet f"
    and "length (recv_bytes c) + length (concat bss) \<le> nat BUFFER_SIZE"
    and "length (send_bytes c) + length (concat gs) \<le> nat BUFFER_SIZE"
  shows "\<exists>w' c'. receive_all os t this bss w = Inr w' \<and> sessions_ok t w' \<and> link_frame w w'
    \<and> clients w' this = Some c' \<and> recv_bytes c' = rest \<and> send_bytes c' = send_bytes c @ concat gs
    \<and> m_isClosing c' = m_isClosing c"
  using assms
proof (induction bss arbitrary: w c gs)
  case Nil
  then show ?case by (simp add: frames_not_ready)
next
  case (Cons bs bss)
  let ?k = "kernel_fill this bs w"
  obtain c1 where c1: "sessions_ok t ?k" "link_frame w ?k" "clients ?k this = Some c1" "received c1 bs"
    "recv_bytes c1 = recv_bytes c" "send_bytes c1 = send_bytes c" "m_isClosing c1 = m_isClosing c"
    using kernel_fill_step[OF Cons.prems(1,3), of bs] Cons.prems(7) by auto
  obtain fs r where fs: "frames (recv_bytes c @ bs) = (fs, r)" by fastforce
  obtain gs' where gs': "frames (r @ concat bss) = (gs', rest)" "gs = fs @ gs'"
    using frames_append[of "recv_bytes c @ bs" "concat bss"] fs Cons.prems(5)
    by (auto split: prod.splits)
  have lr: "length r \<le> length (recv_bytes c) + length bs"
    using frames_concat[OF fs] by (metis length_append le_add2)
  obtain w2 c2 where w2: "OnReceived os t (int (length bs)) this ?k = Inr w2" "sessions_ok t w2"
    "link_frame ?k w2" "clients w2 this = Some c2" "recv_bytes c2 = r"
    "send_bytes c2 = send_bytes c @ concat fs" "m_isClosing c2 = m_isClosing c"
    using OnReceived_echo[OF c1(1) link_frame_bound[OF c1(2) Cons.prems(2)] c1(3,4), of fs r os]
      fs Cons.prems(6,8) gs'(2) c1(5-7) by auto
  have l2: "link_frame w w2" using link_frame_trans[OF c1(2) w2(3)] .
  obtain w' c' where w': "receive_all os t this bss w2 = Inr w'" "sessions_ok t w'" "link_frame w2 w'"
    "clients w' this = Some c'" "recv_bytes c' = rest" "send_bytes c' = send_bytes c2 @ concat gs'"
    "m_isClosing c' = m_isClosing c2"
    using Cons.IH[OF w2(2) link_frame_bound[OF l2 Cons.prems(2)] w2(4), of gs'] gs' w2(5,6) lr
      frames_rest_stuck[OF fs] Cons.prems(6-8) by auto
  with w2 link_frame_trans[OF l2 w'(3)] gs' show ?case by auto
qed

section \<open>Broadcast\<close>

text \<open>What a session's send buffer gains from a broadcast over the pointers \<open>ps\<close>.\<close>

definition gain :: "byte list \<Rightarrow> cid option list \<Rightarrow> cid \<Rightarrow> TcpClient \<Rightarrow> byte list" where
  "gain pkt ps i c = (if Some i \<in> set ps \<and> \<not> m_isClosing c then frame_of pkt else [])"

lemma broadcast_delivers:
  assumes "sessions_ok t w" "clients w this \<noteq> None" "packet_mem pkt" "distinct ps"
    and "\<forall>p\<in>set ps. \<exists>i. p = Some i \<and> bound_client w i"
    and "\<And>i c. Some i \<in> set ps \<Longrightarrow> clients w i = Some c \<Longrightarrow> \<not> m_isClosing c \<Longrightarrow> has_room c pkt"
  shows "\<exists>w'. broadcast os t this pkt ps w = Inr w' \<and> sessions_ok t w' \<and> server_frame w w'
    \<and> (\<forall>i c. clients w i = Some c \<longrightarrow> (\<exists>c'. clients w' i = Some c' \<and> m_isClosing c' = m_isClosing c
         \<and> send_bytes c' = send_bytes c @ gain pkt ps i c))"
  using assms
proof (induction ps arbitrary: w)
  case Nil
  then show ?case by (simp add: gain_def)
next
  case (Cons p ps)
  then obtain i where i0: "p = Some i" "bound_client w i" by auto
  then obtain c where ci: "clients w i = Some c" by (auto simp: bound_client_def)
  note v = IsValid_step[OF Cons.prems(1) ci]
  show ?case
  proof (cases "m_isClosing c")
    case True
    obtain w' where w': "broadcast os t this pkt ps w = Inr w'" "sessions_ok t w'" "server_frame w w'"
      "\<forall>i c. clients w i = Some c \<longrightarrow> (\<exists>c'. clients w' i = Some c' \<and> m_isClosing c' = m_isClosing c
         \<and> send_bytes c' = send_bytes c @ gain pkt ps i c)"
      using Cons.IH[OF Cons.prems(1-3)] Cons.prems(4-6) by auto
    have "gain pkt (p # ps) j d = gain pkt ps j d" if "clients w j = Some d" for j d
      using that True ci i0(1) by (auto simp: gain_def)
    with w' v True i0(1) show ?thesis by auto
  next
    case False
    have room: "has_room c pkt" using Cons.prems(6)[of i c] i0(1) ci False by simp
    obtain n w2 c2 where w2: "on_client i (WriteSendBuffer t (Some pkt)) w = Inr (n, w2)" "0 \<le> n"
      "sessions_ok t w2" "server_frame w w2" "clients w2 i = Some c2"
      "\<forall>j. j \<noteq> i \<longrightarrow> clients w2 j = clients w j"
      "send_bytes c2 = send_bytes c @ frame_of pkt" "m_isClosing c2 = m_isClosing c"
      using write_room_step[OF Cons.prems(1) ci Cons.prems(3) room] by blast
    obtain r w3 c3 where w3: "on_client i (FlushSendBuffer os t) w2 = Inr (r, w3)" "sessions_ok t w3"
      "server_frame w2 w3" "clients w3 i = Some c3" "send_bytes c3 = send_bytes c2"
      "m_isClosing c3 = m_isClosing c2" "\<forall>j. j \<noteq> i \<longrightarrow> clients w3 j = clients w2 j"
      using FlushSendBuffer_step[OF w2(3) server_frame_bound[OF w2(4) i0(2)] w2(5), of os] by blast
    note fr = server_frame_trans[OF w2(4) w3(3)]
    have oth: "clients w3 j = clients w j" if "j \<noteq> i" for j using that w2(6) w3(7) by simp
    have this3: "clients w3 this \<noteq> None"
      using Cons.prems(2) oth[of this] w3(4) by (cases "this = i") auto
    have bnd: "\<forall>p\<in>set ps. \<exists>i. p = Some i \<and> bound_client w3 i"
      using Cons.prems(5) server_frame_bound[OF fr] by (metis list.set_intros(2))
    have notin: "Some i \<notin> set ps" using Cons.prems(4) i0(1) by simp
    have room3: "has_room d pkt" if "Some j \<in> set ps" "clients w3 j = Some d" "\<not> m_isClosing d" for j d
    proof -
      have "j \<noteq> i" using that(1) notin by auto
      with oth that Cons.prems(6)[of j d] show ?thesis by simp
    qed
    obtain w' where w': "broadcast os t this pkt ps w3 = Inr w'" "sessions_ok t w'" "server_frame w3 w'"
      "\<forall>i c. clients w3 i = Some c \<longrightarrow> (\<exists>c'. clients w' i = Some c' \<and> m_isClosing c' = m_isClosing c
         \<and> send_bytes c' = send_bytes c @ gain pkt ps i c)"
      using Cons.IH[OF w3(2) this3 Cons.prems(3) _ bnd] room3 Cons.prems(4) by auto
    have "\<exists>c'. clients w' j = Some c' \<and> m_isClosing c' = m_isClosing d
        \<and> send_bytes c' = send_bytes d @ gain pkt (p # ps) j d" if "clients w j = Some d" for j d
    proof (cases "j = i")
      case True
      then have "d = c" using that ci by simp
      moreover obtain c' where "clients w' i = Some c'" "m_isClosing c' = m_isClosing c3"
        "send_bytes c' = send_bytes c3 @ gain pkt ps i c3"
        using w'(4) w3(4) by blast
      ultimately show ?thesis
        using True notin w3(5,6) w2(7,8) False i0(1) by (simp add: gain_def)
    next
      case False
      then have "clients w3 j = Some d" using oth that by simp
      with w'(4) False i0(1) show ?thesis by (simp add: gain_def)
    qed
    moreover have "broadcast os t this pkt (p # ps) w = Inr w'"
      using v False i0(1) w2(1,2) w3(1) w'(1) by simp
    ultimately show ?thesis using w'(2) server_frame_trans[OF fr w'(3)] by blast
  qed
qed

text \<open>The first listed session without room ends the broadcast and costs the sender its session.\<close>

lemma broadcast_full_step:
  assumes "sessions_ok t w" "clients w this = Some s" "clients w i = Some c" "packet_mem pkt"
    and "\<not> m_isClosing c" "\<not> has_room c pkt"
  shows "\<exists>w'. broadcast os t this pkt (Some i # ps) w = Inr w' \<and> sessions_ok t w' \<and> server_frame w w'
    \<and> clients w' this = Some (s\<lparr>m_isClosing := True\<rparr>)
    \<and> (\<forall>j. j \<noteq> this \<longrightarrow> clients w' j = clients w j)"
proof -
  have ok: "client_ok t c" using assms(1,3) by (simp add: sessions_ok_def)
  note pm = packet_mem_frame[OF assms(4)]
  have full: "nat BUFFER_SIZE < length (send_bytes c) + unat (bytes_word16 (pkt ! 0) (pkt ! 1)) + 4"
    using assms(6) pm(2) by (simp add: has_room_def frame_data_size_def)
  have "on_client i (WriteSendBuffer t (Some pkt)) w = Inr (-1, w)"
    using WriteSendBuffer_full[OF ok pm(1) full] assms(3) by (simp add: on_client_def fun_upd_idem)
  with IsValid_step[OF assms(1,3)] assms(5)
  have "broadcast os t this pkt (Some i # ps) w = close_after_failed_write (-1) this w" by simp
  with close_after_failed_write_step[OF assms(1,2), of "-1"] show ?thesis by auto
qed

end
