(* ===== verification/Listen_Iocp.thy ===== *)
theory Listen_Iocp
  imports Win_Api
begin

text \<open>
  The listening socket (\<^verbatim>\<open>IocpServer/src/socket/TcpServer.cpp\<close>) and the completion port
  (\<^verbatim>\<open>IocpServer/src/iocp/Iocp.cpp\<close>). Both are thin layers over the system calls; what matters is
  which calls they make, in which order, and what they report.
\<close>

section \<open>TcpServer\<close>

record TcpServer =
  ls_Socket :: SOCKET
  ls_SocketAddr :: SOCKADDR_IN

text \<open>The class leaves both members uninitialised; the model starts from an arbitrary object.\<close>

definition Bind :: "winsock \<Rightarrow> 16 word \<Rightarrow> TcpServer \<times> trace \<Rightarrow> SOCKET \<times> TcpServer \<times> trace" where
  "Bind os listenPort = (\<lambda>(s, tr).
     let sock = socket_ret os tr; tr1 = tr @ [socket_call]; s1 = s\<lparr>ls_Socket := sock\<rparr>
     in if sock = INVALID_SOCKET then (INVALID_SOCKET, s1, tr1)
        else
          let addr = \<lparr>sin_family = AF_INET, sin_port = htons listenPort, s_addr = 0\<rparr>;
              s2 = s1\<lparr>ls_SocketAddr := addr\<rparr>;
              bindResult = bind_ret os tr1 sock addr;
              tr2 = tr1 @ [bind_call sock addr];
              tr3 = (if bindResult = SOCKET_ERROR then tr2 @ [printf_call ''bind failed with error'']
                     else tr2);
              result = listen_ret os tr3 sock;
              tr4 = tr3 @ [listen_call sock]
          in if result = SOCKET_ERROR
             then (INVALID_SOCKET, s2, tr4 @ [printf_call ''listen failed with error''])
             else (sock, s2, tr4))"

definition TcpServer_AcceptEx ::
  "winsock \<Rightarrow> SOCKET \<Rightarrow> nat option \<Rightarrow> TcpServer \<times> trace \<Rightarrow> bool \<times> TcpServer \<times> trace" where
  "TcpServer_AcceptEx os acceptSocket overlapped = (\<lambda>(s, tr).
     (fst (AcceptEx_ret os tr (ls_Socket s) acceptSocket), s,
      tr @ [AcceptEx_call (ls_Socket s) acceptSocket overlapped, printf_call ''reg clientSocket'']))"

definition Accept ::
  "winsock \<Rightarrow> TcpServer \<times> trace \<Rightarrow> (SOCKET \<times> SOCKADDR_IN) \<times> TcpServer \<times> trace" where
  "Accept os = (\<lambda>(s, tr).
     let r = accept_ret os tr (ls_Socket s);
         tr1 = tr @ [accept_call (ls_Socket s)];
         tr2 = (if fst r = INVALID_SOCKET then tr1 @ [printf_call ''accept failed with error''] else tr1)
     in (r, s, tr2))"

definition TcpServer_Close :: "TcpServer \<times> trace \<Rightarrow> TcpServer \<times> trace" where
  "TcpServer_Close = (\<lambda>(s, tr). (s, tr @ [closesocket_call (ls_Socket s)]))"

definition TcpServer_GetSocket :: "TcpServer \<Rightarrow> SOCKET" where
  "TcpServer_GetSocket s = ls_Socket s"

section \<open>CIocp\<close>

record CIocp =
  m_iocpHandle :: int

definition INVALID_HANDLE_VALUE :: int where
  "INVALID_HANDLE_VALUE = -1"

fun start_threads :: "winsock \<Rightarrow> nat \<Rightarrow> int \<Rightarrow> trace \<Rightarrow> int \<times> trace" where
  "start_threads os 0 port tr = (0, tr)"
| "start_threads os (Suc n) port tr =
     (let hThread = beginthreadex_ret os tr; tr1 = tr @ [beginthreadex_call port]
      in if hThread = 0 then (-2, tr1)
         else start_threads os n port (tr1 @ [CloseHandle_call hThread]))"

definition StartIocpThread :: "winsock \<Rightarrow> nat \<Rightarrow> CIocp \<times> trace \<Rightarrow> int \<times> CIocp \<times> trace" where
  "StartIocpThread os numberOfThread = (\<lambda>(c, tr).
     let iocpHandle = CreateIoCompletionPort_ret os tr INVALID_HANDLE_VALUE 0 0;
         tr1 = tr @ [CreateIoCompletionPort_call INVALID_HANDLE_VALUE 0 0]
     in if iocpHandle = 0 then (-1, c, tr1)
        else let c1 = c\<lparr>m_iocpHandle := iocpHandle\<rparr>;
                 (r, tr2) = start_threads os numberOfThread iocpHandle tr1
             in (r, c1, tr2))"

definition BindSocket :: "winsock \<Rightarrow> SOCKET \<Rightarrow> int \<Rightarrow> CIocp \<times> trace \<Rightarrow> int \<times> CIocp \<times> trace" where
  "BindSocket os socket completionKey = (\<lambda>(c, tr).
     let hResult = CreateIoCompletionPort_ret os tr socket (m_iocpHandle c) completionKey;
         tr1 = tr @ [CreateIoCompletionPort_call socket (m_iocpHandle c) completionKey]
     in if hResult = 0 then (-1, c, tr1) else (0, c, tr1))"

section \<open>What they report\<close>

fun thread_call :: "os_call \<Rightarrow> bool" where
  "thread_call (beginthreadex_call _) = True"
| "thread_call _ = False"

lemma start_threads_all:
  assumes "\<And>tr. beginthreadex_ret os tr \<noteq> 0"
  shows "\<exists>cs. start_threads os n port tr = (0, tr @ cs) \<and> length (filter thread_call cs) = n"
proof (induction n arbitrary: tr)
  case 0
  then show ?case by simp
next
  case (Suc n)
  let ?tr = "tr @ [beginthreadex_call port, CloseHandle_call (beginthreadex_ret os tr)]"
  obtain cs where "start_threads os n port ?tr = (0, ?tr @ cs)" "length (filter thread_call cs) = n"
    using Suc[of ?tr] by blast
  then show ?case
    using assms[of tr] by (simp add: Let_def)
qed

lemma start_threads_result: "fst (start_threads os n port tr) \<in> {0, -2}"
  by (induction n arbitrary: tr) (simp_all add: Let_def)

lemma start_threads_appends: "\<exists>cs. snd (start_threads os n port tr) = tr @ cs"
proof (induction n arbitrary: tr)
  case (Suc n)
  let ?tr = "tr @ [beginthreadex_call port, CloseHandle_call (beginthreadex_ret os tr)]"
  obtain cs where "snd (start_threads os n port ?tr) = ?tr @ cs" using Suc[of ?tr] by blast
  then show ?case by (simp add: Let_def)
qed simp

end
