(* ===== verification/Network_Core.thy ===== *)
theory Network_Core
  imports Packet_Effects Listen_Iocp
begin

text \<open>
  \<^verbatim>\<open>IocpServer/src/network/network.cpp\<close> and \<^verbatim>\<open>main.cpp\<close>: opening and closing sessions, one
  iteration of the worker thread, and the start-up and accept loop of the main thread.
\<close>

section \<open>Operations on the globals\<close>

definition on_recv_pool :: "(pool_state \<Rightarrow> ('a \<times> pool_state) res) \<Rightarrow> server \<Rightarrow> ('a \<times> server) res" where
  "on_recv_pool f w = bindE (f (heap w, g_recvIoPool w)) (\<lambda>(x, h, p).
     Inr (x, w\<lparr>heap := h, g_recvIoPool := p\<rparr>))"

definition on_send_pool :: "(pool_state \<Rightarrow> ('a \<times> pool_state) res) \<Rightarrow> server \<Rightarrow> ('a \<times> server) res" where
  "on_send_pool f w = bindE (f (heap w, g_sendIoPool w)) (\<lambda>(x, h, p).
     Inr (x, w\<lparr>heap := h, g_sendIoPool := p\<rparr>))"

definition on_manager ::
  "(cid option TcpSessionManager \<Rightarrow> ('a \<times> cid option TcpSessionManager) res) \<Rightarrow> server \<Rightarrow> ('a \<times> server) res" where
  "on_manager f w = bindE (f (manager w)) (\<lambda>(x, m). Inr (x, w\<lparr>manager := m\<rparr>))"

definition on_cell :: "(OverlappedIO \<Rightarrow> OverlappedIO) \<Rightarrow> ovl \<Rightarrow> server \<Rightarrow> server res" where
  "on_cell f a w = bindE (upd_cell f a (heap w)) (\<lambda>h. Inr (w\<lparr>heap := h\<rparr>))"

definition err_display :: "string \<Rightarrow> server \<Rightarrow> server" where
  "err_display msg w = printf msg w"

section \<open>Sessions\<close>

definition MakeClientSessionEx ::
  "winsock \<Rightarrow> tid \<Rightarrow> SOCKET \<Rightarrow> SOCKADDR_IN \<Rightarrow> server \<Rightarrow> (ovl \<times> server) res" where
  "MakeClientSessionEx os t clientSocket addr w =
     (let client = next_client w;
          w0 = w\<lparr>clients := (clients w)(client \<mapsto> TcpClient_new), next_client := Suc client\<rparr>
      in bindE (on_recv_pool (Dequeue t) w0) (\<lambda>(overlapped, w1).
         bindE (on_client client (\<lambda>(c, s). Inr ((), BindRecvOverlapped (Some overlapped) c, s)) w1) (\<lambda>(_, w2).
         bindE (on_cell (SetClientObject (Some client)) overlapped w2) (\<lambda>w3.
         bindE (on_send_pool (Dequeue t) w3) (\<lambda>(sendOverlapped, w4).
         bindE (on_client client (\<lambda>(c, s). Inr ((), BindSendOverlapped (Some sendOverlapped) c, s)) w4) (\<lambda>(_, w5).
         bindE (on_cell (SetClientObject (Some client)) sendOverlapped w5) (\<lambda>w6.
         bindE (on_client client (\<lambda>(c, h, tr). let (r, c', tr') = Initialize os clientSocket addr (c, tr)
                  in Inr (r, c', h, tr')) w6) (\<lambda>(_, w7).
         bindE (on_manager (AddTcpClient t (Some client)) w7) (\<lambda>(_, w8).
         Inr (overlapped, w8))))))))))"

text \<open>Giving one structure of a closing session back to its pool.\<close>

definition recycle ::
  "((pool_state \<Rightarrow> (unit \<times> pool_state) res) \<Rightarrow> server \<Rightarrow> (unit \<times> server) res) \<Rightarrow> tid
    \<Rightarrow> ovl option \<Rightarrow> server \<Rightarrow> server res" where
  "recycle on_pool t ov w = (case ov of None \<Rightarrow> Inr w
     | Some a \<Rightarrow>
         bindE (on_cell Reset a w) (\<lambda>w1.
         bindE (on_cell (SetClientObject None) a w1) (\<lambda>w2.
         bindE (on_pool (Enqueue t a) w2) (\<lambda>(_, w3). Inr w3))))"

definition get_cell :: "ovl \<Rightarrow> server \<Rightarrow> OverlappedIO res" where
  "get_cell a w = (case cells (heap w) a of None \<Rightarrow> Inl DanglingPtr | Some c \<Rightarrow> Inr c)"

definition get_client :: "cid \<Rightarrow> server \<Rightarrow> TcpClient res" where
  "get_client i w = (case clients w i of None \<Rightarrow> Inl DanglingPtr | Some c \<Rightarrow> Inr c)"

definition CloseSession :: "tid \<Rightarrow> ovl \<Rightarrow> server \<Rightarrow> server res" where
  "CloseSession t ov w =
     bindE (get_cell ov w) (\<lambda>cell.
     case GetClientObject cell of None \<Rightarrow> Inr w
     | Some client \<Rightarrow>
         bindE (on_manager (RemoveTcpClient t (Some client)) w) (\<lambda>(_, w1).
         bindE (get_client client w1) (\<lambda>c.
         bindE (recycle on_recv_pool t (GetRecvOverlapped c) w1) (\<lambda>w2.
         bindE (recycle on_send_pool t (GetSendOverlapped c) w2) (\<lambda>w3.
         bindE (on_client client (Close False) w3) (\<lambda>(_, w4). Inr w4))))))"

section \<open>The worker thread\<close>

record completion =
  retval :: int
  cbTransferred :: int
  ov_data :: "ovl option"

text \<open>\<open>data->GetClientObject()->GetSocket()\<close>.\<close>

definition data_socket :: "ovl option \<Rightarrow> server \<Rightarrow> SOCKET res" where
  "data_socket ov w =
     bindE (deref ov) (\<lambda>a. bindE (get_cell a w) (\<lambda>cell.
     bindE (deref (GetClientObject cell)) (\<lambda>i. bindE (get_client i w) (\<lambda>c. Inr (GetSocket c)))))"

definition Worker_failed :: "winsock \<Rightarrow> tid \<Rightarrow> completion \<Rightarrow> server \<Rightarrow> server res" where
  "Worker_failed os t ev w =
     bindE (if retval ev = 0 then
              bindE (case ov_data ev of None \<Rightarrow> Inr w
                     | Some _ \<Rightarrow> bindE (data_socket (ov_data ev) w) (\<lambda>sock.
                         Inr (w\<lparr>calls := calls w @ [WSAGetOverlappedResult_call sock]\<rparr>)))
                (\<lambda>w1. Inr (err_display ''WSAGetOverlappedResult()'' w1))
            else Inr w) (\<lambda>w1.
     bindE (data_socket (ov_data ev) w1) (\<lambda>sock.
     let w2 = printf ''client closed'' (w1\<lparr>calls := calls w1 @ [getpeername_call sock]\<rparr>)
     in bindE (deref (ov_data ev)) (\<lambda>a. CloseSession t a w2)))"

definition Worker_received :: "winsock \<Rightarrow> tid \<Rightarrow> int \<Rightarrow> ovl \<Rightarrow> cid \<Rightarrow> server \<Rightarrow> server res" where
  "Worker_received os t n ov i w =
     bindE (get_client i w) (\<lambda>c.
     if GetRecvOverlapped c = Some ov \<and> GetRecvIoState c = IO_PENDING then
       bindE (OnReceived os t n i w) (\<lambda>w1.
       bindE (on_client i (IsValid t) w1) (\<lambda>(valid, w2).
       if valid then
         bindE (on_client i (RecvAsync os) w2) (\<lambda>(r, w3).
         Inr (if r \<noteq> 0 then err_display ''WSARecv() Error at WorkerThread.'' w3 else w3))
       else CloseSession t ov (printf ''RecvContext: Close Client invalid'' w2)))
     else Inr w)"

definition Worker_sent :: "winsock \<Rightarrow> tid \<Rightarrow> int \<Rightarrow> ovl \<Rightarrow> cid \<Rightarrow> server \<Rightarrow> server res" where
  "Worker_sent os t n ov i w =
     bindE (get_client i w) (\<lambda>c.
     if GetSendOverlapped c = Some ov \<and> GetSendIoState c = IO_PENDING then
       bindE (on_client i (OnSend t n) w) (\<lambda>(_, w1).
       bindE (on_client i (IsValid t) w1) (\<lambda>(valid, w2).
       if valid then
         bindE (on_client i (FlushSendBuffer os t) w2) (\<lambda>(r, w3).
         Inr (if r \<noteq> 0 then err_display ''WSASend() Error at WorkerThread.'' w3 else w3))
       else CloseSession t ov (printf ''SendContext: Close Client invalid'' w2)))
     else Inr w)"

definition WorkerThread_step :: "winsock \<Rightarrow> tid \<Rightarrow> completion \<Rightarrow> server \<Rightarrow> server res" where
  "WorkerThread_step os t ev w =
     (if retval ev = 0 \<or> cbTransferred ev = 0 then Worker_failed os t ev w
      else case ov_data ev of
        None \<Rightarrow> Inr (printf ''Unhandled case is occurred.'' w)
      | Some a \<Rightarrow>
          bindE (get_cell a w) (\<lambda>cell.
          case GetClientObject cell of
            None \<Rightarrow> Inr (printf ''This session is already Expired.'' w)
          | Some i \<Rightarrow>
              if cbTransferred ev > 0 then
                bindE (Worker_received os t (cbTransferred ev) a i w)
                  (Worker_sent os t (cbTransferred ev) a i)
              else CloseSession t a (printf ''Unhandled case is occurred.'' w)))"

section \<open>The main thread\<close>

record Network =
  m_ListenSocket :: TcpServer
  m_Iocp :: CIocp
  srv :: server

definition StartNetwork :: "winsock \<Rightarrow> server \<Rightarrow> bool \<times> server" where
  "StartNetwork os w =
     (WSAStartup_ret os (calls w) = 0, w\<lparr>calls := calls w @ [WSAStartup_call]\<rparr>)"

definition EndNetwork :: "server \<Rightarrow> server" where
  "EndNetwork w = w\<lparr>calls := calls w @ [WSACleanup_call]\<rparr>"

definition Network_Initialize :: "winsock \<Rightarrow> tid \<Rightarrow> Network \<Rightarrow> Network res" where
  "Network_Initialize os t net =
     (let (started, w1) = StartNetwork os (srv net)
      in if \<not> started then Inr (net\<lparr>srv := w1\<rparr>)
         else
           bindE (on_recv_pool (GrowPoolSize t 2048) w1) (\<lambda>(_, w2).
           bindE (on_send_pool (GrowPoolSize t 2048) w2) (\<lambda>(_, w3).
           let (_, iocp, tr1) = StartIocpThread os 4 (m_Iocp net, calls w3);
               (_, listen, tr2) = Bind os 9000 (m_ListenSocket net, tr1)
           in Inr (net\<lparr>m_Iocp := iocp, m_ListenSocket := listen, srv := w3\<lparr>calls := tr2\<rparr>\<rparr>))))"

text \<open>One turn of the accept loop of \<^verbatim>\<open>Network::Run\<close>.\<close>

definition Run_step :: "winsock \<Rightarrow> tid \<Rightarrow> Network \<Rightarrow> Network res" where
  "Run_step os t net =
     (let ((accepted, saRemote), listen, tr1) = Accept os (m_ListenSocket net, calls (srv net));
          w1 = (srv net)\<lparr>calls := tr1\<rparr>
      in bindE (MakeClientSessionEx os t accepted saRemote w1) (\<lambda>(handleData, w2).
         let (_, iocp, tr2) = BindSocket os accepted accepted (m_Iocp net, calls w2);
             w3 = printf ''Socket number connected'' (printf ''client connected'' (w2\<lparr>calls := tr2\<rparr>))
         in bindE (get_cell handleData w3) (\<lambda>cell.
            bindE (deref (GetClientObject cell)) (\<lambda>i.
            bindE (on_client i (RecvAsync os) w3) (\<lambda>(r, w4).
            let w5 = (if r \<noteq> 0 then err_display ''RecvAsync() Error at main thread'' w4 else w4)
            in Inr (net\<lparr>m_ListenSocket := listen, m_Iocp := iocp, srv := w5\<rparr>))))))"

definition Cleanup :: "Network \<Rightarrow> Network" where
  "Cleanup net = net\<lparr>srv := EndNetwork (srv net)\<rparr>"

definition server_new :: server where
  "server_new = \<lparr>clients = Map.empty, next_client = 0, heap = io_heap_empty,
     g_recvIoPool = OverlappedIoPool_new (Some CriticalSectionLock_new),
     g_sendIoPool = OverlappedIoPool_new (Some CriticalSectionLock_new),
     manager = TcpSessionManager_new, calls = []\<rparr>"

lemma server_new_fields [simp]:
  "clients server_new = Map.empty" "next_client server_new = 0" "heap server_new = io_heap_empty"
  "manager server_new = TcpSessionManager_new" "calls server_new = []"
  by (simp_all add: server_new_def)

text \<open>\<^verbatim>\<open>Network::Run\<close> for a number of turns, and \<^verbatim>\<open>main.cpp\<close> up to then: the loop has no end, so the
  cleanup after it is not reached.\<close>

fun Network_Run :: "winsock \<Rightarrow> tid \<Rightarrow> nat \<Rightarrow> Network \<Rightarrow> Network res" where
  "Network_Run os t 0 net = Inr net"
| "Network_Run os t (Suc n) net = bindE (Run_step os t net) (Network_Run os t n)"

definition IocpServer_main :: "winsock \<Rightarrow> tid \<Rightarrow> TcpServer \<Rightarrow> CIocp \<Rightarrow> nat \<Rightarrow> Network res" where
  "IocpServer_main os t listen port n =
     bindE (Network_Initialize os t \<lparr>m_ListenSocket = listen, m_Iocp = port, srv = server_new\<rparr>) (Network_Run os t n)"

end
