(* ===== verification/Session_Ownership.thy ===== *)
theory Session_Ownership
  imports Network_Core
begin

text \<open>
  Who owns which overlapped structure. Every structure taken from a pool belongs to exactly one
  listed session and every listed session holds one structure of each pool; opening and closing a
  session and every turn of the worker and accept loops keep this. The crash of the worker on a
  completion that arrives after its session was closed is characterised as well.
\<close>

section \<open>Heaps and pools\<close>

definition hc :: "io_heap \<Rightarrow> ovl \<Rightarrow> cid option" where
  "hc h a = Option.bind (cells h a) Client"

text \<open>A heap that grew, and a heap in which only the contents of structures changed.\<close>

definition heap_ext :: "io_heap \<Rightarrow> io_heap \<Rightarrow> bool" where
  "heap_ext h h' \<longleftrightarrow> heap_ok h' \<and> next_cell h \<le> next_cell h'
     \<and> (\<forall>b. cells h b \<noteq> None \<longrightarrow> cells h' b = cells h b) \<and> (\<forall>b. hc h' b = hc h b)
     \<and> (\<forall>b\<in>dom (blocks h). blocks h' b = blocks h b)"

definition heap_shape :: "io_heap \<Rightarrow> io_heap \<Rightarrow> bool" where
  "heap_shape h h' \<longleftrightarrow> next_cell h' = next_cell h \<and> blocks h' = blocks h \<and> dom (cells h') = dom (cells h)"

lemma heap_frame_shape: "heap_frame h h' \<Longrightarrow> heap_shape h h'"
  using heap_frame_cells[of h h'] by (auto simp: heap_shape_def heap_frame_def)

lemma heap_frame_hc:
  assumes "heap_frame h h'"
  shows "hc h' a = hc h a"
proof -
  have "map_option Client (cells h' a) = map_option Client (cells h a)"
    using assms by (simp add: heap_frame_def)
  then show ?thesis by (cases "cells h a"; cases "cells h' a") (auto simp: hc_def)
qed

lemma heap_shape_pool:
  assumes "heap_shape h h'"
  shows "pool_ok t (h', q) \<longleftrightarrow> pool_ok t (h, q)" "pool_owned (h', q) = pool_owned (h, q)"
proof -
  have r: "block_range h' a = block_range h a" for a
    using assms by (simp add: block_range_def heap_shape_def)
  show owned: "pool_owned (h', q) = pool_owned (h, q)" by (simp add: pool_owned_def r)
  have "cells h' b = None \<longleftrightarrow> cells h b = None" for b
    using assms domIff[of b "cells h"] domIff[of b "cells h'"] unfolding heap_shape_def by argo
  moreover have nb: "next_cell h' = next_cell h" "blocks h' = blocks h"
    using assms by (simp_all add: heap_shape_def)
  ultimately have "heap_ok h' = heap_ok h" by (simp add: heap_ok_def)
  with owned nb show "pool_ok t (h', q) \<longleftrightarrow> pool_ok t (h, q)"
    by (simp add: pool_ok_def)
qed

lemma heap_shape_upd: "cells h a \<noteq> None \<Longrightarrow> heap_shape h (h\<lparr>cells := (cells h)(a \<mapsto> c)\<rparr>)"
  by (auto simp: heap_shape_def)

lemma heap_shape_trans: "heap_shape h h' \<Longrightarrow> heap_shape h' h'' \<Longrightarrow> heap_shape h h''"
  by (simp add: heap_shape_def)

lemma heap_ext_pool:
  assumes "heap_ext h h'" "pool_ok t (h, q)"
  shows "pool_ok t (h', q)" "pool_owned (h', q) = pool_owned (h, q)"
proof -
  have b: "blocks h' a = blocks h a" if "a \<in> set (m_dataPool q)" for a
    using assms that by (auto simp: heap_ext_def pool_ok_def)
  show owned: "pool_owned (h', q) = pool_owned (h, q)"
    using b by (simp add: pool_owned_def block_range_def)
  have "set (m_dataPool q) \<subseteq> dom (blocks h')"
    using b assms(2) by (auto simp: pool_ok_def dom_def)
  with owned assms show "pool_ok t (h', q)" by (simp add: pool_ok_def heap_ext_def)
qed

abbreviation used :: "io_heap \<Rightarrow> OverlappedIoPool \<Rightarrow> ovl set" where
  "used h p \<equiv> io_pool.in_use (h, p)"

lemma used_def: "used h p = pool_owned (h, p) - set (m_waitingQueue p)"
  by (simp add: io_pool.in_use_def)

lemma owned_allocated:
  assumes "pool_ok t (h, p)" "a \<in> pool_owned (h, p)"
  shows "cells h a \<noteq> None"
  using assms by (fastforce simp: pool_ok_def pool_owned_def block_range_def heap_ok_def split: option.splits)

lemma used_allocated: "pool_ok t (h, p) \<Longrightarrow> a \<in> used h p \<Longrightarrow> cells h a \<noteq> None"
  using owned_allocated by (auto simp: used_def)

lemma heap_ext_refl: "heap_ok h \<Longrightarrow> heap_ext h h"
  by (simp add: heap_ext_def)

lemma heap_ext_new_array:
  assumes "heap_ok h" "0 < n"
  shows "heap_ext h (snd (new_array n h))"
proof -
  have "cells h b = None" if "next_cell h \<le> b" for b
    using assms(1) that by (metis heap_ok_def not_le)
  then show ?thesis
    using heap_ok_new_array[OF assms] heap_ok_blocks_fresh[OF assms(1)]
    by (auto simp: heap_ext_def new_array_def hc_def)
qed

text \<open>Taking a structure: the heap at most grows, the structure was nobody's, and whatever the pool
  owns beyond what it owned before is new memory.\<close>

lemma Dequeue_step:
  assumes "pool_ok t (h, p)"
  shows "\<exists>a h' p'. Dequeue t (h, p) = Inr (a, h', p') \<and> pool_ok t (h', p') \<and> heap_ext h h'
    \<and> a \<notin> used h p \<and> used h' p' = insert a (used h p)
    \<and> pool_owned (h, p) \<subseteq> pool_owned (h', p') \<and> pool_owned (h', p') \<subseteq> pool_owned (h, p) \<union> {next_cell h..}"
proof -
  obtain a s' where a: "Dequeue t (h, p) = Inr (a, s')" "pool_ok t s'" "a \<notin> used h p"
    "io_pool.in_use s' = insert a (used h p)"
    using io_pool.acquire_in_use[OF assms] by blast
  have lk: "lock_avail t (m_lock p)" and hok: "heap_ok h" using assms by (simp_all add: pool_ok_def)
  have n: "0 < nat g_default_io_pool_size" by (simp add: g_default_io_pool_size_def)
  have "heap_ext h (fst s') \<and> pool_owned (h, p) \<subseteq> pool_owned s'
    \<and> pool_owned s' \<subseteq> pool_owned (h, p) \<union> {next_cell h..}"
  proof (cases "m_waitingQueue p")
    case Nil
    with a(1) Dequeue_grow[OF lk, of h] have s': "s' = (snd (new_array (nat g_default_io_pool_size) h),
        p\<lparr>m_dataPool := m_dataPool p @ [next_cell h],
          m_waitingQueue := [Suc (next_cell h)..<next_cell h + nat g_default_io_pool_size]\<rparr>)"
      by auto
    show ?thesis
      unfolding s' pool_owned_grow[OF hok n] using heap_ext_new_array[OF hok n] by auto
  next
    case (Cons x xs)
    with a(1) lk have "s' = (h, p\<lparr>m_waitingQueue := xs\<rparr>)" by (auto simp: op_eqs)
    with hok show ?thesis by (simp add: heap_ext_refl pool_owned_def)
  qed
  with a show ?thesis by (cases s') auto
qed

section \<open>Both pools together\<close>

text \<open>\<open>pools_inv t h rp sp R S\<close>: the two pools own disjoint memory, exactly \<open>R\<close> and \<open>S\<close> are handed out,
  and a structure that is not handed out refers to no session.\<close>

definition pools_inv ::
  "tid \<Rightarrow> io_heap \<Rightarrow> OverlappedIoPool \<Rightarrow> OverlappedIoPool \<Rightarrow> ovl set \<Rightarrow> ovl set \<Rightarrow> bool" where
  "pools_inv t h rp sp R S \<longleftrightarrow> pool_ok t (h, rp) \<and> pool_ok t (h, sp)
     \<and> pool_owned (h, rp) \<inter> pool_owned (h, sp) = {} \<and> used h rp = R \<and> used h sp = S
     \<and> (\<forall>a. a \<notin> R \<union> S \<longrightarrow> hc h a = None)"

lemma pools_inv_swap: "pools_inv t h rp sp R S \<Longrightarrow> pools_inv t h sp rp S R"
  by (auto simp: pools_inv_def)

lemma pools_inv_allocated: "pools_inv t h rp sp R S \<Longrightarrow> a \<in> R \<union> S \<Longrightarrow> cells h a \<noteq> None"
  using used_allocated by (auto simp: pools_inv_def)

lemma pools_inv_disjoint: "pools_inv t h rp sp R S \<Longrightarrow> R \<inter> S = {}"
  by (auto simp: pools_inv_def used_def)

lemma pools_inv_frame:
  assumes "pools_inv t h rp sp R S" "heap_frame h h'"
  shows "pools_inv t h' rp sp R S"
  using assms heap_shape_pool[OF heap_frame_shape[OF assms(2)]] heap_frame_hc[OF assms(2)]
  by (simp add: pools_inv_def used_def)

lemma pools_inv_upd:
  assumes "pools_inv t h rp sp R S" "a \<in> R \<union> S"
  shows "\<exists>h'. upd_cell f a h = Inr h' \<and> pools_inv t h' rp sp R S
    \<and> (\<forall>b. b \<noteq> a \<longrightarrow> hc h' b = hc h b) \<and> (\<forall>c. cells h a = Some c \<longrightarrow> cells h' a = Some (f c))"
proof -
  obtain c where c: "cells h a = Some c" using pools_inv_allocated[OF assms] by blast
  let ?h = "h\<lparr>cells := (cells h)(a \<mapsto> f c)\<rparr>"
  have sh: "heap_shape h ?h" by (rule heap_shape_upd) (simp add: c)
  have hc: "hc ?h b = hc h b" if "b \<noteq> a" for b using that by (simp add: hc_def)
  have "pools_inv t ?h rp sp R S"
    using assms heap_shape_pool[OF sh] by (auto simp: pools_inv_def used_def hc_def)
  with c hc show ?thesis by (simp add: upd_cell_def)
qed

lemma pools_inv_Dequeue:
  assumes "pools_inv t h rp sp R S"
  shows "\<exists>a h' rp'. Dequeue t (h, rp) = Inr (a, h', rp') \<and> pools_inv t h' rp' sp (insert a R) S
    \<and> a \<notin> R \<union> S \<and> (\<forall>b. hc h' b = hc h b)"
proof -
  have inv: "pool_ok t (h, rp)" "pool_ok t (h, sp)" "pool_owned (h, rp) \<inter> pool_owned (h, sp) = {}"
    "used h rp = R" "used h sp = S" "\<And>a. a \<notin> R \<union> S \<Longrightarrow> hc h a = None"
    using assms by (auto simp: pools_inv_def)
  obtain a h' rp' where a: "Dequeue t (h, rp) = Inr (a, h', rp')" "pool_ok t (h', rp')" "heap_ext h h'"
    "a \<notin> R" "used h' rp' = insert a R"
    "pool_owned (h', rp') \<subseteq> pool_owned (h, rp) \<union> {next_cell h..}"
    using Dequeue_step[OF inv(1)] inv(4) by blast
  note ext = heap_ext_pool[OF a(3) inv(2)]
  have below: "b < next_cell h" if "b \<in> pool_owned (h, sp)" for b
    using pool_owned_below[of "(h, sp)" b] inv(2) that by (simp add: pool_ok_def)
  have dis: "pool_owned (h', rp') \<inter> pool_owned (h', sp) = {}"
    using a(6) inv(3) ext(2) below by fastforce
  have hc: "hc h' b = hc h b" for b using a(3) by (simp add: heap_ext_def)
  have S: "used h' sp = S" using ext(2) inv(5) by (simp add: used_def)
  have "a \<in> pool_owned (h', rp')" using a(5) by (auto simp: used_def)
  then have "a \<notin> S" using dis S by (auto simp: used_def)
  with a ext dis hc S inv show ?thesis by (simp add: pools_inv_def)
qed

lemma pools_inv_Enqueue:
  assumes "pools_inv t h rp sp R S" "a \<in> R" "hc h a = None"
  shows "\<exists>rp'. Enqueue t a (h, rp) = Inr ((), h, rp') \<and> pools_inv t h rp' sp (R - {a}) S"
proof -
  have inv: "pool_ok t (h, rp)" "a \<in> used h rp" using assms by (auto simp: pools_inv_def)
  obtain s' where s': "Enqueue t a (h, rp) = Inr ((), s')" "pool_ok t s'"
    "io_pool.in_use s' = used h rp - {a}"
    using io_pool.release_in_use[OF inv] by blast
  have "lock_avail t (m_lock rp)" using inv(1) by (simp add: pool_ok_def)
  with s'(1) have eq: "s' = (h, rp\<lparr>m_waitingQueue := m_waitingQueue rp @ [a]\<rparr>)" by (auto simp: op_eqs)
  moreover have "pool_owned s' = pool_owned (h, rp)" by (simp add: eq pool_owned_def)
  ultimately show ?thesis using assms s' by (auto simp: pools_inv_def)
qed

section \<open>The ownership invariant\<close>

abbreviation listed :: "server \<Rightarrow> cid \<Rightarrow> bool" where
  "listed w i \<equiv> Some i \<in> set (m_clients (manager w))"

definition held :: "(TcpClient \<Rightarrow> ovl option) \<Rightarrow> server \<Rightarrow> ovl set" where
  "held f w = {a. \<exists>i c. listed w i \<and> clients w i = Some c \<and> f c = Some a}"

definition session_bound :: "server \<Rightarrow> cid \<Rightarrow> bool" where
  "session_bound w i \<longleftrightarrow> (\<exists>c r s. clients w i = Some c \<and> m_pRecvOverlapped c = Some r
     \<and> m_pSendOverlapped c = Some s \<and> hc (heap w) r = Some i \<and> hc (heap w) s = Some i)"

definition net_inv :: "tid \<Rightarrow> server \<Rightarrow> bool" where
  "net_inv t w \<longleftrightarrow>
     pools_inv t (heap w) (g_recvIoPool w) (g_sendIoPool w) (held m_pRecvOverlapped w) (held m_pSendOverlapped w)
     \<and> manager_ok t (manager w) \<and> distinct (m_clients (manager w)) \<and> None \<notin> set (m_clients (manager w))
     \<and> (\<forall>i c. clients w i = Some c \<longrightarrow> client_ok t c \<and> i < next_client w)
     \<and> (\<forall>i. listed w i \<longrightarrow> session_bound w i)"

lemma net_invD:
  assumes "net_inv t w"
  shows "pools_inv t (heap w) (g_recvIoPool w) (g_sendIoPool w) (held m_pRecvOverlapped w) (held m_pSendOverlapped w)"
    and "manager_ok t (manager w)" "distinct (m_clients (manager w))" "None \<notin> set (m_clients (manager w))"
    and "\<And>i c. clients w i = Some c \<Longrightarrow> client_ok t c" "\<And>i c. clients w i = Some c \<Longrightarrow> i < next_client w"
    and "\<And>i. listed w i \<Longrightarrow> session_bound w i"
  using assms by (auto simp: net_inv_def)

lemma net_inv_new [simp]: "net_inv t server_new"
proof -
  have "hc io_heap_empty a = None" for a by (simp add: hc_def io_heap_empty_def)
  then show ?thesis
    by (auto simp: net_inv_def server_new_def pools_inv_def held_def used_def OverlappedIoPool_new_def
        pool_owned_def pool_ok_def)
qed

text \<open>A structure with a session belongs to that session, which is listed.\<close>

lemma net_inv_owner:
  assumes "net_inv t w" "hc (heap w) a = Some i"
  obtains c r s where "listed w i" "clients w i = Some c" "client_ok t c"
    "m_pRecvOverlapped c = Some r" "m_pSendOverlapped c = Some s" "a = r \<or> a = s" "r \<noteq> s"
    "hc (heap w) r = Some i" "hc (heap w) s = Some i"
    "r \<in> held m_pRecvOverlapped w" "s \<in> held m_pSendOverlapped w"
proof -
  note pi = net_invD(1)[OF assms(1)]
  have "a \<in> held m_pRecvOverlapped w \<union> held m_pSendOverlapped w"
    using pi assms(2) unfolding pools_inv_def by (metis option.distinct(1))
  then obtain j c where j: "listed w j" "clients w j = Some c"
    "m_pRecvOverlapped c = Some a \<or> m_pSendOverlapped c = Some a"
    by (auto simp: held_def)
  obtain r s where rs: "m_pRecvOverlapped c = Some r" "m_pSendOverlapped c = Some s"
    "hc (heap w) r = Some j" "hc (heap w) s = Some j"
    using net_invD(7)[OF assms(1) j(1)] j(2) by (auto simp: session_bound_def)
  then have "i = j" using j(3) assms(2) by auto
  have h: "r \<in> held m_pRecvOverlapped w" "s \<in> held m_pSendOverlapped w"
    using j rs by (auto simp: held_def)
  then have "r \<noteq> s" using pools_inv_disjoint[OF pi] by auto
  with \<open>i = j\<close> j rs h net_invD(5)[OF assms(1) j(2)] that[of c r s] show ?thesis by auto
qed

lemma net_inv_sessions_ok:
  assumes "net_inv t w"
  shows "sessions_ok t w" "listed w i \<Longrightarrow> bound_client w i"
proof -
  have b: "bound_client w i" if l: "listed w i" for i
  proof -
    obtain c r s where "clients w i = Some c" "m_pRecvOverlapped c = Some r"
      "m_pSendOverlapped c = Some s" "hc (heap w) r = Some i" "hc (heap w) s = Some i"
      using net_invD(7)[OF assms l] by (auto simp: session_bound_def)
    then show ?thesis by (auto simp: bound_client_def hc_def bind_eq_Some_conv)
  qed
  then show "listed w i \<Longrightarrow> bound_client w i" .
  show "sessions_ok t w"
    unfolding sessions_ok_def
    using net_invD(4,5)[OF assms] b by (metis option.collapse)
qed

lemma link_frame_held:
  assumes "link_frame w w'"
  shows "held m_pRecvOverlapped w' = held m_pRecvOverlapped w"
    "held m_pSendOverlapped w' = held m_pSendOverlapped w"
proof -
  have rel: "rel_option client_link (clients w i) (clients w' i)" for i
    using assms by (simp add: link_frame_def)
  have m: "manager w' = manager w" using assms by (simp add: link_frame_def)
  have "(\<exists>c. clients w' i = Some c \<and> m_pRecvOverlapped c = Some a)
      \<longleftrightarrow> (\<exists>c. clients w i = Some c \<and> m_pRecvOverlapped c = Some a)"
    "(\<exists>c. clients w' i = Some c \<and> m_pSendOverlapped c = Some a)
      \<longleftrightarrow> (\<exists>c. clients w i = Some c \<and> m_pSendOverlapped c = Some a)" for i a
    using rel[of i] by (cases "clients w i"; cases "clients w' i"; simp add: client_link_def)+
  then show "held m_pRecvOverlapped w' = held m_pRecvOverlapped w"
    "held m_pSendOverlapped w' = held m_pSendOverlapped w"
    by (simp_all add: held_def m flip: ex_simps) blast+
qed

lemma net_inv_link:
  assumes "net_inv t w" "link_frame w w'" "sessions_ok t w'"
  shows "net_inv t w'"
proof -
  have fr: "heap_frame (heap w) (heap w')" "manager w' = manager w" "g_recvIoPool w' = g_recvIoPool w"
    "g_sendIoPool w' = g_sendIoPool w" "next_client w' = next_client w"
    using assms(2) by (simp_all add: link_frame_def)
  have "clients w i \<noteq> None" if "clients w' i = Some c" for i c
    using assms(2) that unfolding link_frame_def by (metis option.distinct(1) option.rel_distinct(1))
  then have "i < next_client w'" if "clients w' i = Some c" for i c
    using that net_invD(6)[OF assms(1)] fr(5) by (metis option.exhaust)
  moreover have "session_bound w' i" if l: "listed w i" for i
  proof -
    obtain c r s where c: "clients w i = Some c" "m_pRecvOverlapped c = Some r"
      "m_pSendOverlapped c = Some s" "hc (heap w) r = Some i" "hc (heap w) s = Some i"
      using net_invD(7)[OF assms(1) l] by (auto simp: session_bound_def)
    obtain c' where "clients w' i = Some c'" "client_link c c'"
      using link_frame_client[OF assms(2) c(1)] .
    with c show ?thesis by (auto simp: session_bound_def client_link_def heap_frame_hc[OF fr(1)])
  qed
  moreover have "client_ok t c" if "clients w' i = Some c" for i c
    using assms(3) that by (simp add: sessions_ok_def)
  ultimately show ?thesis
    using assms(1) pools_inv_frame[OF net_invD(1)[OF assms(1)] fr(1)]
    by (simp add: net_inv_def fr(2-4) link_frame_held[OF assms(2)])
qed

section \<open>Opening a session\<close>

definition opened :: "winsock \<Rightarrow> SOCKET \<Rightarrow> SOCKADDR_IN \<Rightarrow> trace \<Rightarrow> ovl \<Rightarrow> ovl \<Rightarrow> TcpClient" where
  "opened os sock addr tr r s = fst (snd (Initialize os sock addr
     (BindSendOverlapped (Some s) (BindRecvOverlapped (Some r) TcpClient_new), tr)))"

lemma opened_eq:
  "\<exists>a. opened os sock addr tr r s = TcpClient_new\<lparr>m_pRecvOverlapped := Some r, m_pSendOverlapped := Some s,
     m_Socket := sock, m_SocketAddr := a, m_IsSetupAddr := True, m_RecvIoState := IO_CONNECTED\<rparr>"
  by (cases "getpeername_ret os tr sock")
    (auto simp: opened_def Initialize_def BindSendOverlapped_def BindRecvOverlapped_def Let_def)

lemma opened_fields [simp]:
  "m_pRecvOverlapped (opened os sock addr tr r s) = Some r"
  "m_pSendOverlapped (opened os sock addr tr r s) = Some s"
  "m_Socket (opened os sock addr tr r s) = sock"
  "m_isClosing (opened os sock addr tr r s) = False"
  "m_RecvIoState (opened os sock addr tr r s) = IO_CONNECTED"
  "client_ok t (opened os sock addr tr r s)"
  "recv_bytes (opened os sock addr tr r s) = []" "send_bytes (opened os sock addr tr r s) = []"
proof -
  obtain a where a: "opened os sock addr tr r s = TcpClient_new\<lparr>m_pRecvOverlapped := Some r,
     m_pSendOverlapped := Some s, m_Socket := sock, m_SocketAddr := a, m_IsSetupAddr := True,
     m_RecvIoState := IO_CONNECTED\<rparr>" (is "_ = ?c")
    using opened_eq by blast
  have "recv_bytes ?c = recv_bytes TcpClient_new" "send_bytes ?c = send_bytes TcpClient_new"
    "client_ok t ?c = client_ok t TcpClient_new"
    by (simp_all add: recv_bytes_def send_bytes_def client_ok_def)
  then show "recv_bytes (opened os sock addr tr r s) = []" "send_bytes (opened os sock addr tr r s) = []"
    "client_ok t (opened os sock addr tr r s)"
    by (simp_all add: a)
qed (use opened_eq[of os sock addr tr r s] in auto)

lemma MakeClientSessionEx_step:
  assumes "net_inv t w"
  shows "\<exists>r s w'. MakeClientSessionEx os t sock addr w = Inr (r, w') \<and> net_inv t w'
    \<and> r \<notin> held m_pRecvOverlapped w \<and> s \<notin> held m_pSendOverlapped w
    \<and> clients w' = (clients w)(next_client w \<mapsto> opened os sock addr (calls w) r s)
    \<and> next_client w' = Suc (next_client w) \<and> hc (heap w') r = Some (next_client w)
    \<and> m_clients (manager w') = m_clients (manager w) @ [Some (next_client w)]
    \<and> calls w' = calls w @ [getpeername_call sock]"
proof -
  define i where "i = next_client w"
  let ?R = "held m_pRecvOverlapped w" and ?S = "held m_pSendOverlapped w"
  note inv = net_invD[OF assms]
  have fresh: "clients w i = None" using inv(6) by (metis i_def less_irrefl option.exhaust)
  then have nl: "\<not> listed w i" using inv(7)[of i] by (auto simp: session_bound_def)
  obtain r h1 rp where r: "Dequeue t (heap w, g_recvIoPool w) = Inr (r, h1, rp)"
    "pools_inv t h1 rp (g_sendIoPool w) (insert r ?R) ?S" "r \<notin> ?R \<union> ?S" "\<forall>b. hc h1 b = hc (heap w) b"
    using pools_inv_Dequeue[OF inv(1)] by blast
  obtain h2 where h2: "upd_cell (SetClientObject (Some i)) r h1 = Inr h2"
    "pools_inv t h2 rp (g_sendIoPool w) (insert r ?R) ?S" "\<forall>b. b \<noteq> r \<longrightarrow> hc h2 b = hc h1 b"
    "\<forall>c. cells h1 r = Some c \<longrightarrow> cells h2 r = Some (SetClientObject (Some i) c)"
    using pools_inv_upd[OF r(2), of r "SetClientObject (Some i)"] by auto
  obtain s h3 sp where s: "Dequeue t (h2, g_sendIoPool w) = Inr (s, h3, sp)"
    "pools_inv t h3 sp rp (insert s ?S) (insert r ?R)" "s \<notin> ?S \<union> insert r ?R" "\<forall>b. hc h3 b = hc h2 b"
    using pools_inv_Dequeue[OF pools_inv_swap[OF h2(2)]] by metis
  obtain h4 where h4: "upd_cell (SetClientObject (Some i)) s h3 = Inr h4"
    "pools_inv t h4 sp rp (insert s ?S) (insert r ?R)" "\<forall>b. b \<noteq> s \<longrightarrow> hc h4 b = hc h3 b"
    "\<forall>c. cells h3 s = Some c \<longrightarrow> cells h4 s = Some (SetClientObject (Some i) c)"
    using pools_inv_upd[OF s(2), of s "SetClientObject (Some i)"] by auto
  have hcr: "hc h2 r = Some i"
    using h2(4) pools_inv_allocated[OF r(2), of r] by (auto simp: hc_def SetClientObject_def)
  have hcs: "hc h4 s = Some i"
    using h4(4) pools_inv_allocated[OF s(2), of s] by (auto simp: hc_def SetClientObject_def)
  have hc: "hc h4 b = (if b = r \<or> b = s then Some i else hc (heap w) b)" for b
    using hcr hcs r(4) h2(3) s(3,4) h4(3) by auto
  let ?c = "opened os sock addr (calls w) r s"
  let ?m = "(manager w)\<lparr>m_clients := m_clients (manager w) @ [Some i]\<rparr>"
  let ?w = "w\<lparr>clients := (clients w)(i \<mapsto> ?c), next_client := Suc i, heap := h4, g_recvIoPool := rp,
    g_sendIoPool := sp, manager := ?m, calls := calls w @ [getpeername_call sock]\<rparr>"
  have add: "AddTcpClient t (Some i) (manager w) = Inr (True, ?m)"
    using inv(2) nl by (simp add: manager_ok_def op_eqs removeAll_id)
  have run: "MakeClientSessionEx os t sock addr w = Inr (r, ?w)"
    using r(1) h2(1) s(1) h4(1) add
    by (simp add: MakeClientSessionEx_def Let_def on_recv_pool_def on_send_pool_def on_client_def on_cell_def
        on_manager_def opened_def Initialize_def i_def[symmetric] BindSendOverlapped_def
        BindRecvOverlapped_def split: prod.splits option.splits)
  have heldR: "held m_pRecvOverlapped ?w = insert r ?R" and heldS: "held m_pSendOverlapped ?w = insert s ?S"
    using nl by (auto simp: held_def)
  have sb: "session_bound ?w j" if "listed ?w j" for j
  proof (cases "j = i")
    case True
    then show ?thesis by (auto simp: session_bound_def hc)
  next
    case False
    with that have l: "listed w j" by simp
    then obtain c r' s' where c: "clients w j = Some c" "m_pRecvOverlapped c = Some r'"
      "m_pSendOverlapped c = Some s'" "hc (heap w) r' = Some j" "hc (heap w) s' = Some j"
      using inv(7)[OF l] by (auto simp: session_bound_def)
    then have "r' \<in> ?R" "s' \<in> ?S" using l by (auto simp: held_def)
    with r(3) s(3) have "r' \<noteq> r" "r' \<noteq> s" "s' \<noteq> r" "s' \<noteq> s" by auto
    with False c show ?thesis by (auto simp: session_bound_def hc)
  qed
  have cl: "client_ok t c \<and> j < Suc i" if "clients ?w j = Some c" for j c
    using that inv(5,6) by (auto simp: i_def less_SucI split: if_splits)
  have "net_inv t ?w"
    unfolding net_inv_def heldR heldS
    using pools_inv_swap[OF h4(2)] inv(2-4) nl sb cl by (auto simp: manager_ok_def)
  with run r(3) s(3) hc show ?thesis
    by (intro exI[of _ r] exI[of _ s] exI[of _ ?w]) (simp add: i_def)
qed

end
