(* ===== verification/Session_Lifecycle.thy ===== *)
theory Session_Lifecycle
  imports Session_Ownership
begin

text \<open>
  The life of a session in \<^verbatim>\<open>network.cpp\<close>: closing it, the turns of \<^verbatim>\<open>WorkerThread\<close> and of the accept
  loop \<^verbatim>\<open>Run\<close>, and the reachable states of the server, on which the ownership invariant holds.
\<close>

section \<open>Closing a session\<close>

lemma upd_cell_dom: "upd_cell f a h = Inr h' \<Longrightarrow> dom (cells h') = dom (cells h)"
  by (auto simp: upd_cell_def split: option.splits if_splits)

text \<open>Giving one structure of a pool back; stated for the receive pool and, by symmetry of the
  invariant, for the send pool.\<close>

lemma recycle_recv_step:
  assumes "pools_inv t (heap w) (g_recvIoPool w) (g_sendIoPool w) R S" "a \<in> R"
  shows "\<exists>h rp. recycle on_recv_pool t (Some a) w = Inr (w\<lparr>heap := h, g_recvIoPool := rp\<rparr>)
    \<and> pools_inv t h rp (g_sendIoPool w) (R - {a}) S
    \<and> (\<forall>b. hc h b = (if b = a then None else hc (heap w) b)) \<and> dom (cells h) = dom (cells (heap w))"
proof -
  obtain h1 where h1: "upd_cell Reset a (heap w) = Inr h1"
    "pools_inv t h1 (g_recvIoPool w) (g_sendIoPool w) R S" "\<forall>b. b \<noteq> a \<longrightarrow> hc h1 b = hc (heap w) b"
    using pools_inv_upd[OF assms(1), of a Reset] assms(2) by blast
  obtain h2 where h2: "upd_cell (SetClientObject None) a h1 = Inr h2"
    "pools_inv t h2 (g_recvIoPool w) (g_sendIoPool w) R S" "\<forall>b. b \<noteq> a \<longrightarrow> hc h2 b = hc h1 b"
    "\<forall>c. cells h1 a = Some c \<longrightarrow> cells h2 a = Some (SetClientObject None c)"
    using pools_inv_upd[OF h1(2), of a "SetClientObject None"] assms(2) by blast
  have none: "hc h2 a = None"
    using h2(4) pools_inv_allocated[OF h1(2), of a] assms(2) by (auto simp: hc_def SetClientObject_def)
  obtain rp where rp: "Enqueue t a (h2, g_recvIoPool w) = Inr ((), h2, rp)"
    "pools_inv t h2 rp (g_sendIoPool w) (R - {a}) S"
    using pools_inv_Enqueue[OF h2(2) assms(2) none] by blast
  have "recycle on_recv_pool t (Some a) w = Inr (w\<lparr>heap := h2, g_recvIoPool := rp\<rparr>)"
    using h1(1) h2(1) rp(1) by (simp add: recycle_def on_cell_def on_recv_pool_def)
  with rp(2) none h1(3) h2(3) upd_cell_dom[OF h1(1)] upd_cell_dom[OF h2(1)] show ?thesis by auto
qed

lemma recycle_send_step:
  assumes "pools_inv t (heap w) (g_recvIoPool w) (g_sendIoPool w) R S" "a \<in> S"
  shows "\<exists>h sp. recycle on_send_pool t (Some a) w = Inr (w\<lparr>heap := h, g_sendIoPool := sp\<rparr>)
    \<and> pools_inv t h (g_recvIoPool w) sp R (S - {a})
    \<and> (\<forall>b. hc h b = (if b = a then None else hc (heap w) b)) \<and> dom (cells h) = dom (cells (heap w))"
proof -
  let ?v = "w\<lparr>g_recvIoPool := g_sendIoPool w, g_sendIoPool := g_recvIoPool w\<rparr>"
  obtain h sp where h: "recycle on_recv_pool t (Some a) ?v = Inr (?v\<lparr>heap := h, g_recvIoPool := sp\<rparr>)"
    "pools_inv t h sp (g_recvIoPool w) (S - {a}) R" "\<forall>b. hc h b = (if b = a then None else hc (heap w) b)"
    "dom (cells h) = dom (cells (heap w))"
    using recycle_recv_step[of t ?v S R a] pools_inv_swap[OF assms(1)] assms(2) by auto
  have "recycle on_send_pool t (Some a) w = Inr (w\<lparr>heap := h, g_sendIoPool := sp\<rparr>)"
    using h(1) by (cases w)
      (auto simp: recycle_def on_cell_def on_recv_pool_def on_send_pool_def bindE_eq_Inr split: prod.splits)
  with h pools_inv_swap[OF h(2)] show ?thesis by blast
qed

definition closed_session :: "cid \<Rightarrow> ovl \<Rightarrow> ovl \<Rightarrow> server \<Rightarrow> server \<Rightarrow> bool" where
  "closed_session i r s w w' \<longleftrightarrow> m_clients (manager w') = removeAll (Some i) (m_clients (manager w))
     \<and> (\<forall>a. hc (heap w') a = (if a = r \<or> a = s then None else hc (heap w) a))
     \<and> cells (heap w') r \<noteq> None \<and> cells (heap w') s \<noteq> None
     \<and> map_option (m_isClosing_update (\<lambda>_. True)) (clients w i) = clients w' i
     \<and> (\<forall>j. j \<noteq> i \<longrightarrow> clients w' j = clients w j) \<and> next_client w' = next_client w
     \<and> (\<forall>c. clients w i = Some c \<longrightarrow> calls w' = calls w @ [closesocket_call (m_Socket c)])"

lemma held_remove:
  assumes "clients w i = Some c" "f c = Some r"
    and "\<And>j d. listed w j \<Longrightarrow> clients w j = Some d \<Longrightarrow> j \<noteq> i \<Longrightarrow> f d \<noteq> Some r"
    and "m_clients (manager w') = removeAll (Some i) (m_clients (manager w))"
    and "\<And>j. j \<noteq> i \<Longrightarrow> clients w' j = clients w j"
  shows "held f w' = held f w - {r}"
proof (intro set_eqI iffI)
  fix a assume "a \<in> held f w'"
  then obtain j d where "listed w' j" "clients w' j = Some d" "f d = Some a" by (auto simp: held_def)
  with assms(4,5) have j: "j \<noteq> i" "listed w j" "clients w j = Some d" "f d = Some a" by auto
  with assms(3)[OF j(2,3,1)] show "a \<in> held f w - {r}" by (auto simp: held_def)
next
  fix a assume "a \<in> held f w - {r}"
  then obtain j d where j: "listed w j" "clients w j = Some d" "f d = Some a" "a \<noteq> r"
    by (auto simp: held_def)
  with assms(1,2) have "j \<noteq> i" by auto
  with j assms(4,5) show "a \<in> held f w'" by (auto simp: held_def)
qed

lemma CloseSession_step:
  assumes "net_inv t w" "hc (heap w) a = Some i"
  shows "\<exists>c r s w'. clients w i = Some c \<and> m_pRecvOverlapped c = Some r \<and> m_pSendOverlapped c = Some s
    \<and> CloseSession t a w = Inr w' \<and> net_inv t w' \<and> closed_session i r s w w'"
proof -
  let ?R = "held m_pRecvOverlapped w" and ?S = "held m_pSendOverlapped w"
  note inv = net_invD[OF assms(1)]
  obtain c r s where i: "listed w i" "clients w i = Some c" "client_ok t c"
    "m_pRecvOverlapped c = Some r" "m_pSendOverlapped c = Some s" "a = r \<or> a = s" "r \<noteq> s"
    "hc (heap w) r = Some i" "hc (heap w) s = Some i" "r \<in> ?R" "s \<in> ?S"
    using net_inv_owner[OF assms] .
  let ?m = "(manager w)\<lparr>m_clients := removeAll (Some i) (m_clients (manager w))\<rparr>"
  let ?w1 = "w\<lparr>manager := ?m\<rparr>"
  have rem: "on_manager (RemoveTcpClient t (Some i)) w = Inr ((), ?w1)"
    using inv(2) by (simp add: on_manager_def manager_ok_def op_eqs)
  obtain h2 rp where h2: "recycle on_recv_pool t (Some r) ?w1 = Inr (?w1\<lparr>heap := h2, g_recvIoPool := rp\<rparr>)"
    "pools_inv t h2 rp (g_sendIoPool w) (?R - {r}) ?S" "\<forall>b. hc h2 b = (if b = r then None else hc (heap w) b)"
    "dom (cells h2) = dom (cells (heap w))"
    using recycle_recv_step[of t ?w1 ?R ?S r] inv(1) i(10) by auto
  let ?w2 = "?w1\<lparr>heap := h2, g_recvIoPool := rp\<rparr>"
  obtain h3 sp where h3: "recycle on_send_pool t (Some s) ?w2 = Inr (?w2\<lparr>heap := h3, g_sendIoPool := sp\<rparr>)"
    "pools_inv t h3 rp sp (?R - {r}) (?S - {s})" "\<forall>b. hc h3 b = (if b = s then None else hc h2 b)"
    "dom (cells h3) = dom (cells h2)"
    using recycle_send_step[of t ?w2 "?R - {r}" ?S s] h2(2) i(11) by auto
  let ?w' = "?w2\<lparr>heap := h3, g_sendIoPool := sp, clients := (clients w)(i \<mapsto> c\<lparr>m_isClosing := True\<rparr>),
    calls := calls w @ [closesocket_call (m_Socket c)]\<rparr>"
  obtain cell where cell: "cells (heap w) a = Some cell" "Client cell = Some i"
    using assms(2) by (auto simp: hc_def bind_eq_Some_conv)
  have run: "CloseSession t a w = Inr ?w'"
    using cell rem h2(1) h3(1) i(2,4,5)
    by (simp add: CloseSession_def get_cell_def GetClientObject_def get_client_def client_accessors
        on_client_def Close_def)
  have hc: "hc h3 b = (if b = r \<or> b = s then None else hc (heap w) b)" for b
    using h2(3) h3(3) by auto
  have other: "m_pRecvOverlapped d \<noteq> Some r \<and> m_pSendOverlapped d \<noteq> Some s \<and> session_bound ?w' j"
    if j: "listed w j" "clients w j = Some d" "j \<noteq> i" for j d
  proof -
    obtain r' s' where d: "m_pRecvOverlapped d = Some r'" "m_pSendOverlapped d = Some s'"
      "hc (heap w) r' = Some j" "hc (heap w) s' = Some j"
      using inv(7)[OF j(1)] j(2) by (auto simp: session_bound_def)
    with i(8,9) j(3) have "r' \<noteq> r" "r' \<noteq> s" "s' \<noteq> r" "s' \<noteq> s" by auto
    with d j show ?thesis by (auto simp: session_bound_def hc)
  qed
  have held': "held m_pRecvOverlapped ?w' = ?R - {r}" "held m_pSendOverlapped ?w' = ?S - {s}"
    using other
    by (intro held_remove[where f = m_pRecvOverlapped, OF i(2) i(4)]
        held_remove[where f = m_pSendOverlapped, OF i(2) i(5)]; simp)+
  have "session_bound ?w' j" if "listed ?w' j" for j
    using that other[of j] inv(7)[of j] by (auto simp: session_bound_def)
  moreover have "client_ok t d \<and> j < next_client w" if "clients ?w' j = Some d" for j d
    using that inv(5,6) i(2,3) by (auto simp: client_ok_def split: if_splits)
  ultimately have "net_inv t ?w'"
    unfolding net_inv_def held' using h3(2) inv(2-4) by (simp add: manager_ok_def distinct_removeAll)
  moreover have "r \<in> dom (cells (heap w))" "s \<in> dom (cells (heap w))"
    using i(8,9) by (auto simp: hc_def bind_eq_Some_conv)
  then have "cells h3 r \<noteq> None" "cells h3 s \<noteq> None" using h2(4) h3(4) by (auto simp: domIff)
  then have "closed_session i r s w ?w'" by (simp add: closed_session_def hc i(2))
  ultimately show ?thesis using run i(2,4,5) by blast
qed

section \<open>One turn of the worker thread\<close>

lemma get_cell_hc: "hc (heap w) a = Some i \<Longrightarrow> \<exists>cell. get_cell a w = Inr cell \<and> GetClientObject cell = Some i"
  by (auto simp: hc_def get_cell_def GetClientObject_def bind_eq_Some_conv)

lemma get_cell_expired:
  "cells (heap w) a \<noteq> None \<Longrightarrow> hc (heap w) a = None \<Longrightarrow> \<exists>cell. get_cell a w = Inr cell \<and> GetClientObject cell = None"
  by (auto simp: hc_def get_cell_def GetClientObject_def)

lemma data_socket_simps:
  "data_socket None w = Inl NullDeref"
  "cells (heap w) a \<noteq> None \<Longrightarrow> hc (heap w) a = None \<Longrightarrow> data_socket (Some a) w = Inl NullDeref"
  "hc (heap w) a = Some i \<Longrightarrow> clients w i = Some c \<Longrightarrow> data_socket (Some a) w = Inr (m_Socket c)"
  by (auto simp: data_socket_def get_cell_def hc_def GetClientObject_def get_client_def GetSocket_def
      bind_eq_Some_conv)

lemma net_inv_calls [simp]: "net_inv t (w\<lparr>calls := tr\<rparr>) = net_inv t w"
  by (simp add: net_inv_def held_def session_bound_def)

lemma net_inv_printf [simp]: "net_inv t (printf m w) = net_inv t w"
  by (simp add: printf_def)

lemma heap_printf [simp]: "heap (printf m w) = heap w"
  by (simp add: printf_def)

lemma link_frame_hc: "link_frame w w' \<Longrightarrow> hc (heap w') a = hc (heap w) a"
  by (rule heap_frame_hc) (simp add: link_frame_def)

lemma on_client_link:
  assumes "sessions_ok t w" "clients w i = Some c"
    and "f (c, heap w, calls w) = Inr (x, c', h', tr')"
    and "client_link c c'" "client_ok t c'" "heap_frame (heap w) h'" "\<exists>cs. tr' = calls w @ cs"
  shows "\<exists>w'. on_client i f w = Inr (x, w') \<and> sessions_ok t w' \<and> link_frame w w'
    \<and> clients w' i = Some c' \<and> calls w' = tr'"
proof -
  let ?w = "w\<lparr>clients := (clients w)(i \<mapsto> c'), heap := h', calls := tr'\<rparr>"
  have fr: "link_frame w ?w"
    using assms(2,4,6,7) by (auto simp: link_frame_def option.rel_refl)
  have "sessions_ok t ?w"
    using assms(1,5) link_frame_bound[OF fr] by (auto simp: sessions_ok_def split: if_splits)
  with fr assms(2,3) show ?thesis by (simp add: on_client_def)
qed

lemma RecvAsync_step:
  assumes "sessions_ok t w" "bound_client w i" "clients w i = Some c"
  shows "\<exists>r w' c'. on_client i (RecvAsync os) w = Inr (r, w') \<and> sessions_ok t w' \<and> link_frame w w'
    \<and> clients w' i = Some c' \<and> m_RecvIoState c' = IO_PENDING \<and> recv_bytes c' = recv_bytes c
    \<and> send_bytes c' = send_bytes c \<and> m_isClosing c' = m_isClosing c"
proof -
  have ok: "client_ok t c" using assms(1,3) by (simp add: sessions_ok_def)
  obtain rb where rb: "m_pRecvBuffer c = Some rb" using client_okE[OF ok] by metis
  obtain rv h' where rv: "m_pRecvOverlapped c = Some rv" "upd_cell Reset rv (heap w) = Inr h'"
    using assms(2,3) by (auto simp: bound_client_def upd_cell_def)
  let ?c = "c\<lparr>m_RecvIoState := IO_PENDING\<rparr>"
  obtain r cs where run: "RecvAsync os (c, heap w, calls w) = Inr (r, ?c, h', calls w @ cs)"
    using rb rv by (fastforce simp: RecvAsync_def Let_def)
  have "client_ok t ?c" using ok by (simp add: client_ok_def)
  from on_client_link[where f = "RecvAsync os", OF assms(1,3) run _ this heap_frame_upd_Reset[OF rv(2)]]
  obtain w' where "on_client i (RecvAsync os) w = Inr (r, w')" "sessions_ok t w'" "link_frame w w'"
    "clients w' i = Some ?c"
    by (auto simp: client_link_def)
  then show ?thesis
    by (intro exI[of _ r] exI[of _ w'] exI[of _ ?c]) (simp add: recv_bytes_def send_bytes_def)
qed

text \<open>What the kernel promises of a successful completion: a receive does not exceed the room it was
  given, a send does not exceed what was posted.\<close>

definition completion_fits :: "server \<Rightarrow> ovl \<Rightarrow> int \<Rightarrow> bool" where
  "completion_fits w a n \<longleftrightarrow> 0 < n \<and> (\<forall>i c. hc (heap w) a = Some i \<and> clients w i = Some c \<longrightarrow>
     (m_pRecvOverlapped c = Some a \<and> m_RecvIoState c = IO_PENDING \<longrightarrow> n \<le> BUFFER_SIZE - int (length (recv_bytes c)))
     \<and> (m_pSendOverlapped c = Some a \<and> m_SendIoState c = IO_PENDING \<longrightarrow> n \<le> int (length (send_bytes c))))"

lemma received_exists:
  assumes "client_ok t c" "0 < n" "n \<le> BUFFER_SIZE - int (length (recv_bytes c))"
  shows "\<exists>bs. n = int (length bs) \<and> received c bs"
proof -
  obtain rb where rb: "m_pRecvBuffer c = Some rb" "buf_ok rb" "recv_bytes c = contents rb"
    using client_okE[OF assms(1)] by metis
  let ?bs = "mem_read (m_Buffer rb) (nat (GetEmptyPtr rb)) (nat n)"
  have "length ?bs = nat n"
    using assms(2,3) rb(2,3) buf_okD[OF rb(2)] int_length_contents[OF rb(2)]
    by (simp add: mem_read_def GetEmptyPtr_def BUFFER_SIZE_val)
  then show ?thesis
    using assms(2,3) rb buf_okD[OF rb(2)] int_length_contents[OF rb(2)]
    by (intro exI[of _ ?bs]) (simp add: received_def GetEmptyLength_def GetEmptyPtr_def BUFFER_SIZE_val)
qed

text \<open>Closing the session from within a turn, whatever the reason.\<close>

lemma close_in_turn:
  assumes "net_inv t w" "hc (heap w) a = Some i"
  obtains w' c' where "CloseSession t a w = Inr w'" "net_inv t w'" "\<not> listed w' i"
    "clients w' i = Some c'" "\<And>c. clients w i = Some c \<Longrightarrow> m_pSendOverlapped c' = m_pSendOverlapped c"
proof -
  obtain c r s w' where c: "clients w i = Some c" "CloseSession t a w = Inr w'" "net_inv t w'"
    "closed_session i r s w w'"
    using CloseSession_step[OF assms] by blast
  with that[of w' "c\<lparr>m_isClosing := True\<rparr>"] show ?thesis by (auto simp: closed_session_def)
qed

lemma Worker_received_step:
  assumes inv: "net_inv t w" and hc: "hc (heap w) a = Some i" and cl: "clients w i = Some c"
    and fit: "m_pRecvOverlapped c = Some a \<Longrightarrow> m_RecvIoState c = IO_PENDING \<Longrightarrow>
      0 < n \<and> n \<le> BUFFER_SIZE - int (length (recv_bytes c))"
  shows "\<exists>w' c'. Worker_received os t n a i w = Inr w' \<and> net_inv t w' \<and> clients w' i = Some c'
    \<and> m_pSendOverlapped c' = m_pSendOverlapped c"
proof (cases "m_pRecvOverlapped c = Some a \<and> m_RecvIoState c = IO_PENDING")
  case False
  with inv cl show ?thesis by (auto simp: Worker_received_def get_client_def client_accessors)
next
  case True
  have l: "listed w i" by (rule net_inv_owner[OF inv hc]) simp
  note ok = net_inv_sessions_ok(1)[OF inv] net_inv_sessions_ok(2)[OF inv l]
  obtain bs where bs: "n = int (length bs)" "received c bs"
    using received_exists net_invD(5)[OF inv cl] fit True by blast
  obtain fs rest where "frames (recv_bytes c @ bs) = (fs, rest)" by fastforce
  from OnReceived_dispatch[OF ok cl bs(2) this, of os] obtain w1 c1 where
    w1: "OnReceived os t n i w = Inr w1" "sessions_ok t w1" "link_frame w w1" "clients w1 i = Some c1"
    using bs(1) by blast
  have inv1: "net_inv t w1" by (rule net_inv_link[OF inv w1(3,2)])
  have so: "m_pSendOverlapped c1 = m_pSendOverlapped c"
    using link_frame_client[OF w1(3) cl] w1(4) by (auto simp: client_link_def)
  have hc1: "hc (heap w1) a = Some i"
    using link_frame_hc[OF w1(3)] hc by simp
  have b1: "bound_client w1 i" by (rule link_frame_bound[OF w1(3) ok(2)])
  note v = IsValid_step[OF w1(2,4)]
  show ?thesis
  proof (cases "m_isClosing c1")
    case False
    obtain r w2 c2 where w2: "on_client i (RecvAsync os) w1 = Inr (r, w2)" "sessions_ok t w2"
      "link_frame w1 w2" "clients w2 i = Some c2"
      using RecvAsync_step[OF w1(2) b1 w1(4), of os] by blast
    have "m_pSendOverlapped c2 = m_pSendOverlapped c1"
      using link_frame_client[OF w2(3) w1(4)] w2(4) by (auto simp: client_link_def)
    with False True cl w1 v w2 so net_inv_link[OF inv1 w2(3,2)] show ?thesis
      by (simp add: Worker_received_def get_client_def client_accessors err_display_def)
  next
    case closing: True
    let ?w = "printf ''RecvContext: Close Client invalid'' w1"
    obtain w2 c2 where "CloseSession t a ?w = Inr w2" "net_inv t w2" "clients w2 i = Some c2"
      "\<And>d. clients ?w i = Some d \<Longrightarrow> m_pSendOverlapped c2 = m_pSendOverlapped d"
      by (rule close_in_turn[of t ?w a i]) (use inv1 hc1 in simp_all)
    with closing True cl w1 v so show ?thesis
      by (simp add: Worker_received_def get_client_def client_accessors)
  qed
qed

lemma OnSend_step:
  assumes "sessions_ok t w" "clients w i = Some c" "0 < n" "n \<le> int (length (send_bytes c))"
  shows "\<exists>w' c'. on_client i (OnSend t n) w = Inr ((), w') \<and> sessions_ok t w' \<and> link_frame w w'
    \<and> clients w' i = Some c' \<and> send_bytes c' = drop (nat n) (send_bytes c) \<and> m_SendIoState c' = IO_CONNECTED
    \<and> m_isClosing c' = m_isClosing c \<and> calls w' = calls w"
proof -
  have ok: "client_ok t c" using assms(1,2) by (simp add: sessions_ok_def)
  have n: "int (nat n) = n" "nat n \<le> length (send_bytes c)" using assms(3,4) by simp_all
  obtain sb where sb: "OnSend t (int (nat n)) (c, heap w, calls w)
      = Inr ((), (c\<lparr>m_pSendBuffer := Some sb, m_SendIoState := IO_CONNECTED\<rparr>, heap w, calls w))"
    "buf_ok sb" "contents sb = drop (nat n) (send_bytes c)"
    using OnSend_client_ok[OF ok n(2), of "heap w" "calls w"] by blast
  from on_client_link[where f = "OnSend t n", OF assms(1,2) sb(1)[unfolded n(1)] _ client_ok_upd_send(3)[OF ok sb(2)]
      heap_frame_refl]
  show ?thesis using sb(3) by (auto simp: client_link_def)
qed

lemma Worker_sent_step:
  assumes inv: "net_inv t w" and hc: "m_pSendOverlapped c = Some a \<Longrightarrow> hc (heap w) a = Some i"
    and cl: "clients w i = Some c"
    and fit: "m_pSendOverlapped c = Some a \<Longrightarrow> m_SendIoState c = IO_PENDING \<Longrightarrow>
      0 < n \<and> n \<le> int (length (send_bytes c))"
  shows "\<exists>w'. Worker_sent os t n a i w = Inr w' \<and> net_inv t w'"
proof (cases "m_pSendOverlapped c = Some a \<and> m_SendIoState c = IO_PENDING")
  case False
  with inv cl show ?thesis by (auto simp: Worker_sent_def get_client_def client_accessors)
next
  case True
  have hc: "hc (heap w) a = Some i" using True hc by blast
  have l: "listed w i" by (rule net_inv_owner[OF inv hc]) simp
  note ok = net_inv_sessions_ok(1)[OF inv] net_inv_sessions_ok(2)[OF inv l]
  have n: "0 < n" "n \<le> int (length (send_bytes c))" using fit True by simp_all
  obtain w1 c1 where w1: "on_client i (OnSend t n) w = Inr ((), w1)" "sessions_ok t w1" "link_frame w w1"
    "clients w1 i = Some c1"
    using OnSend_step[OF ok(1) cl n] by blast
  have inv1: "net_inv t w1" by (rule net_inv_link[OF inv w1(3,2)])
  have hc1: "hc (heap w1) a = Some i" using link_frame_hc[OF w1(3)] hc by simp
  have b1: "bound_client w1 i" by (rule link_frame_bound[OF w1(3) ok(2)])
  note v = IsValid_step[OF w1(2,4)]
  show ?thesis
  proof (cases "m_isClosing c1")
    case False
    obtain r w2 where w2: "on_client i (FlushSendBuffer os t) w1 = Inr (r, w2)" "sessions_ok t w2"
      "server_frame w1 w2"
      using FlushSendBuffer_step[OF w1(2) b1 w1(4), of os] by blast
    have "net_inv t w2" by (rule net_inv_link[OF inv1 server_frame_link[OF w2(3)] w2(2)])
    with False True cl w1 v w2 show ?thesis
      by (simp add: Worker_sent_def get_client_def client_accessors err_display_def)
  next
    case closing: True
    let ?w = "printf ''SendContext: Close Client invalid'' w1"
    obtain w2 where "CloseSession t a ?w = Inr w2" "net_inv t w2"
      by (rule close_in_turn[of t ?w a i]) (use inv1 hc1 in simp_all)
    with closing True cl w1 v show ?thesis
      by (simp add: Worker_sent_def get_client_def client_accessors)
  qed
qed

text \<open>A failed or empty completion of a session closes it.\<close>

lemma Worker_failed_step:
  assumes "net_inv t w" "ov_data ev = Some a" "hc (heap w) a = Some i"
  shows "\<exists>w'. Worker_failed os t ev w = Inr w' \<and> net_inv t w' \<and> \<not> listed w' i"
proof -
  obtain c where cl: "clients w i = Some c" using net_inv_owner[OF assms(1,3)] by metis
  define w1 where "w1 = (if retval ev = 0
    then err_display ''WSAGetOverlappedResult()'' (w\<lparr>calls := calls w @ [WSAGetOverlappedResult_call (m_Socket c)]\<rparr>)
    else w)"
  define w2 where "w2 = printf ''client closed'' (w1\<lparr>calls := calls w1 @ [getpeername_call (m_Socket c)]\<rparr>)"
  have hc: "hc (heap w1) a = Some i" "hc (heap w2) a = Some i" and cl1: "clients w1 i = Some c"
    using assms(3) cl by (simp_all add: w1_def w2_def err_display_def)
  have "net_inv t w2" using assms(1) by (simp add: w1_def w2_def err_display_def)
  then obtain w' where w': "CloseSession t a w2 = Inr w'" "net_inv t w'" "\<not> listed w' i"
    by (rule close_in_turn[OF _ hc(2)])
  have "Worker_failed os t ev w = CloseSession t a w2"
    using data_socket_simps(3)[OF assms(3) cl] data_socket_simps(3)[OF hc(1) cl1] assms(2)
    by (auto simp: Worker_failed_def w1_def w2_def Let_def)
  with w' show ?thesis by auto
qed

text \<open>\<open>completion_ok w ev\<close>: the completion refers to a structure of a pool; a failed or empty one to a
  structure that still has its session; a successful one keeps the kernel's promise.\<close>

definition completion_ok :: "server \<Rightarrow> completion \<Rightarrow> bool" where
  "completion_ok w ev \<longleftrightarrow> (case ov_data ev of
       None \<Rightarrow> retval ev \<noteq> 0 \<and> cbTransferred ev \<noteq> 0
     | Some a \<Rightarrow> cells (heap w) a \<noteq> None
         \<and> (if retval ev = 0 \<or> cbTransferred ev = 0 then hc (heap w) a \<noteq> None
            else completion_fits w a (cbTransferred ev)))"

lemma WorkerThread_step_ok:
  assumes inv: "net_inv t w" and ev: "completion_ok w ev"
  shows "\<exists>w'. WorkerThread_step os t ev w = Inr w' \<and> net_inv t w'"
proof (cases "ov_data ev")
  case None
  with ev inv show ?thesis by (simp add: completion_ok_def WorkerThread_step_def)
next
  case (Some a)
  show ?thesis
  proof (cases "retval ev = 0 \<or> cbTransferred ev = 0")
    case True
    with ev Some obtain i where "hc (heap w) a = Some i" by (auto simp: completion_ok_def)
    from Worker_failed_step[OF inv Some this, of os] True show ?thesis
      by (auto simp: WorkerThread_step_def)
  next
    case False
    with ev Some have fit: "completion_fits w a (cbTransferred ev)" and al: "cells (heap w) a \<noteq> None"
      by (auto simp: completion_ok_def)
    show ?thesis
    proof (cases "hc (heap w) a")
      case None
      with al get_cell_expired[OF al None] False Some inv show ?thesis
        by (auto simp: WorkerThread_step_def)
    next
      case hc: (Some i)
      obtain c r s where c: "clients w i = Some c" "m_pRecvOverlapped c = Some r"
        "m_pSendOverlapped c = Some s" "r \<noteq> s" "hc (heap w) s = Some i"
        using net_inv_owner[OF inv hc] by metis
      obtain w1 c1 where w1: "Worker_received os t (cbTransferred ev) a i w = Inr w1" "net_inv t w1"
        "clients w1 i = Some c1" "m_pSendOverlapped c1 = m_pSendOverlapped c"
        using Worker_received_step[OF inv hc c(1), of "cbTransferred ev" os] fit hc c(1)
        by (auto simp: completion_fits_def)
      obtain w2 where w2: "Worker_sent os t (cbTransferred ev) a i w1 = Inr w2" "net_inv t w2"
      proof (cases "a = s")
        case True
        then have "w1 = w"
          using w1(1) c by (auto simp: Worker_received_def get_client_def client_accessors)
        then show ?thesis
          using Worker_sent_step[OF inv _ c(1), of a "cbTransferred ev" os] fit hc c(1) that
          by (auto simp: completion_fits_def)
      next
        case False
        then have "m_pSendOverlapped c1 \<noteq> Some a" using w1(4) c(3) by simp
        then show ?thesis
          using Worker_sent_step[OF w1(2) _ w1(3), of a "cbTransferred ev" os] that by auto
      qed
      have "0 < cbTransferred ev" using fit by (simp add: completion_fits_def)
      with get_cell_hc[OF hc] False Some w1(1) w2 show ?thesis
        by (auto simp: WorkerThread_step_def)
    qed
  qed
qed

section \<open>Completions that arrive too late\<close>

text \<open>A failed or empty completion without a structure, or with one that no longer has a session,
  dereferences the null pointer: the branch for expired sessions is tested after this one.\<close>

lemma Worker_expired_crash:
  assumes "retval ev = 0 \<or> cbTransferred ev = 0"
    and "case ov_data ev of None \<Rightarrow> True | Some a \<Rightarrow> cells (heap w) a \<noteq> None \<and> hc (heap w) a = None"
  shows "WorkerThread_step os t ev w = Inl NullDeref"
proof (cases "ov_data ev")
  case None
  with assms(1) show ?thesis
    by (auto simp: WorkerThread_step_def Worker_failed_def data_socket_simps)
next
  case (Some a)
  with assms show ?thesis
    by (auto simp: WorkerThread_step_def Worker_failed_def data_socket_simps)
qed

text \<open>So a failed completion of an operation that was pending when its session was closed ends the
  server.\<close>

lemma closed_session_late_crash:
  assumes "closed_session i r s w w'" "b = r \<or> b = s"
  shows "WorkerThread_step os t \<lparr>retval = 0, cbTransferred = n, ov_data = Some b\<rparr> w' = Inl NullDeref"
  by (rule Worker_expired_crash) (use assms in \<open>auto simp: closed_session_def\<close>)

section \<open>The accept loop\<close>

lemma printf_next_client [simp]: "next_client (printf msg w) = next_client w"
  by (simp add: printf_def)

lemma Run_step_ok:
  assumes "net_inv t (srv net)"
  shows "\<exists>net'. Run_step os t net = Inr net' \<and> net_inv t (srv net')
    \<and> m_clients (manager (srv net')) = m_clients (manager (srv net)) @ [Some (next_client (srv net))]
    \<and> next_client (srv net') = Suc (next_client (srv net))
    \<and> (\<exists>c. clients (srv net') (next_client (srv net)) = Some c \<and> m_RecvIoState c = IO_PENDING
         \<and> recv_bytes c = [] \<and> send_bytes c = [] \<and> \<not> m_isClosing c
         \<and> m_Socket c = fst (accept_ret os (calls (srv net)) (ls_Socket (m_ListenSocket net))))"
proof -
  define i where "i = next_client (srv net)"
  obtain sock addr listen tr1 where acc: "Accept os (m_ListenSocket net, calls (srv net)) = ((sock, addr), listen, tr1)"
    by (metis prod.collapse)
  have sock: "sock = fst (accept_ret os (calls (srv net)) (ls_Socket (m_ListenSocket net)))"
    using acc by (auto simp: Accept_def Let_def)
  let ?w1 = "(srv net)\<lparr>calls := tr1\<rparr>"
  obtain r s w2 where w2: "MakeClientSessionEx os t sock addr ?w1 = Inr (r, w2)" "net_inv t w2"
    "clients w2 i = Some (opened os sock addr tr1 r s)" "hc (heap w2) r = Some i"
    "m_clients (manager w2) = m_clients (manager (srv net)) @ [Some i]" "next_client w2 = Suc i"
    using MakeClientSessionEx_step[of t ?w1 os sock addr] assms by (auto simp: i_def)
  obtain iocp tr2 k where bind: "BindSocket os sock sock (m_Iocp net, calls w2) = (k, iocp, tr2)"
    by (metis prod.collapse)
  define w3 where "w3 = printf ''Socket number connected'' (printf ''client connected'' (w2\<lparr>calls := tr2\<rparr>))"
  have w3: "net_inv t w3" "clients w3 = clients w2" "heap w3 = heap w2" "manager w3 = manager w2" "next_client w3 = next_client w2"
    using w2(2) by (simp_all add: w3_def)
  obtain cell where cell: "get_cell r w3 = Inr cell" "GetClientObject cell = Some i"
    using get_cell_hc[of w3 r i] w2(4) w3(3) by auto
  have "listed w3 i" using w2(5) w3(4) by simp
  note ok = net_inv_sessions_ok(1)[OF w3(1)] net_inv_sessions_ok(2)[OF w3(1) this]
  have cl: "clients w3 i = Some (opened os sock addr tr1 r s)" using w2(3) w3(2) by simp
  obtain k' w4 c4 where w4: "on_client i (RecvAsync os) w3 = Inr (k', w4)" "sessions_ok t w4" "link_frame w3 w4"
    "clients w4 i = Some c4" "m_RecvIoState c4 = IO_PENDING" "recv_bytes c4 = []" "send_bytes c4 = []"
    "\<not> m_isClosing c4"
    using RecvAsync_step[OF ok cl, of os] by auto
  have "m_Socket c4 = sock"
    using link_frame_client[OF w4(3) cl] w4(4) by (auto simp: client_link_def)
  moreover have "net_inv t w4" by (rule net_inv_link[OF w3(1) w4(3,2)])
  moreover have "manager w4 = manager w2" "next_client w4 = Suc i" using w4(3) w3(4,5) w2(6) by (simp_all add: link_frame_def)
  moreover define w5 where "w5 = (if k' \<noteq> 0 then err_display ''RecvAsync() Error at main thread'' w4 else w4)"
  moreover have "Run_step os t net = Inr (net\<lparr>m_ListenSocket := listen, m_Iocp := iocp, srv := w5\<rparr>)"
    using acc w2(1) bind cell w4(1) by (simp add: Run_step_def Let_def w3_def w5_def)
  ultimately show ?thesis using w4(4-8) w2(5) sock by (simp add: i_def err_display_def)
qed

text \<open>Any number of turns of the accept loop.\<close>

lemma Network_Run_ok:
  "net_inv t (srv net) \<Longrightarrow> \<exists>net'. Network_Run os t n net = Inr net' \<and> net_inv t (srv net')
    \<and> m_clients (manager (srv net')) = m_clients (manager (srv net)) @ map Some [next_client (srv net)..<next_client (srv net) + n]"
proof (induction n arbitrary: net)
  case 0
  then show ?case by simp
next
  case (Suc n)
  let ?i = "next_client (srv net)"
  obtain net1 where 1: "Run_step os t net = Inr net1" "net_inv t (srv net1)"
    "m_clients (manager (srv net1)) = m_clients (manager (srv net)) @ [Some ?i]" "next_client (srv net1) = Suc ?i"
    using Run_step_ok[OF Suc.prems, of os] by blast
  from Suc.IH[OF 1(2)] obtain net' where 2: "Network_Run os t n net1 = Inr net'" "net_inv t (srv net')"
    "m_clients (manager (srv net')) = m_clients (manager (srv net1)) @ map Some [Suc ?i..<Suc ?i + n]" using 1(4) by auto
  have "[?i..<?i + Suc n] = ?i # [Suc ?i..<Suc ?i + n]" by (simp add: upt_conv_Cons)
  with 1 2 show ?case by simp
qed

section \<open>Reachable servers\<close>

text \<open>The accept loop and the completions the workers take, in any order; threads other than the one
  that runs hold no lock between turns.\<close>

inductive server_step :: "winsock \<Rightarrow> tid \<Rightarrow> Network \<Rightarrow> Network \<Rightarrow> bool" for os t where
  accepts: "Run_step os t net = Inr net' \<Longrightarrow> server_step os t net net'"
| completes: "\<lbrakk>completion_ok (srv net) ev; WorkerThread_step os t ev (srv net) = Inr w'\<rbrakk> \<Longrightarrow>
     server_step os t net (net\<lparr>srv := w'\<rparr>)"

inductive server_reach :: "winsock \<Rightarrow> tid \<Rightarrow> Network \<Rightarrow> Network \<Rightarrow> bool" for os t net0 where
  none: "server_reach os t net0 net0"
| more: "server_reach os t net0 net \<Longrightarrow> server_step os t net net' \<Longrightarrow> server_reach os t net0 net'"

inductive_cases server_stepE: "server_step os t net net'"

lemma server_step_inv:
  assumes "server_step os t net net'" "net_inv t (srv net)"
  shows "net_inv t (srv net')"
  using assms(1)
proof cases
  case accepts
  with Run_step_ok[OF assms(2), of os] show ?thesis by auto
next
  case (completes ev w')
  with WorkerThread_step_ok[OF assms(2), of ev os] show ?thesis by auto
qed

lemma server_reach_inv:
  "server_reach os t net0 net \<Longrightarrow> net_inv t (srv net0) \<Longrightarrow> net_inv t (srv net)"
  by (induction rule: server_reach.induct) (auto intro: server_step_inv)

section \<open>Start-up\<close>

lemma pools_inv_grow:
  assumes "pools_inv t h rp sp R S" "0 < n"
  shows "\<exists>h' rp'. GrowPoolSize t n (h, rp) = Inr (True, h', rp') \<and> pools_inv t h' rp' sp R S
    \<and> length (m_waitingQueue rp') = length (m_waitingQueue rp) + nat n \<and> (\<forall>b. hc h' b = hc h b)"
proof -
  have inv: "pool_ok t (h, rp)" "pool_ok t (h, sp)" "pool_owned (h, rp) \<inter> pool_owned (h, sp) = {}"
    "used h rp = R" "used h sp = S" "\<And>a. a \<notin> R \<union> S \<Longrightarrow> hc h a = None"
    using assms(1) by (auto simp: pools_inv_def)
  have lk: "lock_avail t (m_lock rp)" and hok: "heap_ok h" using inv(1) by (simp_all add: pool_ok_def)
  have n: "0 < nat n" using assms(2) by simp
  let ?new = "{next_cell h..<next_cell h + nat n}"
  let ?h = "snd (new_array (nat n) h)"
  let ?p = "rp\<lparr>m_dataPool := m_dataPool rp @ [next_cell h],
      m_waitingQueue := m_waitingQueue rp @ [next_cell h..<next_cell h + nat n]\<rparr>"
  note ext = heap_ext_new_array[OF hok n]
  note own = pool_owned_grow[OF hok n, where p = rp and q = "m_waitingQueue rp @ [next_cell h..<next_cell h + nat n]"]
  have below: "pool_owned (h, rp) \<inter> ?new = {}" "pool_owned (h, sp) \<inter> ?new = {}"
    using pool_owned_below[of "(h, rp)"] pool_owned_below[of "(h, sp)"] hok by fastforce+
  have q: "set (m_waitingQueue rp) \<subseteq> pool_owned (h, rp)" "distinct (m_waitingQueue rp)"
    "set (m_dataPool rp) \<subseteq> dom (blocks h)"
    using inv(1) by (simp_all add: pool_ok_def)
  have bl: "blocks ?h = (blocks h)(next_cell h \<mapsto> nat n)" by (simp add: new_array_def)
  have "pool_ok t (?h, ?p)"
    using lk heap_ok_new_array[OF hok n] q below(1) by (auto simp: pool_ok_def own bl)
  moreover have "used ?h ?p = R" using inv(4) below(1) q(1) by (auto simp: used_def own)
  moreover note heap_ext_pool[OF ext inv(2)]
  ultimately have "pools_inv t ?h ?p sp R S"
    using inv below ext by (auto simp: pools_inv_def used_def own heap_ext_def)
  with GrowPoolSize_avail[OF lk assms(2), of h] ext show ?thesis by (simp add: heap_ext_def)
qed

lemma Network_Initialize_ok:
  assumes inv: "net_inv t (srv net)" and started: "WSAStartup_ret os (calls (srv net)) = 0"
  shows "\<exists>net'. Network_Initialize os t net = Inr net' \<and> net_inv t (srv net')
    \<and> manager (srv net') = manager (srv net) \<and> clients (srv net') = clients (srv net)
    \<and> next_client (srv net') = next_client (srv net)
    \<and> length (m_waitingQueue (g_recvIoPool (srv net'))) = length (m_waitingQueue (g_recvIoPool (srv net))) + 2048
    \<and> length (m_waitingQueue (g_sendIoPool (srv net'))) = length (m_waitingQueue (g_sendIoPool (srv net))) + 2048"
proof -
  let ?w = "srv net" let ?R = "held m_pRecvOverlapped ?w" let ?S = "held m_pSendOverlapped ?w"
  obtain h1 rp where h1: "GrowPoolSize t 2048 (heap ?w, g_recvIoPool ?w) = Inr (True, h1, rp)"
    "pools_inv t h1 rp (g_sendIoPool ?w) ?R ?S" "\<forall>b. hc h1 b = hc (heap ?w) b"
    "length (m_waitingQueue rp) = length (m_waitingQueue (g_recvIoPool ?w)) + 2048"
    using pools_inv_grow[OF net_invD(1)[OF inv], of 2048] by auto
  obtain h2 sp where h2: "GrowPoolSize t 2048 (h1, g_sendIoPool ?w) = Inr (True, h2, sp)"
    "pools_inv t h2 sp rp ?S ?R" "\<forall>b. hc h2 b = hc h1 b"
    "length (m_waitingQueue sp) = length (m_waitingQueue (g_sendIoPool ?w)) + 2048"
    using pools_inv_grow[OF pools_inv_swap[OF h1(2)], of 2048] by auto
  let ?w3 = "?w\<lparr>heap := h2, g_recvIoPool := rp, g_sendIoPool := sp, calls := calls ?w @ [WSAStartup_call]\<rparr>"
  have held: "held f ?w3 = held f ?w" for f by (simp add: held_def)
  have "session_bound ?w3 i = session_bound ?w i" for i
    using h1(3) h2(3) by (simp add: session_bound_def)
  with inv have inv3: "net_inv t ?w3"
    unfolding net_inv_def held using pools_inv_swap[OF h2(2)] by simp
  obtain k1 iocp tr1 where st: "StartIocpThread os 4 (m_Iocp net, calls ?w3) = (k1, iocp, tr1)"
    by (metis prod.collapse)
  obtain k2 listen tr2 where bd: "Bind os 9000 (m_ListenSocket net, tr1) = (k2, listen, tr2)"
    by (metis prod.collapse)
  have "Network_Initialize os t net = Inr (net\<lparr>m_Iocp := iocp, m_ListenSocket := listen, srv := ?w3\<lparr>calls := tr2\<rparr>\<rparr>)"
    using started h1(1) h2(1) st bd
    by (simp add: Network_Initialize_def StartNetwork_def on_recv_pool_def on_send_pool_def Let_def)
  moreover have "net_inv t (?w3\<lparr>calls := tr2\<rparr>)" using inv3 by (simp only: net_inv_calls)
  ultimately show ?thesis using h1(4) h2(4) by simp
qed

end
