(* ===== verification/Worked_Examples.thy ===== *)
theory Worked_Examples
  imports Session_Lifecycle
begin

text \<open>
  A small concrete server for the worked examples: two sessions, the receive pool owns the
  structures 0 and 1, the send pool 2 and 3, and all of them are in use.
\<close>

definition demo_client :: "SOCKET \<Rightarrow> ovl \<Rightarrow> ovl \<Rightarrow> TcpClient" where
  "demo_client sock r s = TcpClient_new\<lparr>m_Socket := sock, m_pRecvOverlapped := Some r,
     m_pSendOverlapped := Some s, m_RecvIoState := IO_PENDING\<rparr>"

definition demo_heap :: io_heap where
  "demo_heap = \<lparr>cells = [0 \<mapsto> SetClientObject (Some 0) OverlappedIO_new, 1 \<mapsto> SetClientObject (Some 1) OverlappedIO_new,
       2 \<mapsto> SetClientObject (Some 0) OverlappedIO_new, 3 \<mapsto> SetClientObject (Some 1) OverlappedIO_new],
     next_cell = 4, blocks = [0 \<mapsto> 2, 2 \<mapsto> 2]\<rparr>"

definition demo_pool :: "ovl \<Rightarrow> OverlappedIoPool" where
  "demo_pool base = \<lparr>m_waitingQueue = [], m_dataPool = [base], m_lock = Some CriticalSectionLock_new\<rparr>"

definition demo_server :: server where
  "demo_server = \<lparr>clients = [0 \<mapsto> demo_client 200 0 2, 1 \<mapsto> demo_client 201 1 3], next_client = 2,
     heap = demo_heap, g_recvIoPool = demo_pool 0, g_sendIoPool = demo_pool 2,
     manager = TcpSessionManager_new\<lparr>m_clients := [Some 0, Some 1]\<rparr>, calls = []\<rparr>"

definition demo_packet :: Packet where
  "demo_packet = \<lparr>dataSize = 2, flag = 0x01, checkSum = 0x55, data = [7, 8]\<rparr>"

definition demo_net :: "server \<Rightarrow> Network" where
  "demo_net w = \<lparr>m_ListenSocket = \<lparr>ls_Socket = 100, ls_SocketAddr = zero_addr\<rparr>, m_Iocp = \<lparr>m_iocpHandle = 1\<rparr>, srv = w\<rparr>"

text \<open>The same server with the send buffer of session 0 full.\<close>

definition full_client :: TcpClient where
  "full_client = (demo_client 200 0 2)\<lparr>m_pSendBuffer := Some (PulledBuffer_new\<lparr>m_Length := BUFFER_SIZE\<rparr>)\<rparr>"

definition full_server :: server where
  "full_server = demo_server\<lparr>clients := (clients demo_server)(0 \<mapsto> full_client)\<rparr>"

lemma srv_demo_net [simp]: "srv (demo_net w) = w"
  by (simp add: demo_net_def)

lemma demo_wire [simp]: "wire_frame demo_packet = [2, 0, 1, 0x55, 7, 8]"
  by (simp add: wire_frame_def demo_packet_def Packet_bytes_def word16_bytes_def)

lemma demo_packet_echo [simp]: "sendable demo_packet" "flag demo_packet = 0x01" "checkSum demo_packet = 0x55"
  by (simp_all add: sendable_def demo_packet_def)

lemma demo_client_fields [simp]:
  "m_pRecvOverlapped (demo_client sock r s) = Some r" "m_pSendOverlapped (demo_client sock r s) = Some s"
  "m_Socket (demo_client sock r s) = sock" "m_isClosing (demo_client sock r s) = False"
  "m_RecvIoState (demo_client sock r s) = IO_PENDING"
  "m_SendIoState (demo_client sock r s) = IO_NOT_CONNECTED"
  "m_pRecvBuffer (demo_client sock r s) = m_pRecvBuffer TcpClient_new"
  "m_pSendBuffer (demo_client sock r s) = m_pSendBuffer TcpClient_new"
  "recv_bytes (demo_client sock r s) = []" "send_bytes (demo_client sock r s) = []"
  using TcpClient_new_fields(3,4)
  by (simp_all add: demo_client_def recv_bytes_def send_bytes_def)

lemma demo_client_ok [simp]: "client_ok t (demo_client sock r s)"
  using client_ok_new[of t] by (simp add: demo_client_def client_ok_def)

lemma demo_server_fields [simp]:
  "clients demo_server 0 = Some (demo_client 200 0 2)" "clients demo_server (Suc 0) = Some (demo_client 201 1 3)"
  "clients demo_server 1 = Some (demo_client 201 1 3)"
  "heap demo_server = demo_heap" "next_client demo_server = 2" "calls demo_server = []"
  "m_clients (manager demo_server) = [Some 0, Some 1]" "manager_ok t (manager demo_server)"
  "g_recvIoPool demo_server = demo_pool 0" "g_sendIoPool demo_server = demo_pool 2"
  by (simp_all add: demo_server_def manager_ok_def TcpSessionManager_new_def)

lemma hc_demo: "hc demo_heap a = (if a = 0 \<or> a = 2 then Some 0 else if a = 1 \<or> a = 3 then Some 1 else None)"
  by (auto simp: hc_def demo_heap_def SetClientObject_def)

lemma cells_demo: "cells demo_heap a \<noteq> None \<longleftrightarrow> a < 4"
  by (auto simp: demo_heap_def)

lemma demo_owned: "pool_owned (demo_heap, demo_pool 0) = {0, 1}" "pool_owned (demo_heap, demo_pool 2) = {2, 3}"
  by (auto simp: pool_owned_def block_range_def demo_pool_def demo_heap_def)

lemma demo_pool_ok: "pool_ok t (demo_heap, demo_pool 0)" "pool_ok t (demo_heap, demo_pool 2)"
proof -
  have "heap_ok demo_heap"
    using cells_demo unfolding heap_ok_def by (auto simp: demo_heap_def split: if_splits)
  moreover have "dom (blocks demo_heap) = {0, 2}" by (auto simp: demo_heap_def)
  ultimately show "pool_ok t (demo_heap, demo_pool 0)" "pool_ok t (demo_heap, demo_pool 2)"
    by (simp_all add: pool_ok_def demo_pool_def)
qed

lemma demo_held: "held m_pRecvOverlapped demo_server = {0, 1}" "held m_pSendOverlapped demo_server = {2, 3}"
proof -
  have "held f demo_server = {a. f (demo_client 200 0 2) = Some a \<or> f (demo_client 201 1 3) = Some a}" for f
    by (simp add: held_def conj_disj_distribR ex_disj_distrib)
  then show "held m_pRecvOverlapped demo_server = {0, 1}" "held m_pSendOverlapped demo_server = {2, 3}"
    by auto
qed

lemma demo_net_inv: "net_inv t demo_server"
proof -
  have "m_waitingQueue (demo_pool a) = []" for a by (simp add: demo_pool_def)
  then have "pools_inv t demo_heap (demo_pool 0) (demo_pool 2) {0, 1} {2, 3}"
    by (simp add: pools_inv_def used_def demo_pool_ok demo_owned hc_demo)
  moreover have "client_ok t c \<and> i < 2" if "clients demo_server i = Some c" for i c
    using that by (auto simp: demo_server_def split: if_splits)
  moreover have "session_bound demo_server 0" "session_bound demo_server 1"
    by (simp_all add: session_bound_def hc_demo)
  ultimately show ?thesis by (auto simp: net_inv_def demo_held)
qed

lemma demo_sessions_ok: "sessions_ok t demo_server" "bound_client demo_server 0" "bound_client demo_server 1"
  using net_inv_sessions_ok[OF demo_net_inv] by simp_all

lemma full_client_facts [simp]:
  "client_ok t full_client" "length (send_bytes full_client) = nat BUFFER_SIZE" "\<not> m_isClosing full_client"
proof -
  have "buf_ok (PulledBuffer_new\<lparr>m_Length := BUFFER_SIZE\<rparr>)"
    using buf_ok_new by (simp add: buf_ok_def BUFFER_SIZE_val)
  then show "client_ok t full_client" "length (send_bytes full_client) = nat BUFFER_SIZE"
    using client_ok_upd_send(1)[OF demo_client_ok] length_contents by (simp_all add: full_client_def)
qed (simp add: full_client_def)

lemma full_server_ok: "sessions_ok t full_server"
  unfolding full_server_def
  by (rule set_client_ok[OF demo_sessions_ok(1) demo_server_fields(1)]) (simp_all add: client_link_def, simp_all add: full_client_def)

lemma full_server_fields [simp]:
  "clients full_server 0 = Some full_client" "clients full_server (Suc 0) = Some (demo_client 201 1 3)"
  "m_clients (manager full_server) = [Some 0, Some 1]"
  by (simp_all add: full_server_def)

end
