(* ===== verification/Echo_Wire.thy ===== *)
theory Echo_Wire
  imports Session_Lifecycle
begin

text \<open>
  One receive of echo packets, from the completion the worker takes to the \<^verbatim>\<open>WSASend\<close> on the wire. The
  theory adds to the lemmas on packets and sessions what is posted to the operating system.
\<close>

section \<open>What is posted\<close>

text \<open>The sends of a trace, with their sockets and bytes.\<close>

fun wsa_sends :: "trace \<Rightarrow> (SOCKET \<times> byte list) list" where
  "wsa_sends [] = []"
| "wsa_sends (WSASend_call sock bs ov # tr) = (sock, bs) # wsa_sends tr"
| "wsa_sends (_ # tr) = wsa_sends tr"

lemma wsa_sends_append [simp]: "wsa_sends (tr @ tr') = wsa_sends tr @ wsa_sends tr'"
  by (induction tr rule: wsa_sends.induct) simp_all

lemma wsa_sends_printf [simp]: "wsa_sends (calls (printf msg w)) = wsa_sends (calls w)"
  by (simp add: printf_def)

lemma flush_posts:
  assumes "sessions_ok t w" "bound_client w i" "clients w i = Some c" "send_bytes c \<noteq> []" "m_SendIoState c \<noteq> IO_PENDING"
  shows "\<exists>w' c'. flush_this os t i w = Inr w' \<and> sessions_ok t w' \<and> link_frame w w' \<and> clients w' i = Some c'
    \<and> wsa_sends (calls w') = wsa_sends (calls w) @ [(m_Socket c, send_bytes c)]
    \<and> recv_bytes c' = recv_bytes c \<and> m_isClosing c' = m_isClosing c"
proof -
  have ok: "client_ok t c" using assms(1,3) by (simp add: sessions_ok_def)
  obtain sv h' where sv: "m_pSendOverlapped c = Some sv" "upd_cell Reset sv (heap w) = Inr h'"
    using assms(2,3) by (auto simp: bound_client_def upd_cell_def)
  let ?c = "c\<lparr>m_SendIoState := IO_PENDING\<rparr>"
  obtain r where run: "FlushSendBuffer os t (c, heap w, calls w)
      = Inr (r, ?c, h', calls w @ [WSASend_call (m_Socket c) (send_bytes c) sv])"
    using FlushSendBuffer_client_ok[OF ok, of os "heap w" "calls w"] assms(4,5) sv by (simp add: send_posted_def)
  have "client_ok t ?c" using ok by (simp add: client_ok_def)
  from on_client_frame[where f = "FlushSendBuffer os t", OF assms(1,3) run client_frame_upd(3) this heap_frame_upd_Reset[OF sv(2)]]
  obtain w' where "on_client i (FlushSendBuffer os t) w = Inr (r, w')" "sessions_ok t w'" "server_frame w w'"
    "clients w' i = Some ?c" "calls w' = calls w @ [WSASend_call (m_Socket c) (send_bytes c) sv]" by blast
  then show ?thesis by (auto simp: recv_bytes_def intro: server_frame_link)
qed

lemma RecvAsync_sends:
  assumes "on_client i (RecvAsync os) w = Inr (r, w')"
  shows "wsa_sends (calls w') = wsa_sends (calls w)"
  using assms by (auto simp: on_client_def RecvAsync_def Let_def bindE_eq_Inr split: option.splits if_splits)

section \<open>A receive of echo packets\<close>

lemma OnReceived_posts:
  assumes "sessions_ok t w" "bound_client w i" "clients w i = Some c" "received c bs"
    and fr: "frames (recv_bytes c @ bs) = (fs, rest)" and echo: "\<forall>f\<in>set fs. echo_packet f" and ne: "fs \<noteq> []"
    and idle: "send_bytes c = []" "m_SendIoState c \<noteq> IO_PENDING" and room: "length (concat fs) \<le> nat BUFFER_SIZE"
  shows "\<exists>w' c'. OnReceived os t (int (length bs)) i w = Inr w' \<and> sessions_ok t w' \<and> link_frame w w' \<and> clients w' i = Some c'
    \<and> wsa_sends (calls w') = wsa_sends (calls w) @ [(m_Socket c, concat fs)]
    \<and> recv_bytes c' = rest \<and> m_isClosing c' = m_isClosing c"
proof -
  obtain w1 c1 where w1: "clients w1 i = Some c1" "sessions_ok t w1" "bound_client w1 i" "link_frame w w1"
    "recv_bytes c1 = recv_bytes c @ bs" "send_bytes c1 = send_bytes c" "m_isClosing c1 = m_isClosing c"
    "m_SendIoState c1 = m_SendIoState c" "calls w1 = calls w"
    "OnReceived os t (int (length bs)) i w = TryProcessPacket os t i w1"
    using OnReceived_dispatch[OF assms(1-4) fr, of os] by metis
  have fr1: "frames (recv_bytes c1) = (fs, rest)" using fr w1(5) by simp
  have long: "\<not> length (recv_bytes c1) < 2"
  proof
    assume "length (recv_bytes c1) < 2"
    then have "\<not> frame_ready (recv_bytes c1)" by (simp add: frame_ready_def)
    with fr1 ne show False by (simp add: frames_not_ready)
  qed
  have whole: "\<forall>f\<in>set fs. whole_frame f \<and> echo_packet f" using echo frames_whole[OF fr1] by blast
  obtain w2 c2 where w2: "dispatch os t i fs w1 = Inr w2" "sessions_ok t w2" "link_frame w1 w2" "clients w2 i = Some c2"
    "recv_bytes c2 = rest" "send_bytes c2 = concat fs" "m_isClosing c2 = m_isClosing c1"
    "m_SendIoState c2 = m_SendIoState c1" "calls w2 = calls w1"
    using dispatch_echo[OF w1(2,1) _ whole, of rest os] frames_concat[OF fr1] room w1(6) idle(1) by auto
  obtain f where f: "f \<in> set fs" using ne by (cases fs) auto
  then have "length f = frame_data_size f + 4" using whole by (simp add: whole_frame_def)
  then have "f \<noteq> []" by auto
  with f have "concat fs \<noteq> []" by auto
  then have "send_bytes c2 \<noteq> []" "m_SendIoState c2 \<noteq> IO_PENDING" using w2(6,8) w1(8) idle(2) by simp_all
  from flush_posts[OF w2(2) link_frame_bound[OF w2(3) w1(3)] w2(4) this, of os]
  obtain w3 c3 where w3: "flush_this os t i w2 = Inr w3" "sessions_ok t w3" "link_frame w2 w3" "clients w3 i = Some c3"
    "wsa_sends (calls w3) = wsa_sends (calls w2) @ [(m_Socket c2, send_bytes c2)]" "recv_bytes c3 = recv_bytes c2"
    "m_isClosing c3 = m_isClosing c2" by blast
  have l: "link_frame w w2" using link_frame_trans[OF w1(4) w2(3)] .
  have "m_Socket c2 = m_Socket c" using link_frame_client[OF l assms(3)] w2(4) by (auto simp: client_link_def)
  moreover have "link_frame w w3" using link_frame_trans[OF l w3(3)] .
  moreover have "OnReceived os t (int (length bs)) i w = Inr w3"
    using w1(10) TryProcessPacket_dispatch(1)[OF w1(2,3,1) fr1, of os] long w2(1) w3(1) by simp
  ultimately show ?thesis using w3 w2 w1 by auto
qed

text \<open>The turn of the worker that takes such a completion.\<close>

lemma worker_echo:
  assumes inv: "net_inv t w" and hc: "hc (heap w) a = Some i" and cl: "clients w i = Some c"
    and recv: "m_pRecvOverlapped c = Some a" "m_RecvIoState c = IO_PENDING" "received c bs" "bs \<noteq> []"
    and fr: "frames (recv_bytes c @ bs) = (fs, rest)" and echo: "\<forall>f\<in>set fs. echo_packet f" and ne: "fs \<noteq> []"
    and idle: "send_bytes c = []" "m_SendIoState c \<noteq> IO_PENDING" "\<not> m_isClosing c"
    and room: "length (concat fs) \<le> nat BUFFER_SIZE"
  shows "\<exists>w' c'. WorkerThread_step os t \<lparr>retval = 1, cbTransferred = int (length bs), ov_data = Some a\<rparr> w = Inr w'
    \<and> net_inv t w' \<and> wsa_sends (calls w') = wsa_sends (calls w) @ [(m_Socket c, concat fs)]
    \<and> clients w' i = Some c' \<and> recv_bytes c' = rest \<and> m_RecvIoState c' = IO_PENDING \<and> \<not> m_isClosing c'"
proof -
  have l: "listed w i" by (rule net_inv_owner[OF inv hc]) simp
  note ok = net_inv_sessions_ok(1)[OF inv] net_inv_sessions_ok(2)[OF inv l]
  obtain s where s: "m_pSendOverlapped c = Some s" "a \<noteq> s"
    using net_inv_owner[OF inv hc] cl recv(1) by (metis option.inject)
  obtain w1 c1 where w1: "OnReceived os t (int (length bs)) i w = Inr w1" "sessions_ok t w1" "link_frame w w1"
    "clients w1 i = Some c1" "wsa_sends (calls w1) = wsa_sends (calls w) @ [(m_Socket c, concat fs)]"
    "recv_bytes c1 = rest" "m_isClosing c1 = m_isClosing c"
    using OnReceived_posts[OF ok cl recv(3) fr echo ne idle(1,2) room, of os] by blast
  have b1: "bound_client w1 i" by (rule link_frame_bound[OF w1(3) ok(2)])
  obtain r w2 c2 where w2: "on_client i (RecvAsync os) w1 = Inr (r, w2)" "sessions_ok t w2" "link_frame w1 w2"
    "clients w2 i = Some c2" "m_RecvIoState c2 = IO_PENDING" "recv_bytes c2 = recv_bytes c1" "m_isClosing c2 = m_isClosing c1"
    using RecvAsync_step[OF w1(2) b1 w1(4), of os] by blast
  have l2: "link_frame w w2" using link_frame_trans[OF w1(3) w2(3)] .
  define w3 where "w3 = (if r \<noteq> 0 then err_display ''WSARecv() Error at WorkerThread.'' w2 else w2)"
  have "Worker_received os t (int (length bs)) a i w = Inr w3"
    using cl recv(1,2) w1(1) IsValid_step[OF w1(2,4)] w1(7) idle(3) w2(1)
    by (simp add: Worker_received_def get_client_def client_accessors w3_def)
  moreover have c3: "clients w3 i = Some c2" using w2(4) by (simp add: w3_def err_display_def)
  moreover have "m_pSendOverlapped c2 = Some s"
    using link_frame_client[OF l2 cl] w2(4) s(1) by (auto simp: client_link_def)
  then have "Worker_sent os t (int (length bs)) a i w3 = Inr w3"
    using c3 s(2) by (simp add: Worker_sent_def get_client_def client_accessors)
  ultimately have "WorkerThread_step os t \<lparr>retval = 1, cbTransferred = int (length bs), ov_data = Some a\<rparr> w = Inr w3"
    using get_cell_hc[OF hc] recv(4) by (auto simp: WorkerThread_step_def)
  moreover have "net_inv t w3" using net_inv_link[OF inv l2 w2(2)] by (simp add: w3_def err_display_def)
  moreover have "wsa_sends (calls w3) = wsa_sends (calls w) @ [(m_Socket c, concat fs)]"
    using RecvAsync_sends[OF w2(1)] w1(5) by (simp add: w3_def err_display_def)
  ultimately show ?thesis using c3 w2(5-7) w1(6,7) idle(3) by auto
qed

end
