(* ===== verification/Spare_Sources.thy ===== *)
theory Spare_Sources
  imports Network_Core
begin

text \<open>
  Code of the first server that its \<^verbatim>\<open>main\<close> does not reach: the class \<^verbatim>\<open>TcpSocket\<close> of
  \<^verbatim>\<open>socket/TcpSocket.h\<close>, from which \<^verbatim>\<open>TcpServer\<close> and \<^verbatim>\<open>TcpClient\<close> were made, the completion port as the header
  \<^verbatim>\<open>iocp/CIocp.h\<close> had it before \<^verbatim>\<open>Iocp.cpp\<close>, \<^verbatim>\<open>utility/ConsoleLogger.h\<close>, and
  \<^verbatim>\<open>Network::RunWithAcceptEx\<close>. The lemmas relate the older classes to the ones the server uses.
\<close>

section \<open>TcpSocket\<close>

record TcpSocket =
  ts_Socket :: SOCKET
  ts_SocketAddr :: SOCKADDR_IN
  ts_IsSetupAddr :: bool

record send_winsock = winsock +
  send_ret :: "trace \<Rightarrow> SOCKET \<Rightarrow> byte list \<Rightarrow> int"

definition TcpSocket_Initialize_void :: "TcpSocket \<Rightarrow> int \<times> TcpSocket" where
  "TcpSocket_Initialize_void s = (0, s)"

text \<open>\<open>addrLen\<close> is the size of the address structure.\<close>

definition TcpSocket_Initialize :: "'w winsock_scheme \<Rightarrow> SOCKET \<Rightarrow> SOCKADDR_IN \<Rightarrow> TcpSocket \<times> trace \<Rightarrow> int \<times> TcpSocket \<times> trace" where
  "TcpSocket_Initialize os socket addr = (\<lambda>(s, tr).
     let s1 = s\<lparr>ts_Socket := socket, ts_SocketAddr := addr\<rparr>;
         s2 = (case getpeername_ret os tr socket of None \<Rightarrow> s1 | Some peer \<Rightarrow> s1\<lparr>ts_SocketAddr := peer\<rparr>)
     in (0, s2\<lparr>ts_IsSetupAddr := True\<rparr>, tr @ [getpeername_call socket]))"

text \<open>The result of \<^verbatim>\<open>bind\<close> is not looked at; the socket is returned as an \<^verbatim>\<open>int\<close>.\<close>

definition TcpSocket_Bind :: "'w winsock_scheme \<Rightarrow> 16 word \<Rightarrow> TcpSocket \<times> trace \<Rightarrow> int \<times> TcpSocket \<times> trace" where
  "TcpSocket_Bind os listenPort = (\<lambda>(s, tr).
     let sock = socket_ret os tr; tr1 = tr @ [socket_call]; s1 = s\<lparr>ts_Socket := sock\<rparr>
     in if sock = INVALID_SOCKET then (-1, s1, tr1)
        else
          let addr = \<lparr>sin_family = AF_INET, sin_port = htons listenPort, s_addr = 0\<rparr>;
              s2 = s1\<lparr>ts_SocketAddr := addr, ts_IsSetupAddr := True\<rparr>;
              tr2 = tr1 @ [bind_call sock addr];
              result = listen_ret os tr2 sock;
              tr3 = tr2 @ [listen_call sock]
          in if result = SOCKET_ERROR then (SOCKET_ERROR, s2, tr3) else (i32 sock, s2, tr3))"

definition TcpSocket_Accept :: "'w winsock_scheme \<Rightarrow> TcpSocket \<times> trace \<Rightarrow> (SOCKET \<times> SOCKADDR_IN) \<times> trace" where
  "TcpSocket_Accept os = (\<lambda>(s, tr). (accept_ret os tr (ts_Socket s), tr @ [accept_call (ts_Socket s)]))"

definition TcpSocket_SendAsync :: int where
  "TcpSocket_SendAsync = 0"

text \<open>\<open>sendBytes\<close> is not compared with what the buffer holds, only the array bounds what can be read.\<close>

definition TcpSocket_Send :: "send_winsock \<Rightarrow> PulledBuffer option \<Rightarrow> int \<Rightarrow> TcpSocket \<times> trace \<Rightarrow> (int \<times> trace) res" where
  "TcpSocket_Send os buffer sendBytes = (\<lambda>(s, tr). case buffer of
     None \<Rightarrow> Inr (-1, tr)
   | Some b \<Rightarrow>
       if sendBytes > 0 then
         (if GetPtr b + sendBytes > int (length (m_Buffer b)) then Inl OutOfBounds
          else let bs = mem_read (m_Buffer b) (nat (GetPtr b)) (nat sendBytes)
               in Inr (send_ret os tr (ts_Socket s) bs, tr @ [send_call (ts_Socket s) bs]))
       else Inr (-1, tr))"

definition TcpSocket_RecvAsync ::
  "'w winsock_scheme \<Rightarrow> PulledBuffer option \<Rightarrow> nat \<Rightarrow> TcpSocket \<times> trace \<Rightarrow> (int \<times> trace) res" where
  "TcpSocket_RecvAsync os buffer overlapped = (\<lambda>(s, tr). case buffer of
     None \<Rightarrow> Inl NullDeref
   | Some b \<Rightarrow>
       (let result = WSARecv_ret os tr (ts_Socket s) BUFFER_SIZE;
            tr1 = tr @ [WSARecv_call (ts_Socket s) (GetPtr b) BUFFER_SIZE overlapped]
        in if wsa_failed result then Inr (-1, tr1) else Inr (0, tr1)))"

definition TcpSocket_Close :: "TcpSocket \<times> trace \<Rightarrow> trace" where
  "TcpSocket_Close = (\<lambda>(s, tr). tr @ [closesocket_call (ts_Socket s)])"

definition TcpSocket_GetSocket :: "TcpSocket \<Rightarrow> SOCKET" where
  "TcpSocket_GetSocket s = ts_Socket s"

section \<open>CIocp in its header\<close>

text \<open>The loop over a 32-bit counter, which does not wrap below the bound.\<close>

lemma counter_step: "unat (i + 1 :: 32 word) = Suc (unat i)" if "i < n"
proof -
  have "unat i < unat n" "unat n < 2 ^ 32" using that unsigned_less[of n] by (simp_all add: word_less_nat_alt)
  then show ?thesis by (simp add: unat_word_ariths)
qed

function hdr_threads :: "winsock \<Rightarrow> 32 word \<Rightarrow> 32 word \<Rightarrow> int \<Rightarrow> trace \<Rightarrow> int \<times> trace" where
  "hdr_threads os i n port tr =
     (if i < n then
        (let hThread = beginthreadex_ret os tr; tr1 = tr @ [beginthreadex_call port]
         in if hThread = 0 then (-2, tr1)
            else hdr_threads os (i + 1) n port (tr1 @ [CloseHandle_call hThread]))
      else (0, tr))"
  by pat_completeness auto
termination
proof (relation "measure (\<lambda>(os, i, n, port, tr). unat n - unat i)", goal_cases)
  case 1
  then show ?case by simp
next
  case (2 os i n port tr)
  then have "unat i < unat n" by (simp add: word_less_nat_alt)
  with counter_step[OF 2(1)] show ?case by simp
qed

declare hdr_threads.simps [simp del]

definition hdr_StartIocpThread :: "winsock \<Rightarrow> 32 word \<Rightarrow> CIocp \<times> trace \<Rightarrow> int \<times> CIocp \<times> trace" where
  "hdr_StartIocpThread os numberOfThread = (\<lambda>(c, tr).
     let iocpHandle = CreateIoCompletionPort_ret os tr INVALID_HANDLE_VALUE 0 0;
         tr1 = tr @ [CreateIoCompletionPort_call INVALID_HANDLE_VALUE 0 0]
     in if iocpHandle = 0 then (-1, c, tr1)
        else let c1 = c\<lparr>m_iocpHandle := iocpHandle\<rparr>;
                 (r, tr2) = hdr_threads os 0 numberOfThread iocpHandle tr1
             in (r, c1, tr2))"

definition hdr_BindSocket :: "winsock \<Rightarrow> SOCKET \<Rightarrow> int \<Rightarrow> CIocp \<times> trace \<Rightarrow> int \<times> trace" where
  "hdr_BindSocket os socket completionKey = (\<lambda>(c, tr).
     let hResult = CreateIoCompletionPort_ret os tr socket (m_iocpHandle c) completionKey;
         tr1 = tr @ [CreateIoCompletionPort_call socket (m_iocpHandle c) completionKey]
     in if hResult = 0 then (-1, tr1) else (0, tr1))"

section \<open>ConsoleLogger\<close>

definition Print :: "string \<Rightarrow> string \<Rightarrow> trace \<Rightarrow> trace" where
  "Print category txt tr = tr @ [printf_call (''['' @ category @ ''] - '' @ txt)]"

definition Logger_Debug :: "string \<Rightarrow> trace \<Rightarrow> trace" where
  "Logger_Debug txt = Print ''Debug'' txt"

definition Logger_Info :: "string \<Rightarrow> trace \<Rightarrow> trace" where
  "Logger_Info txt = Print ''Info'' txt"

definition Logger_Warn :: "string \<Rightarrow> trace \<Rightarrow> trace" where
  "Logger_Warn txt = Print ''Warn'' txt"

definition Logger_Error :: "string \<Rightarrow> trace \<Rightarrow> trace" where
  "Logger_Error txt = Print ''Error'' txt"

definition Logger_Fatal :: "string \<Rightarrow> trace \<Rightarrow> trace" where
  "Logger_Fatal txt = Print ''Fatal'' txt"

section \<open>RunWithAcceptEx\<close>

text \<open>The body is commented out but for an endless sleep; \<open>n\<close> turns of it.\<close>

fun RunWithAcceptEx :: "nat \<Rightarrow> Network \<Rightarrow> Network" where
  "RunWithAcceptEx 0 net = net"
| "RunWithAcceptEx (Suc n) net = RunWithAcceptEx n (net\<lparr>srv := (srv net)\<lparr>calls := calls (srv net) @ [Sleep_call 1000]\<rparr>\<rparr>)"

section \<open>Old and new\<close>

text \<open>The header's loop ends for every count and starts the threads the server's loop starts.\<close>

lemma hdr_threads_eq: "hdr_threads os i n port tr = start_threads os (unat n - unat i) port tr"
proof (induction os i n port tr rule: hdr_threads.induct)
  case (1 os i n port tr)
  show ?case
  proof (cases "i < n")
    case True
    then have "unat i < unat n" by (simp add: word_less_nat_alt)
    with counter_step[OF True] have k: "unat n - unat i = Suc (unat n - unat (i + 1))" by simp
    from True 1[OF True refl refl] show ?thesis
      unfolding k start_threads.simps by (subst hdr_threads.simps) (simp add: Let_def)
  next
    case False
    then have "unat n - unat i = 0" by (simp add: word_less_nat_alt)
    with False show ?thesis by (subst hdr_threads.simps) simp
  qed
qed

lemma hdr_StartIocpThread_eq: "hdr_StartIocpThread os n = StartIocpThread os (unat n)"
  by (simp add: hdr_StartIocpThread_def StartIocpThread_def hdr_threads_eq fun_eq_iff Let_def)

text \<open>\<^verbatim>\<open>TcpServer\<close> opens the listening socket as \<^verbatim>\<open>TcpSocket\<close> did, and says so when a call fails: when \<^verbatim>\<open>bind\<close>
  succeeds both make the same calls but for the messages, and agree on the result.\<close>

fun is_printf :: "os_call \<Rightarrow> bool" where
  "is_printf (printf_call _) = True"
| "is_printf _ = False"

lemma TcpSocket_Bind_TcpServer:
  assumes "\<And>tr s a. bind_ret os tr s a \<noteq> SOCKET_ERROR" "filter is_printf tr = []"
    and "TcpSocket_Bind os port (s, tr) = (r, s', tr')" "Bind os port (v, tr) = (sock, v', tr'')"
  shows "tr' = filter (Not \<circ> is_printf) tr'' \<and> ts_Socket s' = ls_Socket v'
    \<and> (r = -1 \<longleftrightarrow> sock = INVALID_SOCKET \<or> i32 sock = -1)"
proof -
  have "filter (\<lambda>x. \<not> is_printf x) tr = tr" using assms(2) by (metis (no_types, lifting) filter_True filter_empty_conv)
  with assms show ?thesis
    by (auto simp: TcpSocket_Bind_def Bind_def Let_def SOCKET_ERROR_def comp_def split: if_splits)
qed

text \<open>A receive of the old class goes to the front of the buffer: it would overwrite unread bytes, where the
  session of the server receives behind them.\<close>

lemma old_receive_overwrites:
  assumes "TcpSocket_RecvAsync os (Some b) ov (s, tr) = Inr (r, tr')"
  shows "tr' = tr @ [WSARecv_call (ts_Socket s) 0 BUFFER_SIZE ov]"
  using assms by (auto simp: TcpSocket_RecvAsync_def Let_def GetPtr_def split: if_splits)

end
