(* ===== verification/Gl_Session.thy ===== *)
theory Gl_Session
  imports Win_Api Auto_Lock Resource_Pool Session_Manager
begin

text \<open>
  The session objects of the rewrite under \<^verbatim>\<open>gordonlee/src/network\<close>: \<^verbatim>\<open>iocp_structure.h\<close>,
  \<^verbatim>\<open>tcp_client.h\<close>/\<^verbatim>\<open>.cpp\<close> and \<^verbatim>\<open>tcp_session_pool.h\<close>/\<^verbatim>\<open>.cpp\<close>. \<^verbatim>\<open>utility/scoped_lock.h\<close> repeats
  \<^verbatim>\<open>AutoLock.h\<close>, so the guards are those of \<open>Auto_Lock\<close>.

  Objects live on a heap, an array at consecutive addresses. Members a constructor does not set are
  \<open>None\<close> until they are assigned.
\<close>

section \<open>iocp\_structure.h\<close>

record gl_OverlappedIO =
  gl_Internal :: int
  gl_InternalHigh :: int
  gl_Offset :: int
  gl_OffsetHigh :: int
  gl_Pointer :: int
  gl_hEvent :: int
  gl_client :: "nat option"   \<comment> \<open>the object a \<^verbatim>\<open>shared_ptr<TcpClient>\<close> owns\<close>

definition gl_Reset :: "gl_OverlappedIO \<Rightarrow> gl_OverlappedIO" where
  "gl_Reset v = v\<lparr>gl_Internal := 0, gl_InternalHigh := 0, gl_Offset := 0, gl_OffsetHigh := 0,
     gl_Pointer := 0, gl_hEvent := 0\<rparr>"

definition gl_OverlappedIO_new :: gl_OverlappedIO where
  "gl_OverlappedIO_new = gl_Reset \<lparr>gl_Internal = 0, gl_InternalHigh = 0, gl_Offset = 0,
     gl_OffsetHigh = 0, gl_Pointer = 0, gl_hEvent = 0, gl_client = None\<rparr>"

definition set_session :: "nat option \<Rightarrow> gl_OverlappedIO \<Rightarrow> gl_OverlappedIO" where
  "set_session c v = v\<lparr>gl_client := c\<rparr>"

section \<open>tcp\_client\<close>

datatype SessionStatus = NOT_CONNECTED | CONNECTING | CONNECTED

record gl_TcpClient =
  cl_socket :: SOCKET
  local_addr :: "SOCKADDR_IN option"
  remote_addr :: "SOCKADDR_IN option"
  status :: "SessionStatus option"
  accept_buffer :: "byte list"
  accept_bytes :: "int option"
  accept_overlapped :: "nat option"

record gl_heap =
  objs :: "nat \<rightharpoonup> gl_TcpClient"
  ovls :: "nat \<rightharpoonup> gl_OverlappedIO"
  next_obj :: nat
  next_ovl :: nat
  dying :: "nat set"      \<comment> \<open>overlapped structures whose destructor is running\<close>
  gl_calls :: trace

definition gl_heap_empty :: gl_heap where
  "gl_heap_empty = \<lparr>objs = Map.empty, ovls = Map.empty, next_obj = 0, next_ovl = 0, dying = {}, gl_calls = []\<rparr>"

text \<open>The constructor, run at address \<open>a\<close>. The overlapped structure gets a \<^verbatim>\<open>shared_ptr\<close> made from
  \<^verbatim>\<open>this\<close>, with a reference count of its own.\<close>

definition TcpClient_ctor :: "'w winsock_scheme \<Rightarrow> nat \<Rightarrow> gl_heap \<Rightarrow> gl_heap" where
  "TcpClient_ctor os a h =
     (let v = next_ovl h;
          c = \<lparr>cl_socket = socket_ret os (gl_calls h), local_addr = None, remote_addr = None, status = None,
               accept_buffer = replicate 1024 0, accept_bytes = None, accept_overlapped = Some v\<rparr>
      in h\<lparr>ovls := (ovls h)(v \<mapsto> set_session (Some a) gl_OverlappedIO_new), next_ovl := Suc v,
           objs := (objs h)(a \<mapsto> c), gl_calls := gl_calls h @ [socket_call]\<rparr>)"

definition new_TcpClient :: "'w winsock_scheme \<Rightarrow> gl_heap \<Rightarrow> nat \<times> gl_heap" where
  "new_TcpClient os h = (let a = next_obj h in (a, TcpClient_ctor os a (h\<lparr>next_obj := Suc a\<rparr>)))"

fun construct_array :: "'w winsock_scheme \<Rightarrow> nat \<Rightarrow> nat \<Rightarrow> gl_heap \<Rightarrow> gl_heap" where
  "construct_array os 0 a h = h"
| "construct_array os (Suc n) a h = construct_array os n (Suc a) (TcpClient_ctor os a h)"

text \<open>Destruction. Deleting the overlapped structure destroys its \<^verbatim>\<open>shared_ptr\<close>, the only one of its
  count, which deletes the session object. Deleting a structure whose destructor is already running
  is undefined. The fuel bounds the nesting.\<close>

fun TcpClient_dtor :: "nat \<Rightarrow> nat \<Rightarrow> gl_heap \<Rightarrow> gl_heap res"
  and OverlappedIO_delete :: "nat \<Rightarrow> nat \<Rightarrow> gl_heap \<Rightarrow> gl_heap res" where
  "TcpClient_dtor 0 a h = Inl OutOfFuel"
| "TcpClient_dtor (Suc n) a h = (case objs h a of None \<Rightarrow> Inl DanglingPtr
     | Some c \<Rightarrow> (case accept_overlapped c of None \<Rightarrow> Inr h
         | Some v \<Rightarrow> bindE (OverlappedIO_delete n v h) (\<lambda>h1.
             case objs h1 a of None \<Rightarrow> Inl DanglingPtr
             | Some c1 \<Rightarrow> Inr (h1\<lparr>objs := (objs h1)(a \<mapsto> c1\<lparr>accept_overlapped := None\<rparr>)\<rparr>))))"
| "OverlappedIO_delete 0 v h = Inl OutOfFuel"
| "OverlappedIO_delete (Suc n) v h =
     (if v \<in> dying h then Inl DanglingPtr else
      case ovls h v of None \<Rightarrow> Inl DanglingPtr
     | Some ov \<Rightarrow> (let h1 = h\<lparr>dying := insert v (dying h)\<rparr> in
         bindE (case gl_client ov of None \<Rightarrow> Inr h1
                | Some a \<Rightarrow> bindE (TcpClient_dtor n a h1) (\<lambda>h2. Inr (h2\<lparr>objs := (objs h2)(a := None)\<rparr>)))
           (\<lambda>h3. Inr (h3\<lparr>ovls := (ovls h3)(v := None), dying := dying h3 - {v}\<rparr>))))"

definition delete_TcpClient :: "nat \<Rightarrow> nat \<Rightarrow> gl_heap \<Rightarrow> gl_heap res" where
  "delete_TcpClient fuel a h = bindE (TcpClient_dtor fuel a h) (\<lambda>h'. Inr (h'\<lparr>objs := (objs h')(a := None)\<rparr>))"

record gl_winsock = winsock +
  GetAcceptExSockaddrs_ret :: "byte list \<Rightarrow> int option \<Rightarrow> SOCKADDR_IN \<times> SOCKADDR_IN"

definition calm_gl_winsock :: gl_winsock where
  "calm_gl_winsock = winsock.extend calm_winsock
     \<lparr>GetAcceptExSockaddrs_ret = (\<lambda>_ _. (zero_addr, zero_addr\<lparr>sin_port := htons 4000\<rparr>))\<rparr>"

definition OnAccept :: "gl_winsock \<Rightarrow> nat \<Rightarrow> gl_heap \<Rightarrow> gl_heap res" where
  "OnAccept os a h = (case objs h a of None \<Rightarrow> Inl DanglingPtr
     | Some c \<Rightarrow> (let (la, ra) = GetAcceptExSockaddrs_ret os (accept_buffer c) (accept_bytes c);
          c1 = c\<lparr>local_addr := Some la, remote_addr := Some ra, status := Some CONNECTED\<rparr>
        in Inr (h\<lparr>objs := (objs h)(a \<mapsto> c1),
             gl_calls := gl_calls h @ [GetAcceptExSockaddrs_call a, printf_call ''Client Accepted'']\<rparr>)))"

section \<open>tcp\_session\_pool\<close>

record TcpSessionPool =
  num_init_ccu :: int
  wait_clients :: "nat list"
  data_pool :: "nat list"
  pool_lock_gl :: "CRITICAL_SECTION option"

type_synonym session_pool = "gl_heap \<times> TcpSessionPool"

definition TcpSessionPool_new :: "CRITICAL_SECTION option \<Rightarrow> TcpSessionPool" where
  "TcpSessionPool_new lock = \<lparr>num_init_ccu = 100, wait_clients = [], data_pool = [], pool_lock_gl = lock\<rparr>"

abbreviation sp_lock :: "session_pool \<Rightarrow> CRITICAL_SECTION option" where
  "sp_lock s \<equiv> pool_lock_gl (snd s)"

abbreviation sp_set_lock :: "CRITICAL_SECTION option \<Rightarrow> session_pool \<Rightarrow> session_pool" where
  "sp_set_lock l s \<equiv> (fst s, (snd s)\<lparr>pool_lock_gl := l\<rparr>)"

definition get_num_init_ccu :: "TcpSessionPool \<Rightarrow> int" where
  "get_num_init_ccu p = num_init_ccu p"

definition PushWaitQueue :: "tid \<Rightarrow> nat \<Rightarrow> session_pool \<Rightarrow> (unit \<times> session_pool) res" where
  "PushWaitQueue t client = AutoLock_scope t sp_lock sp_set_lock (\<lambda>(h, p).
     Inr ((), (h, p\<lparr>wait_clients := wait_clients p @ [client]\<rparr>)))"

fun push_loop :: "tid \<Rightarrow> nat \<Rightarrow> nat \<Rightarrow> session_pool \<Rightarrow> session_pool res" where
  "push_loop t 0 push_back_ptr s = Inr s"
| "push_loop t (Suc n) push_back_ptr s =
     bindE (PushWaitQueue t push_back_ptr s) (\<lambda>(_, s'). push_loop t n (Suc push_back_ptr) s')"

definition GrowWaitPoolSize :: "'w winsock_scheme \<Rightarrow> tid \<Rightarrow> session_pool \<Rightarrow> (bool \<times> session_pool) res" where
  "GrowWaitPoolSize os t = AutoLock_scope t sp_lock sp_set_lock (\<lambda>(h, p).
     let n = nat (get_num_init_ccu p); alloc_data = next_obj h;
         h1 = construct_array os n alloc_data (h\<lparr>next_obj := alloc_data + n\<rparr>);
         p1 = p\<lparr>data_pool := data_pool p @ [alloc_data]\<rparr>
     in bindE (push_loop t n alloc_data (h1, p1)) (\<lambda>s'. Inr (True, s')))"

definition PopFromWaitQueue :: "'w winsock_scheme \<Rightarrow> tid \<Rightarrow> session_pool \<Rightarrow> (nat \<times> session_pool) res" where
  "PopFromWaitQueue os t = AutoLock_scope t sp_lock sp_set_lock (\<lambda>s.
     bindE (if wait_clients (snd s) = [] then bindE (GrowWaitPoolSize os t s) (\<lambda>(_, s'). Inr s') else Inr s)
       (\<lambda>(h, p). case wait_clients p of [] \<Rightarrow> Inl EmptyFront
          | dequeue # rest \<Rightarrow> Inr (dequeue, (h, p\<lparr>wait_clients := rest\<rparr>))))"

definition CheckWaitPoolSize :: "tid \<Rightarrow> session_pool \<Rightarrow> (bool \<times> session_pool) res" where
  "CheckWaitPoolSize t = AutoLock_scope t sp_lock sp_set_lock (\<lambda>(h, p).
     Inr (int (length (wait_clients p)) < get_num_init_ccu p, (h, p)))"

section \<open>Closed forms and the pool contract\<close>

interpretation sp_lk: lock_field sp_lock sp_set_lock
  by unfold_locales auto

lemma PushWaitQueue_avail [op_eqs]:
  "lock_avail t (pool_lock_gl p) \<Longrightarrow>
   PushWaitQueue t a (h, p) = Inr ((), (h, p\<lparr>wait_clients := wait_clients p @ [a]\<rparr>))"
  by (simp add: PushWaitQueue_def AutoLock_scope_def lock_simps)

lemma push_loop_avail:
  "lock_avail t (pool_lock_gl p) \<Longrightarrow>
   push_loop t n a (h, p) = Inr (h, p\<lparr>wait_clients := wait_clients p @ [a..<a + n]\<rparr>)"
proof (induction n arbitrary: a p)
  case (Suc n)
  have "[a..<a + Suc n] = a # [Suc a..<Suc a + n]" by (simp add: upt_conv_Cons)
  with Suc show ?case by (simp add: op_eqs)
qed simp

definition grown_heap :: "'w winsock_scheme \<Rightarrow> nat \<Rightarrow> gl_heap \<Rightarrow> gl_heap" where
  "grown_heap os n h = construct_array os n (next_obj h) (h\<lparr>next_obj := next_obj h + n\<rparr>)"

lemma GrowWaitPoolSize_avail [op_eqs]:
  assumes "lock_avail t (pool_lock_gl p)"
  shows "GrowWaitPoolSize os t (h, p) = Inr (True, (grown_heap os (nat (num_init_ccu p)) h,
    p\<lparr>data_pool := data_pool p @ [next_obj h],
      wait_clients := wait_clients p @ [next_obj h..<next_obj h + nat (num_init_ccu p)]\<rparr>))"
proof -
  let ?p = "p\<lparr>pool_lock_gl := lock_entered t (pool_lock_gl p), data_pool := data_pool p @ [next_obj h]\<rparr>"
  have "lock_avail t (pool_lock_gl ?p)" using assms by simp
  from push_loop_avail[OF this] assms show ?thesis
    by (simp add: GrowWaitPoolSize_def AutoLock_scope_def lock_simps Let_def get_num_init_ccu_def grown_heap_def)
qed

lemma PopFromWaitQueue_waiting:
  assumes "lock_avail t (pool_lock_gl p)" "wait_clients p = a # rest"
  shows "PopFromWaitQueue os t (h, p) = Inr (a, (h, p\<lparr>wait_clients := rest\<rparr>))"
  using assms by (simp add: PopFromWaitQueue_def AutoLock_scope_def lock_simps)

lemma PopFromWaitQueue_grow:
  assumes "lock_avail t (pool_lock_gl p)" "wait_clients p = []" "0 < num_init_ccu p"
  shows "PopFromWaitQueue os t (h, p) = Inr (next_obj h, (grown_heap os (nat (num_init_ccu p)) h,
    p\<lparr>data_pool := data_pool p @ [next_obj h],
      wait_clients := [Suc (next_obj h)..<next_obj h + nat (num_init_ccu p)]\<rparr>))"
proof -
  let ?n = "nat (num_init_ccu p)"
  have "[next_obj h..<next_obj h + ?n] = next_obj h # [Suc (next_obj h)..<next_obj h + ?n]"
    using assms(3) by (simp add: upt_conv_Cons)
  with assms show ?thesis
    by (simp add: PopFromWaitQueue_def AutoLock_scope_def lock_simps op_eqs)
qed

lemma construct_array_fields [simp]:
  "next_obj (construct_array os n a h) = next_obj h" "dying (construct_array os n a h) = dying h"
  by (induction n arbitrary: a h) (simp_all add: TcpClient_ctor_def Let_def)

text \<open>Every object that a constructor has made is tied to its own overlapped structure, and back.\<close>

definition tied :: "gl_heap \<Rightarrow> nat \<Rightarrow> bool" where
  "tied h a \<longleftrightarrow> (\<exists>c v ov. objs h a = Some c \<and> accept_overlapped c = Some v \<and> ovls h v = Some ov
     \<and> gl_client ov = Some a)"

definition gl_heap_ok :: "gl_heap \<Rightarrow> bool" where
  "gl_heap_ok h \<longleftrightarrow> (\<forall>v. ovls h v \<noteq> None \<longrightarrow> v < next_ovl h)
     \<and> (\<forall>a c v. objs h a = Some c \<and> accept_overlapped c = Some v \<longrightarrow> v < next_ovl h)"

lemma gl_heap_ok_empty [simp]: "gl_heap_ok gl_heap_empty"
  by (simp add: gl_heap_ok_def gl_heap_empty_def)

lemma TcpClient_ctor_tied:
  assumes "gl_heap_ok h"
  shows "gl_heap_ok (TcpClient_ctor os a h)" "tied (TcpClient_ctor os a h) a"
    "tied h b \<Longrightarrow> b \<noteq> a \<Longrightarrow> tied (TcpClient_ctor os a h) b"
proof -
  show "gl_heap_ok (TcpClient_ctor os a h)"
    using assms by (auto simp: gl_heap_ok_def TcpClient_ctor_def Let_def less_SucI split: if_splits)
  show "tied (TcpClient_ctor os a h) a"
    by (simp add: tied_def TcpClient_ctor_def Let_def set_session_def)
  assume "tied h b" "b \<noteq> a"
  moreover have "v \<noteq> next_ovl h" if "objs h b = Some c" "accept_overlapped c = Some v" for c v
    using assms that unfolding gl_heap_ok_def by (metis less_irrefl)
  ultimately show "tied (TcpClient_ctor os a h) b"
    by (auto simp: tied_def TcpClient_ctor_def Let_def)
qed

lemma construct_array_tied:
  assumes "gl_heap_ok h"
  shows "gl_heap_ok (construct_array os n a h)"
    "b \<in> {a..<a + n} \<or> (tied h b \<and> b < a) \<Longrightarrow> tied (construct_array os n a h) b"
proof -
  have "gl_heap_ok (construct_array os n a h)
    \<and> (\<forall>b. b \<in> {a..<a + n} \<or> (tied h b \<and> b < a) \<longrightarrow> tied (construct_array os n a h) b)"
    using assms
  proof (induction n arbitrary: a h)
    case (Suc n)
    note c = TcpClient_ctor_tied[OF Suc.prems, where os = os and a = a]
    have "b \<in> {Suc a..<Suc a + n} \<or> (tied (TcpClient_ctor os a h) b \<and> b < Suc a)"
      if "b \<in> {a..<a + Suc n} \<or> (tied h b \<and> b < a)" for b
      using that c(2,3) by (cases "b = a") auto
    with Suc.IH[OF c(1), of "Suc a"] show ?case
      unfolding construct_array.simps by blast
  qed simp
  then show "gl_heap_ok (construct_array os n a h)"
    "b \<in> {a..<a + n} \<or> (tied h b \<and> b < a) \<Longrightarrow> tied (construct_array os n a h) b"
    by blast+
qed

definition sp_owned :: "session_pool \<Rightarrow> nat set" where
  "sp_owned s = (\<Union>a\<in>set (data_pool (snd s)). {a..<a + nat (num_init_ccu (snd s))})"

definition sp_ok :: "tid \<Rightarrow> session_pool \<Rightarrow> bool" where
  "sp_ok t s \<longleftrightarrow> lock_avail t (sp_lock s) \<and> 0 < num_init_ccu (snd s) \<and> distinct (wait_clients (snd s))
     \<and> set (wait_clients (snd s)) \<subseteq> sp_owned s \<and> (\<forall>a\<in>sp_owned s. a < next_obj (fst s) \<and> tied (fst s) a)
     \<and> gl_heap_ok (fst s)"

lemma sp_ok_new [simp]: "sp_ok t (gl_heap_empty, TcpSessionPool_new (Some CriticalSectionLock_new))"
  by (simp add: sp_ok_def TcpSessionPool_new_def sp_owned_def)

lemma tied_next_obj [simp]: "tied (h\<lparr>next_obj := n\<rparr>) a = tied h a" "gl_heap_ok (h\<lparr>next_obj := n\<rparr>) = gl_heap_ok h"
  by (simp_all add: tied_def gl_heap_ok_def)

interpretation session_pool: fifo_pool "\<lambda>s. wait_clients (snd s)" sp_owned "sp_ok t"
  "PopFromWaitQueue os t" "PushWaitQueue t" for t os
proof (unfold_locales, goal_cases)
  case (1 s)
  then show ?case by (simp add: sp_ok_def)
next
  case (2 s x xs)
  then show ?case by (cases s) (auto simp: sp_ok_def PopFromWaitQueue_waiting sp_owned_def)
next
  case (3 s)
  obtain h p where s: "s = (h, p)" by fastforce
  let ?n = "nat (num_init_ccu p)"
  let ?h = "grown_heap os ?n h"
  let ?p = "p\<lparr>data_pool := data_pool p @ [next_obj h], wait_clients := [Suc (next_obj h)..<next_obj h + ?n]\<rparr>"
  have ok: "lock_avail t (pool_lock_gl p)" "0 < num_init_ccu p" "gl_heap_ok h"
    "\<And>a. a \<in> sp_owned (h, p) \<Longrightarrow> a < next_obj h \<and> tied h a"
    using 3 s by (auto simp: sp_ok_def)
  have n: "0 < ?n" using ok(2) by simp
  have own: "sp_owned (?h, ?p) = sp_owned (h, p) \<union> {next_obj h..<next_obj h + ?n}"
    by (auto simp: sp_owned_def)
  note ca = construct_array_tied[where h = "h\<lparr>next_obj := next_obj h + ?n\<rparr>" and os = os and n = ?n and a = "next_obj h"]
  have td: "a < next_obj ?h \<and> tied ?h a" if "a \<in> sp_owned (?h, ?p)" for a
    using that ok(3) ok(4)[of a] ca(2) unfolding own by (auto simp: grown_heap_def)
  have "sp_ok t (?h, ?p)"
    using ok n td ca(1) own by (auto simp: sp_ok_def grown_heap_def)
  moreover have "PopFromWaitQueue os t s = Inr (next_obj h, (?h, ?p))"
    using PopFromWaitQueue_grow[OF ok(1) _ ok(2)] 3 s by simp
  moreover have "next_obj h \<notin> sp_owned s" "set (wait_clients ?p) \<inter> sp_owned s = {}"
    using ok(4) s by fastforce+
  moreover have "{next_obj h..<next_obj h + ?n} = insert (next_obj h) (set (wait_clients ?p))"
    using n by auto
  ultimately show ?case using own s by auto
next
  case (4 s x)
  then show ?case by (cases s) (auto simp: sp_ok_def op_eqs sp_owned_def)
qed

section \<open>Destroying a session object\<close>

lemma tied_dtor:
  assumes "tied h a" "dying h = {}"
  shows "TcpClient_dtor (Suc (Suc (Suc (Suc n)))) a h = Inl DanglingPtr"
proof -
  obtain c v ov where "objs h a = Some c" "accept_overlapped c = Some v" "ovls h v = Some ov" "gl_client ov = Some a"
    using assms(1) by (auto simp: tied_def)
  with assms(2) show ?thesis by (simp add: Let_def)
qed

lemma tied_delete: "tied h a \<Longrightarrow> dying h = {} \<Longrightarrow> delete_TcpClient (n + 4) a h = Inl DanglingPtr"
  using tied_dtor[of h a n] by (simp add: delete_TcpClient_def numeral_eq_Suc)

end
