(* ===== verification/Gl_Registry.thy ===== *)
theory Gl_Registry
  imports Gl_Session
begin

text \<open>
  The session list of the rewrite, \<^verbatim>\<open>gordonlee/src/network/tcp_session_manager.h\<close>. Its elements are
  \<^verbatim>\<open>std::shared_ptr<TcpClient>\<close>, so the list owns sessions: \<open>uses\<close> is the reference count of each session that is
  shared, counting the pointers of the list, of parameters and of callers. The last pointer to go deletes the
  session object. The lock of each function is its own, as in \<open>Session_Manager\<close>.

  The manager meets the same contract \<open>session_registry\<close> as the one of the older server; beside it, the
  theory shows that the counts are exact and what happens to a session whose last owner is the list.
\<close>

section \<open>Shared sessions\<close>

record gl_shared =
  uses :: "nat \<Rightarrow> nat"
  sheap :: gl_heap

definition share :: "nat \<Rightarrow> gl_shared \<Rightarrow> gl_shared" where
  "share a s = s\<lparr>uses := (uses s)(a := Suc (uses s a))\<rparr>"

definition unshare :: "nat \<Rightarrow> gl_shared \<Rightarrow> gl_shared res" where
  "unshare a s =
     (if uses s a = 0 then Inl DanglingPtr
      else let s1 = s\<lparr>uses := (uses s)(a := uses s a - 1)\<rparr>
           in if uses s1 a = 0 then bindE (delete_TcpClient 4 a (sheap s1)) (\<lambda>h. Inr (s1\<lparr>sheap := h\<rparr>)) else Inr s1)"

fun unshare_n :: "nat \<Rightarrow> nat \<Rightarrow> gl_shared \<Rightarrow> gl_shared res" where
  "unshare_n 0 a s = Inr s"
| "unshare_n (Suc n) a s = bindE (unshare a s) (unshare_n n a)"

section \<open>TcpSessionManager\<close>

record gl_TcpSessionManager =
  gl_clients :: "nat list"
  gl_Add_lock :: CRITICAL_SECTION
  gl_Remove_lock :: CRITICAL_SECTION

type_synonym gl_registry = "gl_TcpSessionManager \<times> gl_shared"

definition gl_TcpSessionManager_new :: gl_TcpSessionManager where
  "gl_TcpSessionManager_new = \<lparr>gl_clients = [], gl_Add_lock = CriticalSectionLock_new, gl_Remove_lock = CriticalSectionLock_new\<rparr>"

definition gl_GetInstance :: "gl_TcpSessionManager option \<Rightarrow> gl_TcpSessionManager" where
  "gl_GetInstance instance = (case instance of None \<Rightarrow> gl_TcpSessionManager_new | Some m \<Rightarrow> m)"

text \<open>\<^verbatim>\<open>m_clients.remove(_client)\<close> destroys every element equal to its argument.\<close>

definition list_remove :: "nat \<Rightarrow> gl_registry \<Rightarrow> gl_registry res" where
  "list_remove a = (\<lambda>(m, s). bindE (unshare_n (count_list (gl_clients m) a) a s) (\<lambda>s'.
     Inr (m\<lparr>gl_clients := removeAll a (gl_clients m)\<rparr>, s')))"

text \<open>A call copies the pointer into the parameter and destroys the parameter at its end.\<close>

definition by_value :: "nat \<Rightarrow> (gl_registry \<Rightarrow> ('a \<times> gl_registry) res) \<Rightarrow> gl_registry \<Rightarrow> ('a \<times> gl_registry) res" where
  "by_value a body = (\<lambda>(m, s). bindE (body (m, share a s)) (\<lambda>(x, (m', s')).
     bindE (unshare a s') (\<lambda>s''. Inr (x, (m', s'')))))"

definition gl_AddTcpClient :: "tid \<Rightarrow> nat \<Rightarrow> gl_registry \<Rightarrow> (bool \<times> gl_registry) res" where
  "gl_AddTcpClient t client = by_value client (AutoLock_scope t (\<lambda>r. Some (gl_Add_lock (fst r)))
     (\<lambda>l r. case l of None \<Rightarrow> r | Some c \<Rightarrow> ((fst r)\<lparr>gl_Add_lock := c\<rparr>, snd r))
     (\<lambda>r. bindE (list_remove client r) (\<lambda>(m, s).
        Inr (True, (m\<lparr>gl_clients := gl_clients m @ [client]\<rparr>, share client s)))))"

definition gl_RemoveTcpClient :: "tid \<Rightarrow> nat \<Rightarrow> gl_registry \<Rightarrow> (unit \<times> gl_registry) res" where
  "gl_RemoveTcpClient t client = by_value client (AutoLock_scope t (\<lambda>r. Some (gl_Remove_lock (fst r)))
     (\<lambda>l r. case l of None \<Rightarrow> r | Some c \<Rightarrow> ((fst r)\<lparr>gl_Remove_lock := c\<rparr>, snd r))
     (\<lambda>r. bindE (list_remove client r) (\<lambda>r'. Inr ((), r'))))"

definition gl_GetWholeClients :: "gl_TcpSessionManager \<Rightarrow> nat list" where
  "gl_GetWholeClients m = gl_clients m"

definition get_num_of_clients :: "gl_TcpSessionManager \<Rightarrow> int" where
  "get_num_of_clients m = (let number = i32 (int (length (gl_clients m))) in number)"

section \<open>Counts\<close>

text \<open>\<open>ext a\<close> pointers to the session \<open>a\<close> are held outside the list; in a state that is \<open>ok\<close> each session that
  a caller can name is held by somebody outside.\<close>

definition counts_ok :: "(nat \<Rightarrow> nat) \<Rightarrow> gl_registry \<Rightarrow> bool" where
  "counts_ok ext r \<longleftrightarrow> (\<forall>a. uses (snd r) a = ext a + count_list (gl_clients (fst r)) a)"

definition gl_manager_ok :: "tid \<Rightarrow> (nat \<Rightarrow> nat) \<Rightarrow> gl_registry \<Rightarrow> bool" where
  "gl_manager_ok t ext r \<longleftrightarrow> lock_avail t (Some (gl_Add_lock (fst r))) \<and> lock_avail t (Some (gl_Remove_lock (fst r)))
     \<and> counts_ok ext r \<and> (\<forall>a. 0 < ext a)"

lemma unshare_many: "1 < uses s a \<Longrightarrow> unshare a s = Inr (s\<lparr>uses := (uses s)(a := uses s a - 1)\<rparr>)"
  by (simp add: unshare_def)

lemma unshare_n_many: "n < uses s a \<Longrightarrow> unshare_n n a s = Inr (s\<lparr>uses := (uses s)(a := uses s a - n)\<rparr>)"
proof (induction n arbitrary: s)
  case 0
  then show ?case by simp
next
  case (Suc n)
  then have "unshare a s = Inr (s\<lparr>uses := (uses s)(a := uses s a - 1)\<rparr>)" by (simp add: unshare_many)
  moreover have "unshare_n n a (s\<lparr>uses := (uses s)(a := uses s a - 1)\<rparr>) = Inr (s\<lparr>uses := (uses s)(a := uses s a - Suc n)\<rparr>)"
    using Suc.IH[of "s\<lparr>uses := (uses s)(a := uses s a - 1)\<rparr>"] Suc.prems by (simp del: fun_upd_apply add: fun_upd_same)
  ultimately show ?case by (simp del: fun_upd_apply)
qed

lemma count_list_removeAll [simp]: "count_list (removeAll a xs) b = (if b = a then 0 else count_list xs b)"
  by (induction xs) auto

lemma list_remove_shared:
  assumes "uses s a = Suc n + count_list (gl_clients m) a"
  shows "list_remove a (m, s) = Inr (m\<lparr>gl_clients := removeAll a (gl_clients m)\<rparr>, s\<lparr>uses := (uses s)(a := Suc n)\<rparr>)"
  using unshare_n_many[of "count_list (gl_clients m) a" s a] assms by (simp add: list_remove_def)

lemma gl_AddTcpClient_eq:
  assumes "lock_avail t (Some (gl_Add_lock m))" "uses s a = n + count_list (gl_clients m) a"
  shows "gl_AddTcpClient t a (m, s) = Inr (True, (m\<lparr>gl_clients := removeAll a (gl_clients m) @ [a]\<rparr>, s\<lparr>uses := (uses s)(a := Suc n)\<rparr>))"
proof -
  obtain c where c: "lock_entered t (Some (gl_Add_lock m)) = Some c" using entered_Some by blast
  have "uses (share a s) a = Suc n + count_list (gl_clients (m\<lparr>gl_Add_lock := c\<rparr>)) a" using assms(2) by (simp add: share_def)
  from list_remove_shared[OF this] c AutoLock_ctor_avail[OF assms(1)] AutoLock_dtor_entered[OF assms(1)] show ?thesis
    by (simp add: gl_AddTcpClient_def by_value_def AutoLock_scope_def share_def unshare_many)
qed

lemma gl_RemoveTcpClient_eq:
  assumes "lock_avail t (Some (gl_Remove_lock m))" "uses s a = n + count_list (gl_clients m) a"
  shows "gl_RemoveTcpClient t a (m, s) = bindE (unshare a (s\<lparr>uses := (uses s)(a := Suc n)\<rparr>)) (\<lambda>s'.
     Inr ((), (m\<lparr>gl_clients := removeAll a (gl_clients m)\<rparr>, s')))"
proof -
  obtain c where c: "lock_entered t (Some (gl_Remove_lock m)) = Some c" using entered_Some by blast
  have "uses (share a s) a = Suc n + count_list (gl_clients (m\<lparr>gl_Remove_lock := c\<rparr>)) a" using assms(2) by (simp add: share_def)
  from list_remove_shared[OF this] c AutoLock_ctor_avail[OF assms(1)] AutoLock_dtor_entered[OF assms(1)] show ?thesis
    by (simp add: gl_RemoveTcpClient_def by_value_def AutoLock_scope_def share_def)
qed

interpretation gl_registry: session_registry "\<lambda>r. gl_clients (fst r)" "gl_manager_ok t ext" "gl_AddTcpClient t" "gl_RemoveTcpClient t"
  for t ext
proof (unfold_locales, goal_cases)
  case (1 r p)
  obtain m s where r: "r = (m, s)" by fastforce
  with 1 have "gl_AddTcpClient t p r = Inr (True, (m\<lparr>gl_clients := removeAll p (gl_clients m) @ [p]\<rparr>, s\<lparr>uses := (uses s)(p := Suc (ext p))\<rparr>))"
    by (simp add: gl_manager_ok_def counts_ok_def gl_AddTcpClient_eq)
  with 1 r show ?case by (auto simp: gl_manager_ok_def counts_ok_def)
next
  case (2 r p)
  obtain m s where r: "r = (m, s)" by fastforce
  with 2 have "0 < ext p" by (simp add: gl_manager_ok_def)
  with 2 r have "gl_RemoveTcpClient t p r = Inr ((), (m\<lparr>gl_clients := removeAll p (gl_clients m)\<rparr>, s\<lparr>uses := (uses s)(p := ext p)\<rparr>))"
    by (simp add: gl_manager_ok_def counts_ok_def gl_RemoveTcpClient_eq unshare_many)
  with 2 r show ?case by (auto simp: gl_manager_ok_def counts_ok_def)
qed

section \<open>Deleting a session object\<close>

text \<open>C22. A session object cannot be deleted: its constructor gave its overlapped structure a shared pointer to the
  object itself with a count of its own, so deleting the object deletes the structure, which deletes the
  object again while its destructor runs. With any fuel that covers the nesting the result is the access to
  freed storage. So a session that is given to the session list can be taken out while its creator holds
  it, but when the list is its last owner taking it out is that crash.\<close>

theorem session_deleted_twice:
  assumes "gl_heap_ok h" "dying h = {}" "new_TcpClient os h = (a, h1)"
  shows "delete_TcpClient (n + 4) a h1 = Inl DanglingPtr
    \<and> (\<exists>m s. gl_AddTcpClient t a (gl_TcpSessionManager_new, \<lparr>uses = (\<lambda>_. 0)(a := 1), sheap = h1\<rparr>) = Inr (True, (m, s))
        \<and> gl_clients m = [a] \<and> (\<exists>m' s'. gl_RemoveTcpClient t a (m, s) = Inr ((), (m', s')) \<and> gl_clients m' = [] \<and> sheap s' = h1)
        \<and> (\<exists>s2. unshare a s = Inr s2 \<and> gl_RemoveTcpClient t a (m, s2) = Inl DanglingPtr))"
proof -
  have h1: "h1 = TcpClient_ctor os a (h\<lparr>next_obj := Suc a\<rparr>)" using assms(3) by (auto simp: new_TcpClient_def Let_def)
  have "dying h1 = {}" using assms(2) h1 by (simp add: TcpClient_ctor_def Let_def)
  moreover have "tied h1 a" using TcpClient_ctor_tied(2)[of "h\<lparr>next_obj := Suc a\<rparr>" os a] assms(1) h1 by simp
  ultimately have del: "delete_TcpClient (k + 4) a h1 = Inl DanglingPtr" for k by (simp add: tied_delete)
  let ?m = "gl_TcpSessionManager_new\<lparr>gl_clients := [a]\<rparr>" and ?s = "\<lparr>uses = (\<lambda>_. 0)(a := 2), sheap = h1\<rparr>"
  have add: "gl_AddTcpClient t a (gl_TcpSessionManager_new, \<lparr>uses = (\<lambda>_. 0)(a := 1), sheap = h1\<rparr>) = Inr (True, (?m, ?s))"
    using gl_AddTcpClient_eq[of t gl_TcpSessionManager_new "\<lparr>uses = (\<lambda>_. 0)(a := 1), sheap = h1\<rparr>" a 1]
    by (simp add: gl_TcpSessionManager_new_def numeral_2_eq_2)
  have lk: "lock_avail t (Some (gl_Remove_lock ?m))" by (simp add: gl_TcpSessionManager_new_def)
  have "gl_RemoveTcpClient t a (?m, ?s) = Inr ((), (?m\<lparr>gl_clients := []\<rparr>, ?s\<lparr>uses := (\<lambda>_. 0)(a := 1)\<rparr>))"
    using gl_RemoveTcpClient_eq[OF lk, of ?s a 1] by (simp add: unshare_many)
  moreover have "unshare a ?s = Inr (?s\<lparr>uses := (\<lambda>_. 0)(a := 1)\<rparr>)" by (simp add: unshare_many)
  moreover have "gl_RemoveTcpClient t a (?m, ?s\<lparr>uses := (\<lambda>_. 0)(a := 1)\<rparr>) = Inl DanglingPtr"
    using gl_RemoveTcpClient_eq[OF lk, of "?s\<lparr>uses := (\<lambda>_. 0)(a := 1)\<rparr>" a 0] del[of 0] by (simp add: unshare_def)
  ultimately show ?thesis using del add by auto
qed

theorem session_deleted_twice_witness:
  "\<exists>m s. gl_AddTcpClient 1 0 (gl_TcpSessionManager_new, \<lparr>uses = (\<lambda>_. 0)(0 := 1), sheap = snd (new_TcpClient calm_winsock gl_heap_empty)\<rparr>) = Inr (True, (m, s))
    \<and> (\<exists>s2. unshare 0 s = Inr s2 \<and> gl_RemoveTcpClient 1 0 (m, s2) = Inl DanglingPtr)"
proof -
  have "new_TcpClient calm_winsock gl_heap_empty = (0, snd (new_TcpClient calm_winsock gl_heap_empty))"
    by (simp add: new_TcpClient_def gl_heap_empty_def Let_def)
  from session_deleted_twice[OF gl_heap_ok_empty _ this, of 0 1] show ?thesis by (simp add: gl_heap_empty_def) blast
qed

end
