(* ===== verification/Gl_Job_Processor.thy ===== *)
theory Gl_Job_Processor
  imports Auto_Lock
begin

text \<open>
  \<^verbatim>\<open>gordonlee/src/utility/job_processor.h\<close>: a job is an optional callable, a processor is a queue of
  jobs, an event and a worker loop. What a callable does is represented by a value of type \<open>'e\<close>,
  which running it appends to the processor's log. \<^verbatim>\<open>concurrent_queue\<close> is first-in first-out;
  its push and try\_pop are atomic, so they are single operations on a list.

  The locale \<open>job_sink\<close> is what the scheduler needs of a processor.
\<close>

section \<open>IJob\<close>

record 'e IJob =
  func :: "'e option"

definition IJob_new :: "'e IJob" where
  "IJob_new = \<lparr>func = None\<rparr>"

definition IJob_of :: "'e option \<Rightarrow> 'e IJob" where
  "IJob_of f = \<lparr>func = f\<rparr>"

definition Do :: "'e IJob \<Rightarrow> 'e list \<Rightarrow> 'e list" where
  "Do job eff = (case func job of None \<Rightarrow> eff | Some e \<Rightarrow> eff @ [e])"

section \<open>JobProcessor\<close>

record 'e JobProcessor =
  queue :: "'e IJob option list"   \<comment> \<open>\<open>None\<close> is a null \<^verbatim>\<open>shared_ptr<IJob>\<close>\<close>
  event_set :: bool
  effects :: "'e list"             \<comment> \<open>what the jobs that ran did, in order\<close>

definition JobProcessor_new :: "'e JobProcessor" where
  "JobProcessor_new = \<lparr>queue = [], event_set = False, effects = []\<rparr>"

definition job_Enqueue :: "'e IJob option \<Rightarrow> 'e JobProcessor \<Rightarrow> bool \<times> 'e JobProcessor" where
  "job_Enqueue job p = (True, p\<lparr>queue := queue p @ [job], event_set := True\<rparr>)"

definition job_Dequeue :: "'e JobProcessor \<Rightarrow> 'e IJob option \<times> 'e JobProcessor" where
  "job_Dequeue p = (case queue p of [] \<Rightarrow> (None, p) | j # js \<Rightarrow> (j, p\<lparr>queue := js\<rparr>))"

text \<open>Waiting for the auto-reset event: \<open>None\<close> while the thread blocks.\<close>

definition WaitForSingleObject :: "'e JobProcessor \<Rightarrow> 'e JobProcessor option" where
  "WaitForSingleObject p = (if event_set p then Some (p\<lparr>event_set := False\<rparr>) else None)"

text \<open>One turn of the loop. The local variable \<open>spin_count\<close> hides the class constant of the same
  name, so the test compares it with itself.\<close>

definition job_WorkerProccess_step :: "int \<times> 'e JobProcessor \<Rightarrow> (int \<times> 'e JobProcessor) option" where
  "job_WorkerProccess_step s =
     (let (spin_count, p) = s; (job, p1) = job_Dequeue p;
          (spin_count1, p2) = (case job of
             Some j \<Rightarrow> (0, p1\<lparr>effects := Do j (effects p1)\<rparr>)
           | None \<Rightarrow> (i32 (spin_count + 1), p1))
      in if spin_count1 > spin_count1
         then map_option (\<lambda>p3. (spin_count1, p3)) (WaitForSingleObject p2)
         else Some (spin_count1, p2))"

fun job_WorkerProccess :: "nat \<Rightarrow> int \<times> 'e JobProcessor \<Rightarrow> (int \<times> 'e JobProcessor) option" where
  "job_WorkerProccess 0 s = Some s"
| "job_WorkerProccess (Suc n) s = Option.bind (job_WorkerProccess_step s) (job_WorkerProccess n)"

section \<open>What the worker does\<close>

text \<open>The effects of a list of queued jobs, in order.\<close>

definition job_effects :: "'e IJob option list \<Rightarrow> 'e list" where
  "job_effects js = concat (map (\<lambda>j. case j of None \<Rightarrow> [] | Some k \<Rightarrow> (case func k of None \<Rightarrow> [] | Some e \<Rightarrow> [e])) js)"

lemma job_effects_simps [simp]:
  "job_effects [] = []" "job_effects (xs @ ys) = job_effects xs @ job_effects ys"
  by (simp_all add: job_effects_def)

lemma job_effects_Cons: "job_effects [j] @ job_effects js = job_effects (j # js)"
  by (simp add: job_effects_def)

lemma Do_effects: "Do j eff = eff @ job_effects [Some j]"
  by (simp add: Do_def job_effects_def split: option.splits)

lemma worker_step_empty:
  "queue p = [] \<Longrightarrow> job_WorkerProccess_step (k, p) = Some (i32 (k + 1), p)"
  by (simp add: job_WorkerProccess_step_def job_Dequeue_def)

lemma worker_step_job:
  assumes "queue p = j # js"
  shows "\<exists>k'. job_WorkerProccess_step (k, p) = Some (k', p\<lparr>queue := js, effects := effects p @ job_effects [j]\<rparr>)"
proof (cases j)
  case None
  with assms show ?thesis by (simp add: job_WorkerProccess_step_def job_Dequeue_def) (simp add: job_effects_def)
next
  case (Some x)
  with assms show ?thesis by (simp add: job_WorkerProccess_step_def job_Dequeue_def Do_effects)
qed

lemma worker_drains:
  "\<exists>k'. job_WorkerProccess (length (queue p)) (k, p)
     = Some (k', p\<lparr>queue := [], effects := effects p @ job_effects (queue p)\<rparr>)"
proof (induction "queue p" arbitrary: k p)
  case Nil
  then have "p\<lparr>queue := [], effects := effects p\<rparr> = p" by (cases p) simp
  with Nil show ?case by (simp flip: Nil)
next
  case (Cons j js)
  let ?p = "p\<lparr>queue := js, effects := effects p @ job_effects [j]\<rparr>"
  obtain k1 where "job_WorkerProccess_step (k, p) = Some (k1, ?p)"
    using worker_step_job[OF Cons(2)[symmetric]] by blast
  moreover obtain k2 where "job_WorkerProccess (length (queue ?p)) (k1, ?p)
      = Some (k2, ?p\<lparr>queue := [], effects := effects ?p @ job_effects (queue ?p)\<rparr>)"
    using Cons(1)[of ?p k1] by auto
  moreover have "queue p = j # js" using Cons(2) by simp
  ultimately show ?case by (simp add: job_effects_Cons)
qed

lemma worker_never_blocks: "job_WorkerProccess n s \<noteq> None"
proof (induction n arbitrary: s)
  case (Suc n)
  have "job_WorkerProccess_step s \<noteq> None"
    by (simp add: job_WorkerProccess_step_def split: prod.splits)
  with Suc show ?case by auto
qed simp

lemma worker_idle:
  "queue p = [] \<Longrightarrow> \<exists>k'. job_WorkerProccess n (k, p) = Some (k', p)"
  by (induction n arbitrary: k) (simp_all add: worker_step_empty)

lemma worker_append:
  "job_WorkerProccess (m + n) s = Option.bind (job_WorkerProccess m s) (job_WorkerProccess n)"
proof (induction m arbitrary: s)
  case (Suc m)
  show ?case by (cases "job_WorkerProccess_step s") (simp_all add: Suc)
qed simp

section \<open>The interface to the scheduler\<close>

locale job_sink =
  fixes pending :: "'s \<Rightarrow> 'j list"
    and push :: "'j \<Rightarrow> 's \<Rightarrow> bool \<times> 's"
  assumes push_pending: "pending (snd (push j s)) = pending s @ [j]"
    and push_accepts: "fst (push j s)"
begin

fun push_all :: "'j list \<Rightarrow> 's \<Rightarrow> 's" where
  "push_all [] s = s"
| "push_all (j # js) s = push_all js (snd (push j s))"

lemma push_all_pending: "pending (push_all js s) = pending s @ js"
  by (induction js arbitrary: s) (simp_all add: push_pending)

lemma push_all_append: "push_all (js @ ks) s = push_all ks (push_all js s)"
  by (induction js arbitrary: s) simp_all

end

interpretation processor: job_sink queue job_Enqueue
  by unfold_locales (simp_all add: job_Enqueue_def)

end
