(* ===== verification/Gl_Scheduler.thy ===== *)
theory Gl_Scheduler
  imports Gl_Job_Processor
begin

text \<open>
  \<^verbatim>\<open>gordonlee/src/utility/scheduler.h\<close>: jobs wait in a \<^verbatim>\<open>std::map\<close> from time points to elements until
  the worker moves them to the queue of their processor. The map is an association list with
  strictly increasing keys, whose \<^verbatim>\<open>insert\<close> keeps an entry that is already there. A time point is the
  64-bit count of ticks of the system clock; \<open>tpm\<close> is the number of ticks per millisecond, which
  the standard library fixes. Processors are objects elsewhere, reached by pointer.
\<close>

section \<open>The class\<close>

record 'e SchedulerElement =
  job :: "'e IJob option"
  processor :: "nat option"

record 'e Scheduler =
  cs :: CRITICAL_SECTION
  job_map :: "(int \<times> 'e SchedulerElement) list"

type_synonym 'e sched = "'e Scheduler \<times> (nat \<rightharpoonup> 'e JobProcessor)"

fun map_insert :: "'k::linorder \<times> 'v \<Rightarrow> ('k \<times> 'v) list \<Rightarrow> ('k \<times> 'v) list" where
  "map_insert kv [] = [kv]"
| "map_insert (k, v) ((k', v') # xs) =
     (if k < k' then (k, v) # (k', v') # xs
      else if k = k' then (k', v') # xs
      else (k', v') # map_insert (k, v) xs)"

definition Scheduler_new :: "'e Scheduler" where
  "Scheduler_new = \<lparr>cs = CriticalSectionLock_new, job_map = []\<rparr>"

abbreviation sched_lock :: "'e sched \<Rightarrow> CRITICAL_SECTION option" where
  "sched_lock s \<equiv> Some (cs (fst s))"

abbreviation sched_set_lock :: "CRITICAL_SECTION option \<Rightarrow> 'e sched \<Rightarrow> 'e sched" where
  "sched_set_lock l s \<equiv> (case l of None \<Rightarrow> s | Some c \<Rightarrow> ((fst s)\<lparr>cs := c\<rparr>, snd s))"

definition i64 :: "int \<Rightarrow> int" where
  "i64 x = signed_take_bit 63 x"

definition Schedule ::
  "int \<Rightarrow> tid \<Rightarrow> int \<Rightarrow> nat option \<Rightarrow> 'e IJob \<Rightarrow> int \<Rightarrow> 'e sched \<Rightarrow> (unit \<times> 'e sched) res" where
  "Schedule tpm t now proc jb timespan s =
     (let key = i64 (now + i64 (tpm * timespan));
          ptr = \<lparr>job = Some (IJob_of (func jb)), processor = proc\<rparr>
      in AutoLock_scope t sched_lock sched_set_lock (\<lambda>(sch, ps).
           Inr ((), (sch\<lparr>job_map := map_insert (key, ptr) (job_map sch)\<rparr>, ps))) s)"

definition Schedule_now :: "int \<Rightarrow> tid \<Rightarrow> int \<Rightarrow> nat option \<Rightarrow> 'e IJob \<Rightarrow> 'e sched \<Rightarrow> (unit \<times> 'e sched) res" where
  "Schedule_now tpm t now proc jb = Schedule tpm t now proc jb 0"

definition Schedule_millis ::
  "int \<Rightarrow> tid \<Rightarrow> int \<Rightarrow> nat option \<Rightarrow> 'e IJob \<Rightarrow> int \<Rightarrow> 'e sched \<Rightarrow> (unit \<times> 'e sched) res" where
  "Schedule_millis tpm t now proc jb millis = (let cast_timespan = i64 millis in Schedule tpm t now proc jb cast_timespan)"

text \<open>One turn of the worker loop, at time \<open>now\<close>.\<close>

definition sched_WorkerProccess_step :: "tid \<Rightarrow> int \<Rightarrow> 'e sched \<Rightarrow> (unit \<times> 'e sched) res" where
  "sched_WorkerProccess_step t now = AutoLock_scope t sched_lock sched_set_lock (\<lambda>(sch, ps).
     case job_map sch of [] \<Rightarrow> Inr ((), (sch, ps))
     | (k, element) # rest \<Rightarrow>
         if now \<ge> k then
           (case processor element of None \<Rightarrow> Inl NullDeref
            | Some i \<Rightarrow> (case ps i of None \<Rightarrow> Inl DanglingPtr
                | Some p \<Rightarrow> Inr ((), (sch\<lparr>job_map := rest\<rparr>, ps(i \<mapsto> snd (job_Enqueue (job element) p))))))
         else Inr ((), (sch, ps)))"

fun sched_WorkerProccess :: "tid \<Rightarrow> int list \<Rightarrow> 'e sched \<Rightarrow> 'e sched res" where
  "sched_WorkerProccess t [] s = Inr s"
| "sched_WorkerProccess t (now # nows) s =
     bindE (sched_WorkerProccess_step t now s) (\<lambda>(_, s'). sched_WorkerProccess t nows s')"

section \<open>The map\<close>

abbreviation strict_keys :: "('k::linorder \<times> 'v) list \<Rightarrow> bool" where
  "strict_keys xs \<equiv> sorted_wrt (<) (map fst xs)"

lemma map_insert_keys: "fst ` set (map_insert kv xs) = insert (fst kv) (fst ` set xs)"
  by (induction kv xs rule: map_insert.induct) auto

lemma map_insert_strict: "strict_keys xs \<Longrightarrow> strict_keys (map_insert kv xs)"
proof (induction kv xs rule: map_insert.induct)
  case (2 k v k' v' xs)
  have "fst ` set (map_insert (k, v) xs) = insert k (fst ` set xs)" by (simp add: map_insert_keys)
  then have "\<forall>x\<in>fst ` set (map_insert (k, v) xs). k' < x" if "k' < k" using 2(2) that by auto
  with 2 show ?case by (auto intro: less_trans)
qed simp

lemma map_insert_lookup:
  "strict_keys xs \<Longrightarrow> map_of (map_insert (k, v) xs)
     = (case map_of xs k of None \<Rightarrow> (map_of xs)(k \<mapsto> v) | Some _ \<Rightarrow> map_of xs)"
proof (induction xs rule: list.induct)
  case (Cons x xs)
  obtain k' v' where x: "x = (k', v')" by fastforce
  have "map_of xs k = None" if "k < k'"
    using Cons.prems that x by (auto simp: map_of_eq_None_iff dest: less_trans)
  with Cons x show ?case
    by (auto split: option.splits intro!: ext)
qed (simp add: fun_eq_iff)

lemma map_insert_present: "map_of xs k \<noteq> None \<Longrightarrow> strict_keys xs \<Longrightarrow> map_insert (k, v) xs = xs"
proof (induction xs)
  case (Cons x xs)
  obtain k' v' where x: "x = (k', v')" by fastforce
  have "map_of xs k = None" if "k < k'"
    using Cons.prems that x by (auto simp: map_of_eq_None_iff dest: less_trans)
  with Cons x show ?case by (auto split: if_splits)
qed simp

section \<open>Turns of the worker\<close>

definition elem_ok :: "(nat \<rightharpoonup> 'e JobProcessor) \<Rightarrow> 'e SchedulerElement \<Rightarrow> bool" where
  "elem_ok ps e \<longleftrightarrow> (case processor e of None \<Rightarrow> False | Some i \<Rightarrow> ps i \<noteq> None)"

lemma elem_ok_upd [simp]: "elem_ok ps e \<Longrightarrow> elem_ok (ps(i \<mapsto> p)) e"
  by (auto simp: elem_ok_def split: option.splits)

definition sched_ok :: "tid \<Rightarrow> 'e sched \<Rightarrow> bool" where
  "sched_ok t s \<longleftrightarrow> lock_avail t (sched_lock s) \<and> strict_keys (job_map (fst s))
     \<and> (\<forall>x\<in>set (job_map (fst s)). elem_ok (snd s) (snd x))"

lemma entered_cs: "lock_avail t (Some c) \<Longrightarrow> \<exists>c'. lock_entered t (Some c) = Some c'
    \<and> AutoLock_ctor t (Some c) = Inr (Some c') \<and> AutoLock_dtor t (Some c') = Inr (Some c)"
  using AutoLock_ctor_avail[of t "Some c"] AutoLock_dtor_entered[of t "Some c"]
  by (simp add: lock_entered_def)

lemma sched_scope:
  assumes "lock_avail t (sched_lock s)"
    and "\<And>c'. body ((fst s)\<lparr>cs := c'\<rparr>, snd s) = map_sum id (\<lambda>(x, a, b). (x, a\<lparr>cs := c'\<rparr>, b)) r"
    and "\<And>x a b. r = Inr (x, a, b) \<Longrightarrow> cs a = cs (fst s)"
  shows "AutoLock_scope t sched_lock sched_set_lock body s = r"
proof -
  obtain c' where c': "AutoLock_ctor t (sched_lock s) = Inr (Some c')" "AutoLock_dtor t (Some c') = Inr (sched_lock s)"
    using entered_cs[OF assms(1)] by blast
  show ?thesis
  proof (cases r)
    case (Inl e)
    with c' assms(2)[of c'] show ?thesis by (simp add: AutoLock_scope_def)
  next
    case (Inr p)
    obtain x a b where p: "p = (x, a, b)" by (cases p) auto
    have "a\<lparr>cs := cs (fst s)\<rparr> = a" using assms(3) Inr p by (cases a) auto
    with Inr p c' assms(2)[of c'] show ?thesis by (simp add: AutoLock_scope_def)
  qed
qed

lemma Schedule_avail:
  assumes "lock_avail t (Some (cs sch))"
  shows "Schedule tpm t now proc jb d (sch, ps) = Inr ((), (sch\<lparr>job_map :=
    map_insert (i64 (now + i64 (tpm * d)), \<lparr>job = Some (IJob_of (func jb)), processor = proc\<rparr>) (job_map sch)\<rparr>, ps))"
  unfolding Schedule_def Let_def by (rule sched_scope) (use assms in \<open>simp_all\<close>)

lemma sched_step_empty:
  assumes "lock_avail t (Some (cs sch))" "job_map sch = []"
  shows "sched_WorkerProccess_step t now (sch, ps) = Inr ((), (sch, ps))"
  unfolding sched_WorkerProccess_step_def by (rule sched_scope) (use assms in simp_all)

lemma sched_step_early:
  assumes "lock_avail t (Some (cs sch))" "job_map sch = (k, e) # rest" "now < k"
  shows "sched_WorkerProccess_step t now (sch, ps) = Inr ((), (sch, ps))"
  unfolding sched_WorkerProccess_step_def by (rule sched_scope) (use assms in simp_all)

lemma sched_step_due:
  assumes "lock_avail t (Some (cs sch))" "job_map sch = (k, e) # rest" "k \<le> now"
    and "processor e = Some i" "ps i = Some p"
  shows "sched_WorkerProccess_step t now (sch, ps)
    = Inr ((), (sch\<lparr>job_map := rest\<rparr>, ps(i \<mapsto> snd (job_Enqueue (job e) p))))"
  unfolding sched_WorkerProccess_step_def by (rule sched_scope) (use assms in simp_all)

text \<open>The jobs of a list of elements that go to one processor, in order.\<close>

definition jobs_for :: "nat \<Rightarrow> (int \<times> 'e SchedulerElement) list \<Rightarrow> 'e IJob option list" where
  "jobs_for i es = map (\<lambda>(k, e). job e) (filter (\<lambda>(k, e). processor e = Some i) es)"

definition dispatched :: "(int \<times> 'e SchedulerElement) list \<Rightarrow> (nat \<rightharpoonup> 'e JobProcessor) \<Rightarrow> (nat \<rightharpoonup> 'e JobProcessor)" where
  "dispatched es ps = (\<lambda>i. map_option (processor.push_all (jobs_for i es)) (ps i))"

lemma dispatched_Nil [simp]: "dispatched [] ps = ps"
  by (simp add: dispatched_def jobs_for_def fun_eq_iff map_option_idI)

lemma dispatched_Cons:
  "processor e = Some i \<Longrightarrow> ps i = Some p \<Longrightarrow>
   dispatched ((k, e) # es) ps = dispatched es (ps(i \<mapsto> snd (job_Enqueue (job e) p)))"
  by (auto simp: dispatched_def jobs_for_def fun_eq_iff)

text \<open>Whatever the times at which the worker looks, it moves a prefix of the map, each element of it at
  a time not before its key, and nothing else.\<close>

lemma sched_run:
  assumes "sched_ok t (sch, ps)"
  shows "\<exists>ds rest. sched_WorkerProccess t nows (sch, ps) = Inr (sch\<lparr>job_map := rest\<rparr>, dispatched ds ps)
    \<and> job_map sch = ds @ rest \<and> (\<forall>(k, e)\<in>set ds. \<exists>n\<in>set nows. k \<le> n)
    \<and> (\<forall>(k, e)\<in>set rest. length nows \<le> length ds \<or> (\<exists>n\<in>set nows. n < k))
    \<and> sched_ok t (sch\<lparr>job_map := rest\<rparr>, dispatched ds ps)"
  using assms
proof (induction nows arbitrary: sch ps)
  case Nil
  have "sch\<lparr>job_map := job_map sch\<rparr> = sch" by simp
  with Nil show ?case by (intro exI[of _ "[]"] exI[of _ "job_map sch"]) auto
next
  case (Cons now nows)
  have lk: "lock_avail t (Some (cs sch))" using Cons.prems by (simp add: sched_ok_def)
  show ?case
  proof (cases "job_map sch")
    case Nil
    from Cons.IH[OF Cons.prems] obtain ds rest where
      r: "sched_WorkerProccess t nows (sch, ps) = Inr (sch\<lparr>job_map := rest\<rparr>, dispatched ds ps)"
        "job_map sch = ds @ rest" "sched_ok t (sch\<lparr>job_map := rest\<rparr>, dispatched ds ps)"
      by blast
    with Nil sched_step_empty[OF lk Nil, of now ps] show ?thesis
      by (intro exI[of _ "[]"] exI[of _ "[]"]) auto
  next
    case (Cons x xs)
    obtain k e where x: "x = (k, e)" by fastforce
    note m = Cons[unfolded x]
    obtain i p where e: "processor e = Some i" "ps i = Some p"
      using Cons.prems m by (auto simp: sched_ok_def elem_ok_def split: option.splits)
    show ?thesis
    proof (cases "k \<le> now")
      case True
      let ?sch = "sch\<lparr>job_map := xs\<rparr>" and ?ps = "ps(i \<mapsto> snd (job_Enqueue (job e) p))"
      have ok: "sched_ok t (?sch, ?ps)"
        using Cons.prems m by (auto simp: sched_ok_def)
      have "job_map ?sch = xs" by simp
      from Cons.IH[OF ok, unfolded this] obtain ds rest where
        r: "sched_WorkerProccess t nows (?sch, ?ps) = Inr (?sch\<lparr>job_map := rest\<rparr>, dispatched ds ?ps)"
          "xs = ds @ rest" "\<forall>(k, e)\<in>set ds. \<exists>n\<in>set nows. k \<le> n"
          "\<forall>(k, e)\<in>set rest. length nows \<le> length ds \<or> (\<exists>n\<in>set nows. n < k)"
          "sched_ok t (?sch\<lparr>job_map := rest\<rparr>, dispatched ds ?ps)"
        by blast
      with True m e sched_step_due[where ps = ps, OF lk m True e] dispatched_Cons[where ps = ps, OF e, of k ds] show ?thesis
        by (intro exI[of _ "(k, e) # ds"] exI[of _ rest]) auto
    next
      case False
      from Cons.IH[OF Cons.prems] obtain ds rest where
        r: "sched_WorkerProccess t nows (sch, ps) = Inr (sch\<lparr>job_map := rest\<rparr>, dispatched ds ps)"
          "job_map sch = ds @ rest" "\<forall>(k, e)\<in>set ds. \<exists>n\<in>set nows. k \<le> n"
          "sched_ok t (sch\<lparr>job_map := rest\<rparr>, dispatched ds ps)"
        by blast
      have "\<forall>(k', e')\<in>set (job_map sch). now < k'"
        using False Cons.prems m by (force simp: sched_ok_def)
      with r False sched_step_early[OF lk m, of now ps] show ?thesis
        by (intro exI[of _ ds] exI[of _ rest]) auto
    qed
  qed
qed

text \<open>Adding a job keeps the scheduler well formed.\<close>

lemma sched_ok_Schedule:
  assumes "sched_ok t (sch, ps)" "ps i \<noteq> None"
    and "Schedule tpm u now (Some i) jb d (sch, ps) = Inr ((), s')" "lock_avail u (Some (cs sch))"
  shows "sched_ok t s'"
proof -
  have s': "s' = (sch\<lparr>job_map := map_insert (i64 (now + i64 (tpm * d)),
      \<lparr>job = Some (IJob_of (func jb)), processor = Some i\<rparr>) (job_map sch)\<rparr>, ps)"
    using assms(3) by (simp add: Schedule_avail[OF assms(4)])
  have "set (map_insert kv xs) \<subseteq> insert kv (set xs)" for kv :: "int \<times> 'a SchedulerElement" and xs
    by (induction kv xs rule: map_insert.induct) auto
  then show ?thesis
    using assms(1,2) unfolding s' sched_ok_def by (force simp: map_insert_strict elem_ok_def)
qed

section \<open>Jobs are run, in the order of their times\<close>

lemma push_all_effects: "effects (processor.push_all js p) = effects p"
  by (induction js arbitrary: p) (simp_all add: job_Enqueue_def)

text \<open>C21. From the scheduler to the effects: when the scheduler's worker looks often enough, at times
  not before any waiting key, every waiting job reaches the queue of its processor in the order of the
  keys, and the processor's worker then runs what was queued before and these jobs, each once, in
  that order.\<close>

theorem scheduled_jobs_run:
  assumes "sched_ok t (sch, ps)" "\<forall>(k, e)\<in>set (job_map sch). \<forall>n\<in>set nows. k \<le> n"
    and "length (job_map sch) \<le> length nows" "ps i = Some p"
  shows "\<exists>sch' ps' p' spin'. sched_WorkerProccess t nows (sch, ps) = Inr (sch', ps') \<and> job_map sch' = [] \<and> ps' i = Some p'
    \<and> job_WorkerProccess (length (queue p')) (spin, p')
      = Some (spin', p'\<lparr>queue := [], effects := effects p @ job_effects (queue p @ jobs_for i (job_map sch))\<rparr>)"
proof -
  obtain ds rest where r: "sched_WorkerProccess t nows (sch, ps) = Inr (sch\<lparr>job_map := rest\<rparr>, dispatched ds ps)"
    "job_map sch = ds @ rest" "\<forall>(k, e)\<in>set rest. length nows \<le> length ds \<or> (\<exists>n\<in>set nows. n < k)"
    using sched_run[OF assms(1), of nows] by blast
  have "rest = []"
  proof (rule ccontr)
    assume "rest \<noteq> []"
    then obtain k e where ke: "(k, e) \<in> set rest" by (cases rest) auto
    then have "(k, e) \<in> set (job_map sch)" using r(2) by simp
    then have "\<forall>n\<in>set nows. k \<le> n" using assms(2) by blast
    then have "\<not> (\<exists>n\<in>set nows. n < k)" by (simp add: not_less)
    then have "length nows \<le> length ds" using r(3) ke by blast
    with \<open>rest \<noteq> []\<close> assms(3) r(2) show False by (cases rest) auto
  qed
  let ?p = "processor.push_all (jobs_for i ds) p"
  have "dispatched ds ps i = Some ?p" using assms(4) by (simp add: dispatched_def)
  moreover have "queue ?p = queue p @ jobs_for i ds" by (rule processor.push_all_pending)
  moreover obtain spin' where "job_WorkerProccess (length (queue ?p)) (spin, ?p)
      = Some (spin', ?p\<lparr>queue := [], effects := effects ?p @ job_effects (queue ?p)\<rparr>)" using worker_drains[of ?p spin] by blast
  ultimately show ?thesis using r(1,2) \<open>rest = []\<close> by (auto simp: push_all_effects simp del: job_effects_simps)
qed

theorem scheduled_jobs_run_witness:
  "\<exists>sch' ps' p' spin'. sched_WorkerProccess 1 [50, 60]
      (\<lparr>cs = CriticalSectionLock_new, job_map = [(10, \<lparr>job = Some \<lparr>func = Some ''a''\<rparr>, processor = Some 0\<rparr>), (20, \<lparr>job = Some \<lparr>func = Some ''b''\<rparr>, processor = Some 0\<rparr>)]\<rparr>,
       [0 \<mapsto> JobProcessor_new]) = Inr (sch', ps') \<and> job_map sch' = [] \<and> ps' 0 = Some p'
    \<and> job_WorkerProccess (length (queue p')) (0, p') = Some (spin', p'\<lparr>queue := [], effects := [''a'', ''b'']\<rparr>)"
  using scheduled_jobs_run[where t = 1 and nows = "[50, 60]" and i = 0 and p = JobProcessor_new and spin = 0
      and ps = "[0 \<mapsto> JobProcessor_new]" and sch = "\<lparr>cs = CriticalSectionLock_new, job_map = [(10, \<lparr>job = Some \<lparr>func = Some ''a''\<rparr>,
        processor = Some 0\<rparr>), (20, \<lparr>job = Some \<lparr>func = Some ''b''\<rparr>, processor = Some 0\<rparr>)]\<rparr>"]
  by (simp add: sched_ok_def elem_ok_def JobProcessor_new_def jobs_for_def job_effects_def)

text \<open>A job scheduled for a time for which another job is waiting already is dropped: the call
  returns as usual and the scheduler is unchanged.\<close>

lemma same_time_dropped:
  assumes "lock_avail t (Some (cs sch))" "strict_keys (job_map sch)" "map_of (job_map sch) (i64 (now + i64 (tpm * d))) \<noteq> None"
  shows "Schedule tpm t now proc jb d (sch, ps) = Inr ((), (sch, ps))"
  using Schedule_avail[OF assms(1), of tpm now proc jb d ps] map_insert_present[OF assms(3,2)] by simp

end
