(* ===== verification/Gl_Network.thy ===== *)
theory Gl_Network
  imports Gl_Session Listen_Iocp
begin

text \<open>
  The server of the rewrite: \<^verbatim>\<open>tcp_server.h\<close>/\<^verbatim>\<open>.cpp\<close>, \<^verbatim>\<open>iocp_binder.h\<close>, \<^verbatim>\<open>network_interface.h\<close> and
  \<^verbatim>\<open>server_main.cpp\<close> of \<^verbatim>\<open>gordonlee/src\<close>. The network object owns the listening socket, the
  completion port and the accept thread; the session objects are on the heap of \<open>Gl_Session\<close>, which
  also carries the trace of system calls.
\<close>

section \<open>tcp\_server\<close>

record gl_TcpServer =
  sv_socket :: SOCKET
  sv_addr :: SOCKADDR_IN
  listen_port :: int
  accept_io :: gl_OverlappedIO
  is_started :: bool

definition gl_err_display :: "string \<Rightarrow> trace \<Rightarrow> trace" where
  "gl_err_display msg tr = tr @ [printf_call msg]"

definition gl_TcpServer_new :: gl_TcpServer where
  "gl_TcpServer_new = \<lparr>sv_socket = 0, sv_addr = zero_addr, listen_port = 9000,
     accept_io = gl_Reset gl_OverlappedIO_new, is_started = False\<rparr>"

definition set_listen_port :: "int \<Rightarrow> gl_TcpServer \<Rightarrow> gl_TcpServer" where
  "set_listen_port port s = s\<lparr>listen_port := port\<rparr>"

definition sv_Initialize :: "'w winsock_scheme \<Rightarrow> gl_TcpServer \<times> trace \<Rightarrow> bool \<times> gl_TcpServer \<times> trace" where
  "sv_Initialize os = (\<lambda>(s, tr).
     let s1 = s\<lparr>sv_socket := socket_ret os tr\<rparr>; tr1 = tr @ [socket_call]
     in if sv_socket s1 = INVALID_SOCKET then (False, s1, tr1) else (True, s1, tr1))"

definition sv_Bind :: "'w winsock_scheme \<Rightarrow> gl_TcpServer \<times> trace \<Rightarrow> bool \<times> gl_TcpServer \<times> trace" where
  "sv_Bind os = (\<lambda>(s, tr).
     let addr = \<lparr>sin_family = AF_INET, sin_port = htons (word_of_int (listen_port s)), s_addr = 0\<rparr>;
         s1 = s\<lparr>sv_addr := addr\<rparr>;
         bindResult = bind_ret os tr (sv_socket s1) addr; tr1 = tr @ [bind_call (sv_socket s1) addr]
     in if bindResult = SOCKET_ERROR then (False, s1, tr1 @ [printf_call ''bind failed with error''])
        else (True, s1, tr1))"

definition sv_Listen :: "'w winsock_scheme \<Rightarrow> gl_TcpServer \<times> trace \<Rightarrow> bool \<times> gl_TcpServer \<times> trace" where
  "sv_Listen os = (\<lambda>(s, tr).
     let result = listen_ret os tr (sv_socket s); tr1 = tr @ [listen_call (sv_socket s)]
     in if result = SOCKET_ERROR then (False, s, tr1 @ [printf_call ''listen failed with error''])
        else (True, s, tr1))"

definition sv_Start :: "'w winsock_scheme \<Rightarrow> gl_TcpServer \<times> trace \<Rightarrow> bool \<times> gl_TcpServer \<times> trace" where
  "sv_Start os st =
     (let (ok1, st1) = sv_Initialize os st in if \<not> ok1 then (False, st1) else
      let (ok2, st2) = sv_Bind os st1 in if \<not> ok2 then (False, st2) else
      let (ok3, st3) = sv_Listen os st2 in if \<not> ok3 then (False, st3) else (True, st3))"

definition sv_AcceptEx :: "'w winsock_scheme \<Rightarrow> nat \<Rightarrow> gl_TcpServer \<times> gl_heap \<Rightarrow> (bool \<times> gl_heap) res" where
  "sv_AcceptEx os client = (\<lambda>(s, h). case objs h client of None \<Rightarrow> Inl DanglingPtr
     | Some c \<Rightarrow>
       (let (async_accept_result, error_code) = AcceptEx_ret os (gl_calls h) (sv_socket s) (cl_socket c);
            tr1 = gl_calls h @ [AcceptEx_call (sv_socket s) (cl_socket c) (accept_overlapped c)];
            tr2 = (if \<not> async_accept_result \<and> error_code \<noteq> ERROR_IO_PENDING
                   then gl_err_display ''acceptEx'' tr1 else tr1)
        in Inr (async_accept_result, h\<lparr>gl_calls := tr2\<rparr>)))"

definition sv_Accept ::
  "'w winsock_scheme \<Rightarrow> gl_TcpServer \<times> trace \<Rightarrow> (SOCKET \<times> SOCKADDR_IN) \<times> trace" where
  "sv_Accept os = (\<lambda>(s, tr).
     let r = accept_ret os tr (sv_socket s); tr1 = tr @ [accept_call (sv_socket s)]
     in (r, if fst r = INVALID_SOCKET then tr1 @ [printf_call ''accept failed with error''] else tr1))"

section \<open>iocp\_binder\<close>

record IocpBinder =
  iocp_handle :: int

definition IocpBinder_new :: IocpBinder where
  "IocpBinder_new = \<lparr>iocp_handle = 0\<rparr>"

definition CreateIocpHandle :: "'w winsock_scheme \<Rightarrow> IocpBinder \<times> trace \<Rightarrow> int \<times> IocpBinder \<times> trace" where
  "CreateIocpHandle os = (\<lambda>(b, tr).
     let handle = CreateIoCompletionPort_ret os tr INVALID_HANDLE_VALUE 0 0;
         tr1 = tr @ [CreateIoCompletionPort_call INVALID_HANDLE_VALUE 0 0]
     in if handle = 0 then (-1, b, tr1) else (0, b\<lparr>iocp_handle := handle\<rparr>, tr1))"

fun binder_threads :: "'w winsock_scheme \<Rightarrow> nat \<Rightarrow> int \<Rightarrow> trace \<Rightarrow> int \<times> trace" where
  "binder_threads os 0 handle tr = (0, tr)"
| "binder_threads os (Suc n) handle tr =
     (let thread_handle = beginthreadex_ret os tr; tr1 = tr @ [beginthreadex_call handle]
      in if thread_handle = 0 then (-2, tr1)
         else binder_threads os n handle (tr1 @ [CloseHandle_call thread_handle]))"

definition binder_StartIocpThread :: "'w winsock_scheme \<Rightarrow> nat \<Rightarrow> IocpBinder \<times> trace \<Rightarrow> int \<times> IocpBinder \<times> trace" where
  "binder_StartIocpThread os num_of_thread st =
     (let (r, b, tr) = CreateIocpHandle os st
      in if r < 0 then (-1, b, tr)
         else let (r2, tr2) = binder_threads os num_of_thread (iocp_handle b) tr in (r2, b, tr2))"

definition Register :: "'w winsock_scheme \<Rightarrow> SOCKET \<Rightarrow> int \<Rightarrow> IocpBinder \<times> trace \<Rightarrow> int \<times> trace" where
  "Register os socket completion_key = (\<lambda>(b, tr).
     let result = CreateIoCompletionPort_ret os tr socket (iocp_handle b) completion_key;
         tr1 = tr @ [CreateIoCompletionPort_call socket (iocp_handle b) completion_key]
     in if result = 0 then (-1, tr1) else (0, tr1))"

section \<open>network\_interface\<close>

datatype WSAVersion = VERSION_2_2
datatype IOModel = DEFAULT | ASYNC_ACCPET

record gl_Network =
  iocp :: IocpBinder
  nw_server :: "gl_TcpServer option"
  io_model :: IOModel
  is_thread_running :: bool
  nw_num_init_ccu :: int
  gheap :: gl_heap

definition gl_Network_new :: gl_Network where
  "gl_Network_new = \<lparr>iocp = IocpBinder_new, nw_server = None, io_model = DEFAULT, is_thread_running = True,
     nw_num_init_ccu = 100, gheap = gl_heap_empty\<rparr>"

definition nw_calls_upd :: "trace \<Rightarrow> gl_Network \<Rightarrow> gl_Network" where
  "nw_calls_upd tr net = net\<lparr>gheap := (gheap net)\<lparr>gl_calls := tr\<rparr>\<rparr>"

abbreviation nw_calls :: "gl_Network \<Rightarrow> trace" where
  "nw_calls net \<equiv> gl_calls (gheap net)"

definition StartWSA :: "'w winsock_scheme \<Rightarrow> WSAVersion \<Rightarrow> gl_Network \<Rightarrow> bool \<times> gl_Network" where
  "StartWSA os version net = (case version of VERSION_2_2 \<Rightarrow>
     (WSAStartup_ret os (nw_calls net) = 0, nw_calls_upd (nw_calls net @ [WSAStartup_call]) net))"

definition EndWSA :: "gl_Network \<Rightarrow> gl_Network" where
  "EndWSA net = nw_calls_upd (nw_calls net @ [WSACleanup_call]) net"

definition gl_Initialize :: "'w winsock_scheme \<Rightarrow> IOModel \<Rightarrow> gl_Network \<Rightarrow> bool \<times> gl_Network" where
  "gl_Initialize os model net =
     (let (started, net1) = StartWSA os VERSION_2_2 net
      in if \<not> started then (False, net1)
         else
           let net2 = net1\<lparr>io_model := model\<rparr>;
               sv = set_listen_port 9000 gl_TcpServer_new;
               (_, sv1, tr1) = sv_Start os (sv, nw_calls net2);
               (_, b1, tr2) = binder_StartIocpThread os 2 (iocp net2, tr1)
           in (True, nw_calls_upd (tr2 @ [start_thread_call]) (net2\<lparr>nw_server := Some sv1, iocp := b1\<rparr>)))"

definition SetupAcceptableClient :: "'w winsock_scheme \<Rightarrow> gl_Network \<Rightarrow> (nat \<times> gl_Network) res" where
  "SetupAcceptableClient os net =
     (let (client, h1) = new_TcpClient os (gheap net)
      in case nw_server net of None \<Rightarrow> Inl NullDeref
         | Some sv \<Rightarrow>
             (let (_, tr) = Register os (sv_socket sv) (int client) (iocp net, gl_calls h1)
              in bindE (sv_AcceptEx os client (sv, h1\<lparr>gl_calls := tr\<rparr>)) (\<lambda>(_, h2).
                 Inr (client, net\<lparr>gheap := h2\<rparr>))))"

definition IsRunning :: "gl_Network \<Rightarrow> bool" where
  "IsRunning net = is_thread_running net"

definition gl_Run :: "gl_Network \<Rightarrow> gl_Network" where
  "gl_Run net = net"

text \<open>The loop of the accept thread; \<open>None\<close> when it has not ended within the given number of turns.\<close>

fun InternalRun_loop :: "nat \<Rightarrow> gl_Network \<Rightarrow> gl_Network option" where
  "InternalRun_loop 0 net = None"
| "InternalRun_loop (Suc n) net = (if IsRunning net then InternalRun_loop n (gl_Run net) else Some net)"

definition InternalRun :: "'w winsock_scheme \<Rightarrow> nat \<Rightarrow> gl_Network \<Rightarrow> gl_Network option res" where
  "InternalRun os n net = bindE (SetupAcceptableClient os net) (\<lambda>(_, net1). Inr (InternalRun_loop n net1))"

definition Clean :: "gl_Network \<Rightarrow> gl_Network" where
  "Clean net = EndWSA (nw_calls_upd (nw_calls net @ [WaitForSingleObject_call, detach_thread_call])
     (net\<lparr>is_thread_running := False\<rparr>))"

text \<open>\<^verbatim>\<open>server_main.cpp\<close>: start, wait for the accept thread, then clean up. \<open>n\<close> turns of the accept thread
  are looked at; \<open>None\<close> while \<^verbatim>\<open>main\<close> waits for it. The result of \<^verbatim>\<open>Initialize\<close> is not looked at: when it
  failed there is no thread, the wait fails at once and \<^verbatim>\<open>detach\<close> throws.\<close>

definition server_main :: "'w winsock_scheme \<Rightarrow> nat \<Rightarrow> gl_Network option res" where
  "server_main os n =
     (let (started, net) = gl_Initialize os DEFAULT gl_Network_new
      in if \<not> started then Inl Terminate
         else bindE (InternalRun os n net) (\<lambda>r. Inr (map_option Clean r)))"

record gl_completion =
  gl_retval :: int
  gl_key :: "nat option"
  gl_overlapped :: "nat option"

definition gl_WorkerThread_step :: "gl_winsock \<Rightarrow> gl_completion \<Rightarrow> gl_heap \<Rightarrow> gl_heap res" where
  "gl_WorkerThread_step os ev h =
     (if gl_retval ev \<noteq> 1 \<or> gl_key ev = None then Inr h
      else case gl_key ev of None \<Rightarrow> Inr h
      | Some client \<Rightarrow> (case objs h client of None \<Rightarrow> Inl DanglingPtr
          | Some c \<Rightarrow>
              if accept_overlapped c = gl_overlapped ev
              then OnAccept os client (h\<lparr>gl_calls := gl_calls h @ [printf_call ''accpeted!'']\<rparr>)
              else Inr h))"

section \<open>What they do\<close>

lemma InternalRun_loop_running: "is_thread_running net \<Longrightarrow> InternalRun_loop n net = None"
  by (induction n arbitrary: net) (simp_all add: IsRunning_def gl_Run_def)

lemma Clean_stops: "InternalRun_loop (Suc n) (Clean net) = Some (Clean net)"
  by (simp add: IsRunning_def Clean_def EndWSA_def nw_calls_upd_def)

fun acceptex_call :: "os_call \<Rightarrow> bool" where
  "acceptex_call (AcceptEx_call _ _ _) = True"
| "acceptex_call _ = False"

abbreviation acceptex_count :: "trace \<Rightarrow> nat" where
  "acceptex_count tr \<equiv> length (filter acceptex_call tr)"

lemma binder_threads_acceptex: "acceptex_count (snd (binder_threads os n p tr)) = acceptex_count tr"
  by (induction n arbitrary: tr) (simp_all add: Let_def)

lemma sv_Start_acceptex: "acceptex_count (snd (snd (sv_Start os (s, tr)))) = acceptex_count tr"
  by (simp add: sv_Start_def sv_Initialize_def sv_Bind_def sv_Listen_def Let_def)

lemma gl_Initialize_started:
  assumes "WSAStartup_ret os (nw_calls net) = 0"
  shows "\<exists>net'. gl_Initialize os model net = (True, net') \<and> acceptex_count (nw_calls net') = acceptex_count (nw_calls net)
    \<and> nw_server net' \<noteq> None \<and> is_thread_running net' = is_thread_running net"
proof -
  let ?tr = "nw_calls net @ [WSAStartup_call]"
  obtain k sv1 tr1 where sv: "sv_Start os (set_listen_port 9000 gl_TcpServer_new, ?tr) = (k, sv1, tr1)"
    by (metis prod.collapse)
  obtain k2 b1 tr2 where b: "binder_StartIocpThread os 2 (iocp net, tr1) = (k2, b1, tr2)"
    by (metis prod.collapse)
  have "acceptex_count tr1 = acceptex_count (nw_calls net)"
    using sv_Start_acceptex[of os "set_listen_port 9000 gl_TcpServer_new" ?tr] sv by simp
  moreover have "acceptex_count tr2 = acceptex_count tr1"
    using b binder_threads_acceptex[of os 2]
    by (auto simp: binder_StartIocpThread_def CreateIocpHandle_def Let_def split: if_splits prod.splits)
      (metis filter.simps acceptex_call.simps filter_append append_Nil2 snd_conv)+
  ultimately show ?thesis
    using assms sv b by (simp add: gl_Initialize_def StartWSA_def nw_calls_upd_def Let_def)
qed

lemma SetupAcceptableClient_ok:
  assumes "nw_server net = Some sv"
  shows "\<exists>net'. SetupAcceptableClient os net = Inr (next_obj (gheap net), net')
    \<and> acceptex_count (nw_calls net') = Suc (acceptex_count (nw_calls net))
    \<and> is_thread_running net' = is_thread_running net \<and> nw_server net' = nw_server net
    \<and> objs (gheap net') (next_obj (gheap net)) \<noteq> None"
  using assms
  by (simp add: SetupAcceptableClient_def new_TcpClient_def TcpClient_ctor_def Register_def sv_AcceptEx_def
      gl_err_display_def Let_def split: prod.splits)

lemma gl_WorkerThread_step_frame:
  assumes "gl_WorkerThread_step os ev h = Inr h'"
  shows "acceptex_count (gl_calls h') = acceptex_count (gl_calls h) \<and> ovls h' = ovls h \<and> dom (objs h') = dom (objs h)"
  using assms
  by (auto simp: gl_WorkerThread_step_def OnAccept_def split: if_splits option.splits prod.splits)

lemma gl_WorkerThread_step_total:
  "\<forall>a. gl_key ev = Some a \<longrightarrow> objs h a \<noteq> None \<Longrightarrow> \<exists>h'. gl_WorkerThread_step os ev h = Inr h'"
  by (auto simp: gl_WorkerThread_step_def OnAccept_def split: option.splits prod.splits)

text \<open>Any sequence of completions.\<close>

fun gl_Worker :: "gl_winsock \<Rightarrow> gl_completion list \<Rightarrow> gl_heap \<Rightarrow> gl_heap res" where
  "gl_Worker os [] h = Inr h"
| "gl_Worker os (ev # evs) h = bindE (gl_WorkerThread_step os ev h) (gl_Worker os evs)"

lemma gl_Worker_frame:
  "gl_Worker os evs h = Inr h' \<Longrightarrow> acceptex_count (gl_calls h') = acceptex_count (gl_calls h)"
  by (induction evs arbitrary: h) (auto simp: bindE_eq_Inr dest: gl_WorkerThread_step_frame)

section \<open>One connection\<close>



end
