(* ===== verification/Gl_Threads.thy ===== *)
theory Gl_Threads
  imports Gl_Scheduler Gl_Network
begin

text \<open>
  The threads of the rewrite. \<^verbatim>\<open>JobProcessor\<close>, \<^verbatim>\<open>Scheduler\<close> and \<^verbatim>\<open>Network\<close> start a thread on one of their
  own methods and keep it in a \<^verbatim>\<open>std::thread\<close> member; the other theories model what the loops do to
  the objects, this one when the objects and the threads begin and end. An \<open>owner\<close> is the object
  (\<open>None\<close> once it is destroyed), its thread member and the threads that still run on it.

  An exception that a member function of \<^verbatim>\<open>std::thread\<close> throws is caught nowhere in the sources, so it ends the
  program like \<^verbatim>\<open>std::terminate\<close>.
\<close>

section \<open>std::thread\<close>

datatype std_thread = NoThread | Joinable nat

definition native_handle :: "std_thread \<Rightarrow> nat option" where
  "native_handle th = (case th of NoThread \<Rightarrow> None | Joinable i \<Rightarrow> Some i)"

definition thread_detach :: "std_thread \<Rightarrow> std_thread res" where
  "thread_detach th = (case th of NoThread \<Rightarrow> Inl Terminate | Joinable _ \<Rightarrow> Inr NoThread)"

definition thread_assign :: "std_thread \<Rightarrow> std_thread \<Rightarrow> std_thread res" where
  "thread_assign th new_thread = (case th of NoThread \<Rightarrow> Inr new_thread | Joinable _ \<Rightarrow> Inl Terminate)"

definition thread_dtor :: "std_thread \<Rightarrow> unit res" where
  "thread_dtor th = (case th of NoThread \<Rightarrow> Inr () | Joinable _ \<Rightarrow> Inl Terminate)"

lemmas std_thread_defs = native_handle_def thread_detach_def thread_assign_def thread_dtor_def

section \<open>Objects that own a thread\<close>

record 'o owner =
  object :: "'o option"
  owned_thread :: std_thread
  running :: "nat set"
  ow_calls :: trace

text \<open>A turn of the loop that thread \<open>i\<close> runs on the object; a thread that has ended does nothing.\<close>

definition owner_turn :: "('o \<Rightarrow> 'o res) \<Rightarrow> nat \<Rightarrow> 'o owner \<Rightarrow> 'o owner res" where
  "owner_turn f i w =
     (if i \<notin> running w then Inr w
      else case object w of None \<Rightarrow> Inl DanglingPtr
           | Some x \<Rightarrow> bindE (f x) (\<lambda>x'. Inr (w\<lparr>object := Some x'\<rparr>)))"

text \<open>What the compiler adds to every destructor: the members are destroyed, the storage is gone.\<close>

definition destroy_members :: "'o owner \<Rightarrow> 'o owner res" where
  "destroy_members w = bindE (thread_dtor (owned_thread w)) (\<lambda>_. Inr (w\<lparr>object := None, owned_thread := NoThread\<rparr>))"

text \<open>\<^verbatim>\<open>thread_.detach(); thread_ = std::thread();\<close>\<close>

definition drop_thread :: "'o owner \<Rightarrow> 'o owner res" where
  "drop_thread w = bindE (thread_detach (owned_thread w)) (\<lambda>th.
     bindE (thread_assign th NoThread) (\<lambda>th'. Inr (w\<lparr>owned_thread := th', ow_calls := ow_calls w @ [detach_thread_call]\<rparr>)))"

section \<open>JobProcessor\<close>

text \<open>The object with the local variable of its loop.\<close>

definition JobProcessor_ctor :: "nat \<Rightarrow> (int \<times> 'e JobProcessor) owner" where
  "JobProcessor_ctor i = \<lparr>object = Some (0, JobProcessor_new), owned_thread = Joinable i, running = {i}, ow_calls = [start_thread_call]\<rparr>"

definition job_turn :: "int \<times> 'e JobProcessor \<Rightarrow> (int \<times> 'e JobProcessor) res" where
  "job_turn s = (case job_WorkerProccess_step s of Some s' \<Rightarrow> Inr s' | None \<Rightarrow> Inl LockBusy)"

text \<open>\<open>event\<close> is the handle \<^verbatim>\<open>CreateEvent\<close> gave.\<close>

definition JobProcessor_dtor :: "int \<Rightarrow> (int \<times> 'e JobProcessor) owner \<Rightarrow> (int \<times> 'e JobProcessor) owner res" where
  "JobProcessor_dtor event w = bindE (drop_thread w) (\<lambda>w1.
     destroy_members (w1\<lparr>ow_calls := ow_calls w1 @ [CloseHandle_call event]\<rparr>))"

section \<open>Scheduler\<close>

text \<open>The constructor starts the thread; the destructor has an empty body. \<open>GetInstance\<close> makes one object
  that lives until the program ends.\<close>

definition Scheduler_ctor :: "nat \<Rightarrow> (nat \<rightharpoonup> 'e JobProcessor) \<Rightarrow> 'e sched owner" where
  "Scheduler_ctor i ps = \<lparr>object = Some (Scheduler_new, ps), owned_thread = Joinable i, running = {i}, ow_calls = [start_thread_call]\<rparr>"

definition Scheduler_dtor :: "'e sched owner \<Rightarrow> 'e sched owner res" where
  "Scheduler_dtor w = destroy_members w"

definition Scheduler_GetInstance :: "nat \<Rightarrow> (nat \<rightharpoonup> 'e JobProcessor) \<Rightarrow> 'e sched owner option \<Rightarrow> 'e sched owner" where
  "Scheduler_GetInstance i ps instance = (case instance of None \<Rightarrow> Scheduler_ctor i ps | Some w \<Rightarrow> w)"

section \<open>Network\<close>

definition Network_ctor :: "gl_Network owner" where
  "Network_ctor = \<lparr>object = Some gl_Network_new, owned_thread = NoThread, running = {}, ow_calls = []\<rparr>"

definition get_thread_handle :: "gl_Network owner \<Rightarrow> nat option" where
  "get_thread_handle w = native_handle (owned_thread w)"

definition Network_Initialize_thread :: "'w winsock_scheme \<Rightarrow> IOModel \<Rightarrow> nat \<Rightarrow> gl_Network owner \<Rightarrow> (bool \<times> gl_Network owner) res" where
  "Network_Initialize_thread os model i w = (case object w of None \<Rightarrow> Inl DanglingPtr
     | Some net \<Rightarrow>
       (let (started, net1) = gl_Initialize os model net; w1 = w\<lparr>object := Some net1\<rparr>
        in if \<not> started then Inr (False, w1)
           else bindE (thread_assign (owned_thread w1) (Joinable i)) (\<lambda>th.
             Inr (True, w1\<lparr>owned_thread := th, running := insert i (running w1)\<rparr>))))"

text \<open>A turn of the accept thread; it ends when the flag is down.\<close>

definition accept_turn_gl :: "gl_Network \<Rightarrow> gl_Network res" where
  "accept_turn_gl net = Inr (if IsRunning net then gl_Run net else net)"

text \<open>\<^verbatim>\<open>Clean\<close> lowers the flag and waits for the thread; the wait fails at once when there is none.\<close>

definition Network_Clean :: "gl_Network owner \<Rightarrow> gl_Network owner res" where
  "Network_Clean w = (case object w of None \<Rightarrow> Inl DanglingPtr
     | Some net \<Rightarrow>
       (let ended = (case get_thread_handle w of None \<Rightarrow> {} | Some i \<Rightarrow> {i})
        in bindE (drop_thread (w\<lparr>running := running w - ended\<rparr>)) (\<lambda>w1. Inr (w1\<lparr>object := Some (Clean net)\<rparr>))))"

definition Network_dtor :: "gl_Network owner \<Rightarrow> gl_Network owner res" where
  "Network_dtor w = bindE (drop_thread w) destroy_members"

section \<open>Threads that outlive their objects\<close>

lemmas thread_owner_defs = owner_turn_def destroy_members_def drop_thread_def std_thread_defs

lemma job_turn_returns: "\<exists>s'. job_turn s = Inr s'"
proof -
  have "job_WorkerProccess_step s \<noteq> None" using worker_never_blocks[of 1 s] by (cases "job_WorkerProccess_step s") simp_all
  then show ?thesis by (auto simp: job_turn_def)
qed

text \<open>While the object lives every turn of its thread returns.\<close>

lemma live_job_turn: "object w = Some p \<Longrightarrow> \<exists>w'. owner_turn job_turn i w = Inr w'"
  using job_turn_returns[of p] by (auto simp: owner_turn_def)

lemma detached_thread_dangles:
  assumes "owned_thread w = Joinable i" "i \<in> running w"
  shows "\<exists>w'. bindE (drop_thread w) (\<lambda>w1. destroy_members (w1\<lparr>ow_calls := g (ow_calls w1)\<rparr>)) = Inr w'
    \<and> i \<in> running w' \<and> owner_turn f i w' = Inl DanglingPtr"
  using assms by (simp add: thread_owner_defs)

lemma Network_Initialize_thread_started:
  assumes "WSAStartup_ret os [] = 0"
  shows "\<exists>net. Network_Initialize_thread os model i Network_ctor
    = Inr (True, \<lparr>object = Some net, owned_thread = Joinable i, running = {i}, ow_calls = []\<rparr>)"
proof -
  have "nw_calls gl_Network_new = []" by (simp add: gl_Network_new_def gl_heap_empty_def)
  with gl_Initialize_started[of os gl_Network_new model] assms show ?thesis
    by (auto simp: Network_Initialize_thread_def Network_ctor_def std_thread_defs)
qed

text \<open>C24. The classes that start threads cannot be destroyed. A job processor detaches its thread, which then
  works on a destroyed queue, whatever the processor has done before; until then its turns return. The scheduler leaves its thread
  joinable, so that its destruction at the end of the program terminates the program. Destroying a network object
  terminates when it was never started and when it was cleaned up, because the thread is then detached a
  second time; otherwise the accept thread goes on with a destroyed object.\<close>

theorem thread_owners_destroyed:
  assumes "WSAStartup_ret os [] = 0"
  shows "(\<exists>w'. owner_turn job_turn i ((JobProcessor_ctor i)\<lparr>object := Some p\<rparr>) = Inr w')
    \<and> (\<exists>w'. JobProcessor_dtor event ((JobProcessor_ctor i)\<lparr>object := Some p\<rparr>) = Inr w'
      \<and> i \<in> running w' \<and> owner_turn job_turn i w' = Inl DanglingPtr)
    \<and> Scheduler_dtor ((Scheduler_ctor j ps)\<lparr>object := Some s\<rparr>) = Inl Terminate
    \<and> Network_dtor Network_ctor = Inl Terminate
    \<and> (\<exists>n1 n2 n3. Network_Initialize_thread os model k Network_ctor = Inr (True, n1)
        \<and> Network_dtor n1 = Inr n2 \<and> owner_turn accept_turn_gl k n2 = Inl DanglingPtr
        \<and> Network_Clean n1 = Inr n3 \<and> running n3 = {} \<and> Network_dtor n3 = Inl Terminate)"
proof (intro conjI)
  show "\<exists>w'. owner_turn job_turn i ((JobProcessor_ctor i)\<lparr>object := Some p\<rparr>) = Inr w'"
    by (rule live_job_turn[of _ p]) simp
  show "\<exists>w'. JobProcessor_dtor event ((JobProcessor_ctor i)\<lparr>object := Some p\<rparr>) = Inr w'
      \<and> i \<in> running w' \<and> owner_turn job_turn i w' = Inl DanglingPtr"
    unfolding JobProcessor_dtor_def by (rule detached_thread_dangles) (simp_all add: JobProcessor_ctor_def)
  show "Scheduler_dtor ((Scheduler_ctor j ps)\<lparr>object := Some s\<rparr>) = Inl Terminate"
    by (simp add: Scheduler_dtor_def Scheduler_ctor_def thread_owner_defs)
  show "Network_dtor Network_ctor = Inl Terminate"
    by (simp add: Network_dtor_def Network_ctor_def thread_owner_defs)
  obtain net where "Network_Initialize_thread os model k Network_ctor
      = Inr (True, \<lparr>object = Some net, owned_thread = Joinable k, running = {k}, ow_calls = []\<rparr>)"
    using Network_Initialize_thread_started[OF assms] by blast
  then show "\<exists>n1 n2 n3. Network_Initialize_thread os model k Network_ctor = Inr (True, n1)
      \<and> Network_dtor n1 = Inr n2 \<and> owner_turn accept_turn_gl k n2 = Inl DanglingPtr
      \<and> Network_Clean n1 = Inr n3 \<and> running n3 = {} \<and> Network_dtor n3 = Inl Terminate"
    by (simp add: Network_dtor_def Network_Clean_def get_thread_handle_def thread_owner_defs)
qed

theorem thread_owners_destroyed_witness:
  "(\<exists>w'. JobProcessor_dtor 5 (JobProcessor_ctor 1) = Inr w' \<and> owner_turn job_turn 1 (w' :: (int \<times> nat JobProcessor) owner) = Inl DanglingPtr)
    \<and> (\<exists>n1 n3. Network_Initialize_thread calm_gl_winsock DEFAULT 7 Network_ctor = Inr (True, n1)
        \<and> Network_Clean n1 = Inr n3 \<and> Network_dtor n3 = Inl Terminate)"
proof -
  have "WSAStartup_ret calm_gl_winsock [] = 0" by (simp add: calm_gl_winsock_def calm_winsock_def winsock.defs)
  note ends = thread_owners_destroyed[OF this, where event = 5 and i = 1 and p = "(0, JobProcessor_new)" and model = DEFAULT and k = 7]
  have same: "(JobProcessor_ctor 1)\<lparr>object := Some (0, JobProcessor_new)\<rparr> = JobProcessor_ctor 1"
    by (simp add: JobProcessor_ctor_def)
  from ends[unfolded same] show ?thesis by blast
qed

end
