(* ===== verification/Sample_Client.thy ===== *)
theory Sample_Client
  imports Win_Api
begin

text \<open>
  \<^verbatim>\<open>gordonlee_iocp/SampleClient/SampleClient/main.cpp\<close>: the console client. It sends a line and reads
  until as many bytes as it sent have come back, into the array it sent from. The network is a
  parameter: the \<open>k\<close>-th call of \<^verbatim>\<open>recv\<close> returns the bytes \<open>recv_ret k n\<close> (at most \<open>n\<close>; none when the
  peer has closed) or fails (\<open>None\<close>, the value \<open>-1\<close>). Lines of input are byte lists with their
  newline; \<^verbatim>\<open>inet_addr\<close> is part of the parameter.
\<close>

section \<open>Library functions\<close>

definition BUF_SIZE :: int where
  "BUF_SIZE = 1024"

definition strlen :: "byte list \<Rightarrow> nat res" where
  "strlen m = (if 0 \<in> set m then Inr (length (takeWhile (\<lambda>b. b \<noteq> 0) m)) else Inl OutOfBounds)"

definition fgets :: "byte list \<Rightarrow> byte list \<Rightarrow> byte list" where
  "fgets line m = mem_write m 0 (take (nat BUF_SIZE - 1) line @ [0])"

definition c_string :: "byte list \<Rightarrow> byte list" where
  "c_string m = takeWhile (\<lambda>b. b \<noteq> 0) m"

fun digits_value :: "int \<Rightarrow> string \<Rightarrow> int" where
  "digits_value v [] = v"
| "digits_value v (c # cs) =
     (if 48 \<le> (of_char c :: int) \<and> (of_char c :: int) \<le> 57 then digits_value (10 * v + (of_char c - 48)) cs else v)"

definition atoi :: "string \<Rightarrow> int" where
  "atoi s = (let s1 = dropWhile (\<lambda>c. (of_char c :: int) = 32 \<or> 9 \<le> (of_char c :: int) \<and> (of_char c :: int) \<le> 13) s in
     case s1 of [] \<Rightarrow> 0
     | c # cs \<Rightarrow> if c = CHR ''-'' then i32 (- digits_value 0 cs)
         else if c = CHR ''+'' then i32 (digits_value 0 cs) else i32 (digits_value 0 s1))"

record client_env = winsock +
  inet_addr :: "string \<Rightarrow> 32 word"
  connect_ret :: "trace \<Rightarrow> SOCKET \<Rightarrow> SOCKADDR_IN \<Rightarrow> int"
  recv_ret :: "nat \<Rightarrow> int \<Rightarrow> byte list option"

section \<open>main\<close>

text \<open>The part before the loop: the socket, or the exit code with the message printed.\<close>

definition ErrorHandling :: "string \<Rightarrow> trace \<Rightarrow> (int \<times> SOCKET option) \<times> trace" where
  "ErrorHandling msg tr = ((1, None), tr @ [printf_call msg])"

definition main_connect :: "client_env \<Rightarrow> string list \<Rightarrow> trace \<Rightarrow> (int \<times> SOCKET option) \<times> trace" where
  "main_connect env argv tr =
     (if length argv \<noteq> 3 then ((1, None), tr @ [printf_call ''Usage''])
      else
        let r = WSAStartup_ret env tr; tr1 = tr @ [WSAStartup_call]
        in if r \<noteq> 0 then ErrorHandling ''WSAStartup() error!'' tr1
           else
             let hSocket = socket_ret env tr1; tr2 = tr1 @ [socket_call]
             in if hSocket = INVALID_SOCKET then ErrorHandling ''socket() error'' tr2
                else
                  let servAdr = \<lparr>sin_family = AF_INET, sin_port = htons (word_of_int (atoi (argv ! 2))),
                                 s_addr = inet_addr env (argv ! 1)\<rparr>
                  in if connect_ret env tr2 hSocket servAdr = SOCKET_ERROR
                     then ErrorHandling ''connect() error!'' (tr2 @ [connect_call hSocket servAdr])
                     else ((0, Some hSocket), tr2 @ [connect_call hSocket servAdr, printf_call ''Connected''])
   )"

text \<open>The inner loop: the message array, the byte count and the number of \<^verbatim>\<open>recv\<close> calls made.\<close>

fun recv_loop :: "client_env \<Rightarrow> nat \<Rightarrow> nat \<Rightarrow> int \<Rightarrow> int \<Rightarrow> byte list \<Rightarrow> (byte list \<times> int \<times> nat) res" where
  "recv_loop env 0 k strLen readLen message = Inl OutOfFuel"
| "recv_loop env (Suc fuel) k strLen readLen message =
     (case recv_ret env k (BUF_SIZE - 1) of
        None \<Rightarrow>
          if readLen - 1 \<ge> strLen then Inr (message, readLen - 1, Suc k)
          else recv_loop env fuel (Suc k) strLen (readLen - 1) message
      | Some bs \<Rightarrow>
          if bs \<noteq> [] \<and> (readLen < 0 \<or> readLen + int (length bs) > BUF_SIZE) then Inl OutOfBounds
          else
            let message' = mem_write message (nat readLen) bs; readLen' = readLen + int (length bs)
            in if readLen' \<ge> strLen then Inr (message', readLen', Suc k)
               else recv_loop env fuel (Suc k) strLen readLen' message')"

record client_state =
  message :: "byte list"
  recv_calls :: nat
  sent :: "byte list list"
  shown :: "byte list list"

text \<open>One line of input that is not the quit command.\<close>

definition echo_turn :: "client_env \<Rightarrow> nat \<Rightarrow> client_state \<Rightarrow> client_state res" where
  "echo_turn env fuel s =
     bindE (strlen (message s)) (\<lambda>n.
     let strLen = int n - 1
     in bindE (recv_loop env fuel (recv_calls s) strLen 0 (message s)) (\<lambda>(m, _, k).
        if strLen < 0 then Inl OutOfBounds
        else
          let m' = m[nat strLen := 0]
          in Inr (s\<lparr>message := m', recv_calls := k, sent := sent s @ [take (nat strLen) (message s)],
                    shown := shown s @ [c_string m']\<rparr>)))"

definition quit_line :: "byte list \<Rightarrow> bool" where
  "quit_line m \<longleftrightarrow> c_string m = [0x71, 0x0A] \<or> c_string m = [0x51, 0x0A]"

text \<open>The outer loop over what \<^verbatim>\<open>fgets\<close> returns: a line, or \<open>None\<close> at the end of the input, which leaves
  the array as it is.\<close>

fun main_loop :: "client_env \<Rightarrow> nat \<Rightarrow> byte list option list \<Rightarrow> client_state \<Rightarrow> client_state res" where
  "main_loop env fuel [] s = Inl OutOfFuel"
| "main_loop env fuel (line # ls) s =
     (let s1 = (case line of None \<Rightarrow> s | Some l \<Rightarrow> s\<lparr>message := fgets l (message s)\<rparr>)
      in if quit_line (message s1) then Inr s1
         else bindE (echo_turn env fuel s1) (main_loop env fuel ls))"

section \<open>Receiving an echo\<close>

text \<open>The first calls return the pieces \<open>bss\<close>.\<close>

definition pieces :: "client_env \<Rightarrow> nat \<Rightarrow> byte list list \<Rightarrow> bool" where
  "pieces env k bss \<longleftrightarrow> (\<forall>i<length bss. recv_ret env (k + i) (BUF_SIZE - 1) = Some (bss ! i))"

lemma pieces_Cons: "pieces env k (bs # bss) \<longleftrightarrow> recv_ret env k (BUF_SIZE - 1) = Some bs \<and> pieces env (Suc k) bss"
  unfolding pieces_def by (simp add: All_less_Suc2)

lemma mem_write_append:
  "i + length xs + length ys \<le> length m \<Longrightarrow>
   mem_write (mem_write m i xs) (i + length xs) ys = mem_write m i (xs @ ys)"
  by (simp add: mem_write_def add_ac)

lemma recv_loop_pieces:
  assumes "pieces env k bss" "bss \<noteq> []" "\<forall>bs\<in>set bss. bs \<noteq> []" "length bss \<le> fuel"
    and "strLen = int (r + length (concat bss))" "strLen \<le> BUF_SIZE" "length m = nat BUF_SIZE"
  shows "recv_loop env fuel k strLen (int r) m = Inr (mem_write m r (concat bss), strLen, k + length bss)"
  using assms
proof (induction bss arbitrary: fuel k r m)
  case (Cons bs bss)
  obtain f where f: "fuel = Suc f" using Cons.prems(4) by (cases fuel) auto
  have p: "recv_ret env k (BUF_SIZE - 1) = Some bs" "pieces env (Suc k) bss"
    using Cons.prems(1) by (simp_all add: pieces_Cons)
  let ?m = "mem_write m r bs"
  have len: "length ?m = nat BUF_SIZE"
    using Cons.prems(5-7) by (simp add: mem_write_def BUF_SIZE_def)
  show ?case
  proof (cases "bss = []")
    case True
    with f p Cons.prems show ?thesis by (simp add: Let_def BUF_SIZE_def)
  next
    case False
    then have "concat bss \<noteq> []" using Cons.prems(3) by (cases bss) auto
    then have lt: "int r + int (length bs) < strLen" using Cons.prems(5) by simp
    have "recv_loop env f (Suc k) strLen (int (r + length bs)) ?m
      = Inr (mem_write ?m (r + length bs) (concat bss), strLen, Suc k + length bss)"
      by (rule Cons.IH[OF p(2) False]) (use Cons.prems f len in auto)
    moreover have "mem_write ?m (r + length bs) (concat bss) = mem_write m r (bs @ concat bss)"
      by (rule mem_write_append) (use Cons.prems(5-7) in \<open>simp add: BUF_SIZE_def\<close>)
    ultimately show ?thesis
      using f p(1) lt Cons.prems(3,5,6) by (simp add: Let_def BUF_SIZE_def)
  qed
qed simp

text \<open>A peer that has closed the connection: \<^verbatim>\<open>recv\<close> keeps returning 0 and the loop does not end.\<close>

lemma recv_loop_closed:
  assumes "\<And>j. k \<le> j \<Longrightarrow> recv_ret env j (BUF_SIZE - 1) = Some []" "r < strLen"
  shows "recv_loop env fuel k strLen r m = Inl OutOfFuel"
  using assms
proof (induction fuel arbitrary: k m)
  case (Suc fuel)
  then have "recv_ret env k (BUF_SIZE - 1) = Some []" by simp
  with Suc.IH[of "Suc k"] Suc.prems show ?case by (simp add: Let_def)
qed simp

text \<open>One line, echoed.\<close>

lemma takeWhile_nonzero: "0 \<notin> set xs \<Longrightarrow> takeWhile (\<lambda>b. b \<noteq> 0) (xs @ 0 # ys) = (xs :: byte list)"
  by (induction xs) auto

lemma strlen_append: "0 \<notin> set xs \<Longrightarrow> strlen (xs @ 0 # ys) = Inr (length xs)"
  by (simp add: strlen_def takeWhile_nonzero)

lemma fgets_line:
  "length line < nat BUF_SIZE \<Longrightarrow> length m = nat BUF_SIZE \<Longrightarrow>
   fgets line m = line @ 0 # drop (Suc (length line)) m"
  by (simp add: fgets_def mem_write_def BUF_SIZE_def)

lemma echo_turn_ok:
  assumes "message s = txt @ 10 # 0 # rest" "length (message s) = nat BUF_SIZE" "0 \<notin> set txt" "txt \<noteq> []"
    and "pieces env (recv_calls s) bss" "concat bss = txt" "\<forall>bs\<in>set bss. bs \<noteq> []" "length bss \<le> fuel"
  shows "\<exists>s'. echo_turn env fuel s = Inr s' \<and> sent s' = sent s @ [txt] \<and> shown s' = shown s @ [txt]
    \<and> length (message s') = nat BUF_SIZE \<and> recv_calls s' = recv_calls s + length bss"
proof -
  have sl: "strlen (message s) = Inr (Suc (length txt))"
    using strlen_append[of "txt @ [10]" rest] assms(1,3) by simp
  have len: "int (length txt) \<le> BUF_SIZE" using assms(1,2) by (simp add: BUF_SIZE_def)
  have "recv_loop env fuel (recv_calls s) (int (length txt)) (int 0) (message s)
    = Inr (mem_write (message s) 0 (concat bss), int (length txt), recv_calls s + length bss)"
    by (rule recv_loop_pieces) (use assms len in auto)
  moreover have "mem_write (message s) 0 (concat bss) = message s"
    using assms(1,6) by (simp add: mem_write_def)
  moreover have "(message s)[length txt := 0] = txt @ 0 # 0 # rest" using assms(1) by simp
  moreover have "c_string (txt @ 0 # 0 # rest) = txt"
    using assms(3) by (simp add: c_string_def takeWhile_nonzero)
  ultimately show ?thesis
    using sl assms(1,2) by (simp add: echo_turn_def)
qed

section \<open>The echo client\<close>


definition echo_env :: "(nat \<Rightarrow> byte list option) \<Rightarrow> client_env" where
  "echo_env f = winsock.extend calm_winsock \<lparr>inet_addr = (\<lambda>_. 0), connect_ret = (\<lambda>_ _ _. 0), recv_ret = (\<lambda>k n. f k)\<rparr>"

definition typed_hi :: client_state where
  "typed_hi = \<lparr>message = [104, 105, 10, 0] @ replicate 1020 0, recv_calls = 0, sent = [], shown = []\<rparr>"




end
