(* ===== verification/L4_Run.thy ===== *)
theory L4_Run
  imports Auto_Lock
begin

text \<open>
  Sequencing for the logging library log4cplus (\<^verbatim>\<open>Libraries/log4cplus\<close>). Unlike the server, the
  library throws and catches exceptions and runs destructors while it unwinds, so an operation ends
  in one of four ways, and an exception or a wait carries the state it leaves behind.
\<close>

section \<open>How an operation ends\<close>

datatype ('a, 's) run =
    Done 'a 's        \<comment> \<open>returned\<close>
  | Thrown string 's  \<comment> \<open>left by an exception\<close>
  | Waits 's          \<comment> \<open>the thread waits in a blocking call\<close>
  | Crash cpp_error   \<comment> \<open>undefined behaviour or \<^verbatim>\<open>std::terminate\<close>\<close>

type_synonym ('a, 's) act = "'s \<Rightarrow> ('a, 's) run"

definition seqR :: "('a, 's) act \<Rightarrow> ('a \<Rightarrow> ('b, 's) act) \<Rightarrow> ('b, 's) act" where
  "seqR m f s = (case m s of
     Done x s' \<Rightarrow> f x s' | Thrown e s' \<Rightarrow> Thrown e s' | Waits s' \<Rightarrow> Waits s' | Crash e \<Rightarrow> Crash e)"

text \<open>\<^verbatim>\<open>try m catch (...) h\<close>.\<close>

definition catchR :: "('a, 's) act \<Rightarrow> (string \<Rightarrow> ('a, 's) act) \<Rightarrow> ('a, 's) act" where
  "catchR m h s = (case m s of
     Done x s' \<Rightarrow> Done x s' | Thrown e s' \<Rightarrow> h e s' | Waits s' \<Rightarrow> Waits s' | Crash e \<Rightarrow> Crash e)"

text \<open>A local object: its destructor \<open>d\<close> runs when \<open>m\<close> returns and when it throws. An exception out
  of a destructor during unwinding is \<^verbatim>\<open>std::terminate\<close>.\<close>

definition finallyR :: "('a, 's) act \<Rightarrow> (unit, 's) act \<Rightarrow> ('a, 's) act" where
  "finallyR m d s = (case m s of
     Done x s' \<Rightarrow> seqR d (\<lambda>_. Done x) s'
   | Thrown e s' \<Rightarrow> (case d s' of
       Done _ s'' \<Rightarrow> Thrown e s'' | Thrown _ _ \<Rightarrow> Crash Terminate | Waits s'' \<Rightarrow> Waits s'' | Crash c \<Rightarrow> Crash c)
   | Waits s' \<Rightarrow> Waits s' | Crash e \<Rightarrow> Crash e)"

text \<open>\<^verbatim>\<open>if (ret != 0) LOG4CPLUS_THROW_RTE (msg)\<close> and its negated form for Win32 results.\<close>

definition throw_unless :: "bool \<Rightarrow> string \<Rightarrow> (unit, 's) act" where
  "throw_unless ok msg s = (if ok then Done () s else Thrown msg s)"

lemma seqR_simps [simp]:
  "m s = Done x s' \<Longrightarrow> seqR m f s = f x s'"
  "m s = Thrown e s' \<Longrightarrow> seqR m f s = Thrown e s'"
  "m s = Waits s' \<Longrightarrow> seqR m f s = Waits s'"
  "m s = Crash c \<Longrightarrow> seqR m f s = Crash c"
  by (simp_all add: seqR_def)

lemma catchR_simps [simp]:
  "m s = Done x s' \<Longrightarrow> catchR m h s = Done x s'"
  "m s = Thrown e s' \<Longrightarrow> catchR m h s = h e s'"
  "m s = Waits s' \<Longrightarrow> catchR m h s = Waits s'"
  "m s = Crash c \<Longrightarrow> catchR m h s = Crash c"
  by (simp_all add: catchR_def)

lemma finallyR_simps [simp]:
  "m s = Done x s' \<Longrightarrow> finallyR m d s = seqR d (\<lambda>_. Done x) s'"
  "m s = Thrown e s' \<Longrightarrow> d s' = Done u s'' \<Longrightarrow> finallyR m d s = Thrown e s''"
  "m s = Thrown e s' \<Longrightarrow> d s' = Thrown e' s'' \<Longrightarrow> finallyR m d s = Crash Terminate"
  "m s = Waits s' \<Longrightarrow> finallyR m d s = Waits s'"
  "m s = Crash c \<Longrightarrow> finallyR m d s = Crash c"
  by (simp_all add: finallyR_def)

lemma throw_unless_simps [simp]:
  "throw_unless True msg s = Done () s" "throw_unless False msg s = Thrown msg s"
  by (simp_all add: throw_unless_def)

lemma seqR_eq_Done: "seqR m f s = Done y s' \<longleftrightarrow> (\<exists>x s1. m s = Done x s1 \<and> f x s1 = Done y s')"
  by (simp add: seqR_def split: run.splits)

lemma catchR_never_throws:
  assumes "\<And>e s'. m s = Thrown e s' \<Longrightarrow> \<exists>x s''. h e s' = Done x s''"
  shows "catchR m h s \<noteq> Thrown e' s'''"
  using assms by (auto simp: catchR_def split: run.splits)

end
