(* ===== verification/L4_Guards.thy ===== *)
theory L4_Guards
  imports L4_Run
begin

text \<open>
  The scope guards of \<^verbatim>\<open>thread/syncprims.h\<close>: \<^verbatim>\<open>SyncGuard\<close>, whose primitive has a \<^verbatim>\<open>lock\<close> and an
  \<^verbatim>\<open>unlock\<close>, and \<^verbatim>\<open>SyncGuardFunc\<close>, which gets the two member functions as template arguments.
  Both are generic in the primitive, so the operations here take its two functions \<open>lk\<close> and \<open>ul\<close>;
  they act on the guard object together with the state \<open>'s\<close> of the primitives.

  The locale \<open>lockable\<close> is the contract of a primitive that a guard can hold. What a guarded scope
  guarantees, exceptions included, is proved in it once, and every primitive of the library
  interprets it.
\<close>

section \<open>SyncGuard\<close>

record 'p SyncGuard =
  sp :: "'p option"

type_synonym ('a, 'p, 's) guard_act = "('a, 'p SyncGuard \<times> 's) act"

definition SyncGuard_default :: "'p SyncGuard" where
  "SyncGuard_default = \<lparr>sp = None\<rparr>"

definition SyncGuard_ctor :: "('p \<Rightarrow> (unit, 's) act) \<Rightarrow> 'p \<Rightarrow> ('p SyncGuard, 's) act" where
  "SyncGuard_ctor lk m = seqR (lk m) (\<lambda>_. Done \<lparr>sp = Some m\<rparr>)"

definition SyncGuard_dtor :: "('p \<Rightarrow> (unit, 's) act) \<Rightarrow> 'p SyncGuard \<Rightarrow> (unit, 's) act" where
  "SyncGuard_dtor ul g = (case sp g of None \<Rightarrow> Done () | Some m \<Rightarrow> ul m)"

text \<open>A call on the primitive the guard points to; the guard itself is unchanged.\<close>

definition through_sp :: "('p \<Rightarrow> ('a, 's) act) \<Rightarrow> ('a, 'p, 's) guard_act" where
  "through_sp f gs = (case gs of (g, s) \<Rightarrow> (case sp g of
     None \<Rightarrow> Crash NullDeref
   | Some m \<Rightarrow> (case f m s of
       Done x s' \<Rightarrow> Done x (g, s') | Thrown e s' \<Rightarrow> Thrown e (g, s')
     | Waits s' \<Rightarrow> Waits (g, s') | Crash e \<Rightarrow> Crash e)))"

definition SyncGuard_lock :: "('p \<Rightarrow> (unit, 's) act) \<Rightarrow> (unit, 'p, 's) guard_act" where
  "SyncGuard_lock lk = through_sp lk"

definition SyncGuard_unlock :: "('p \<Rightarrow> (unit, 's) act) \<Rightarrow> (unit, 'p, 's) guard_act" where
  "SyncGuard_unlock ul = through_sp ul"

definition SyncGuard_attach :: "'p \<Rightarrow> (unit, 'p, 's) guard_act" where
  "SyncGuard_attach m gs = Done () ((fst gs)\<lparr>sp := Some m\<rparr>, snd gs)"

definition SyncGuard_detach :: "(unit, 'p, 's) guard_act" where
  "SyncGuard_detach gs = Done () ((fst gs)\<lparr>sp := None\<rparr>, snd gs)"

definition SyncGuard_attach_and_lock :: "('p \<Rightarrow> (unit, 's) act) \<Rightarrow> 'p \<Rightarrow> (unit, 'p, 's) guard_act" where
  "SyncGuard_attach_and_lock lk m =
     seqR (SyncGuard_attach m) (\<lambda>_.
     catchR (SyncGuard_lock lk) (\<lambda>e. seqR SyncGuard_detach (\<lambda>_. Thrown e)))"

text \<open>The life of a guard: constructed, the rest of its block, destroyed when the block is left. When
  the constructor throws there is no guard to destroy.\<close>

definition with_guard ::
  "('p \<Rightarrow> (unit, 's) act) \<Rightarrow> ('p \<Rightarrow> (unit, 's) act) \<Rightarrow> 'p \<Rightarrow> ('a, 'p, 's) guard_act \<Rightarrow> ('a, 's) act" where
  "with_guard lk ul m body s = (case SyncGuard_ctor lk m s of
     Done g s1 \<Rightarrow> (case finallyR body (\<lambda>(g', s'). (case SyncGuard_dtor ul g' s' of
           Done u s2 \<Rightarrow> Done u (g', s2) | Thrown e s2 \<Rightarrow> Thrown e (g', s2)
         | Waits s2 \<Rightarrow> Waits (g', s2) | Crash e \<Rightarrow> Crash e)) (g, s1) of
       Done x (g', s2) \<Rightarrow> Done x s2 | Thrown e (g', s2) \<Rightarrow> Thrown e s2
     | Waits (g', s2) \<Rightarrow> Waits s2 | Crash e \<Rightarrow> Crash e)
   | Thrown e s1 \<Rightarrow> Thrown e s1 | Waits s1 \<Rightarrow> Waits s1 | Crash e \<Rightarrow> Crash e)"

text \<open>A block that does not use its guard object.\<close>

definition plain :: "('a, 's) act \<Rightarrow> ('a, 'p, 's) guard_act" where
  "plain m gs = (case m (snd gs) of
     Done x s' \<Rightarrow> Done x (fst gs, s') | Thrown e s' \<Rightarrow> Thrown e (fst gs, s')
   | Waits s' \<Rightarrow> Waits (fst gs, s') | Crash e \<Rightarrow> Crash e)"

section \<open>SyncGuardFunc\<close>

record 'p SyncGuardFunc =
  fsp :: "'p option"

type_synonym ('a, 'p, 's) guard_func_act = "('a, 'p SyncGuardFunc \<times> 's) act"

definition SyncGuardFunc_ctor :: "('p \<Rightarrow> (unit, 's) act) \<Rightarrow> 'p \<Rightarrow> ('p SyncGuardFunc, 's) act" where
  "SyncGuardFunc_ctor lock_func m = seqR (lock_func m) (\<lambda>_. Done \<lparr>fsp = Some m\<rparr>)"

definition SyncGuardFunc_dtor :: "('p \<Rightarrow> (unit, 's) act) \<Rightarrow> 'p SyncGuardFunc \<Rightarrow> (unit, 's) act" where
  "SyncGuardFunc_dtor unlock_func g = (case fsp g of None \<Rightarrow> Done () | Some m \<Rightarrow> unlock_func m)"

definition through_fsp :: "('p \<Rightarrow> (unit, 's) act) \<Rightarrow> (unit, 'p, 's) guard_func_act" where
  "through_fsp f gs = (case gs of (g, s) \<Rightarrow> (case fsp g of
     None \<Rightarrow> Crash NullDeref
   | Some m \<Rightarrow> (case f m s of
       Done x s' \<Rightarrow> Done x (g, s') | Thrown e s' \<Rightarrow> Thrown e (g, s')
     | Waits s' \<Rightarrow> Waits (g, s') | Crash e \<Rightarrow> Crash e)))"

definition SyncGuardFunc_lock :: "('p \<Rightarrow> (unit, 's) act) \<Rightarrow> (unit, 'p, 's) guard_func_act" where
  "SyncGuardFunc_lock lock_func = through_fsp lock_func"

definition SyncGuardFunc_unlock :: "('p \<Rightarrow> (unit, 's) act) \<Rightarrow> (unit, 'p, 's) guard_func_act" where
  "SyncGuardFunc_unlock unlock_func = through_fsp unlock_func"

definition SyncGuardFunc_attach :: "'p \<Rightarrow> (unit, 'p, 's) guard_func_act" where
  "SyncGuardFunc_attach m gs = Done () ((fst gs)\<lparr>fsp := Some m\<rparr>, snd gs)"

definition SyncGuardFunc_detach :: "(unit, 'p, 's) guard_func_act" where
  "SyncGuardFunc_detach gs = Done () ((fst gs)\<lparr>fsp := None\<rparr>, snd gs)"

section \<open>What a guarded block does\<close>

lemma SyncGuard_ctor_run:
  "SyncGuard_ctor lk m s = (case lk m s of
     Done _ s' \<Rightarrow> Done \<lparr>sp = Some m\<rparr> s' | Thrown e s' \<Rightarrow> Thrown e s' | Waits s' \<Rightarrow> Waits s' | Crash e \<Rightarrow> Crash e)"
  by (simp add: SyncGuard_ctor_def seqR_def)

lemma with_guard_not_locked:
  "lk m s = Thrown e s' \<Longrightarrow> with_guard lk ul m body s = Thrown e s'"
  "lk m s = Waits s' \<Longrightarrow> with_guard lk ul m body s = Waits s'"
  "lk m s = Crash c \<Longrightarrow> with_guard lk ul m body s = Crash c"
  by (simp_all add: with_guard_def SyncGuard_ctor_run)

lemma with_guard_plain:
  assumes "lk m s = Done u s1"
  shows "with_guard lk ul m (plain body) s = finallyR body (ul m) s1"
  using assms
  by (simp add: with_guard_def SyncGuard_ctor_run finallyR_def plain_def SyncGuard_dtor_def seqR_def split: run.splits)

lemma with_guard_detached:
  assumes "lk m s = Done u s1" and "body (\<lparr>sp = Some m\<rparr>, s1) = Thrown e (\<lparr>sp = None\<rparr>, s2)"
  shows "with_guard lk ul m body s = Thrown e s2"
  using assms by (simp add: with_guard_def SyncGuard_ctor_run finallyR_def SyncGuard_dtor_def)

lemma attach_and_lock_run:
  "SyncGuard_attach_and_lock lk m (g, s) = (case lk m s of
     Done u s' \<Rightarrow> Done u (g\<lparr>sp := Some m\<rparr>, s') | Thrown e s' \<Rightarrow> Thrown e (g\<lparr>sp := None\<rparr>, s')
   | Waits s' \<Rightarrow> Waits (g\<lparr>sp := Some m\<rparr>, s') | Crash e \<Rightarrow> Crash e)"
  by (simp add: SyncGuard_attach_and_lock_def SyncGuard_attach_def SyncGuard_detach_def SyncGuard_lock_def
      through_sp_def seqR_def catchR_def split: run.splits)

text \<open>The contract: a primitive \<open>m\<close> in a state where it is free for the caller can be locked, and one
  the caller holds can be unlocked and is free again.\<close>

locale lockable =
  fixes lk ul :: "'p \<Rightarrow> (unit, 's) act" and free held :: "'p \<Rightarrow> 's \<Rightarrow> bool"
  assumes lock_free: "free m s \<Longrightarrow> \<exists>s'. lk m s = Done () s' \<and> held m s'"
    and unlock_held: "held m s \<Longrightarrow> \<exists>s'. ul m s = Done () s' \<and> free m s'"
begin

text \<open>However the body ends, as long as it returns or throws with the primitive still held, the block
  ends the same way with the primitive free again.\<close>

lemma guarded_done:
  assumes "free m s"
    and "\<And>s1. lk m s = Done () s1 \<Longrightarrow> held m s1 \<Longrightarrow> \<exists>x s2. body s1 = Done x s2 \<and> held m s2 \<and> Q x s2"
  shows "\<exists>x s2 s3. with_guard lk ul m (plain body) s = Done x s3 \<and> free m s3 \<and> Q x s2 \<and> ul m s2 = Done () s3"
proof -
  obtain s1 where s1: "lk m s = Done () s1" "held m s1" using lock_free[OF assms(1)] by blast
  obtain x s2 where s2: "body s1 = Done x s2" "held m s2" "Q x s2" using assms(2)[OF s1] by blast
  obtain s3 where "ul m s2 = Done () s3" "free m s3" using unlock_held[OF s2(2)] by blast
  then show ?thesis using with_guard_plain[of lk m s "()" s1 ul body] s1(1) s2 by auto
qed

lemma guarded_thrown:
  assumes "free m s"
    and "\<And>s1. lk m s = Done () s1 \<Longrightarrow> held m s1 \<Longrightarrow> \<exists>s2. body s1 = Thrown e s2 \<and> held m s2"
  shows "\<exists>s3. with_guard lk ul m (plain body) s = Thrown e s3 \<and> free m s3"
proof -
  obtain s1 where s1: "lk m s = Done () s1" "held m s1" using lock_free[OF assms(1)] by blast
  obtain s2 where s2: "body s1 = Thrown e s2" "held m s2" using assms(2)[OF s1] by blast
  obtain s3 where "ul m s2 = Done () s3" "free m s3" using unlock_held[OF s2(2)] by blast
  then show ?thesis using with_guard_plain[of lk m s "()" s1 ul body] s1(1) s2 by auto
qed

text \<open>A guard that is attached and locked later is undone by its destructor; one whose lock failed
  is detached, so its destructor does nothing.\<close>

lemma attach_then_destroy:
  assumes "free m s"
  shows "\<exists>s1 s2. SyncGuard_attach_and_lock lk m (SyncGuard_default, s) = Done () (\<lparr>sp = Some m\<rparr>, s1)
    \<and> SyncGuard_dtor ul \<lparr>sp = Some m\<rparr> s1 = Done () s2 \<and> free m s2"
proof -
  obtain s1 where s1: "lk m s = Done () s1" "held m s1" using lock_free[OF assms] by blast
  obtain s2 where "ul m s1 = Done () s2" "free m s2" using unlock_held[OF s1(2)] by blast
  then show ?thesis using s1 by (auto simp: attach_and_lock_run SyncGuard_default_def SyncGuard_dtor_def)
qed

lemma failed_attach_is_harmless:
  assumes "lk m s = Thrown e s1"
  shows "SyncGuard_attach_and_lock lk m (g, s) = Thrown e (g\<lparr>sp := None\<rparr>, s1)
    \<and> SyncGuard_dtor ul (g\<lparr>sp := None\<rparr>) s1 = Done () s1"
  using assms by (simp add: attach_and_lock_run SyncGuard_dtor_def)

end

end
