(* ===== verification/L4_Pthreads.thy ===== *)
theory L4_Pthreads
  imports L4_Guards
begin

text \<open>
  The POSIX implementation of the synchronisation primitives of log4cplus,
  \<^verbatim>\<open>thread/impl/syncprims-pthreads.h\<close>. The kernel objects (mutexes, semaphores, condition variables,
  read-write locks) are cells of \<open>px_world\<close>, named by the address of the C object. Every call of the
  POSIX interface asks the parameter \<open>px_os\<close> for its result, which may depend on all calls made
  before; a call that succeeds has its documented effect and one that fails has none. What other
  threads do to an event while the caller is inside \<^verbatim>\<open>pthread_cond_wait\<close>, signals and resets, is a
  field of the parameter as well, \<open>None\<close> when the caller is never woken.
\<close>

section \<open>The POSIX interface\<close>

datatype Mutex_Type = DEFAULT | RECURSIVE

datatype pthread_mutex_type = PTHREAD_MUTEX_DEFAULT | PTHREAD_MUTEX_RECURSIVE

record pthread_mutex_t =
  mx_type :: pthread_mutex_type
  mx_owner :: "tid option"
  mx_depth :: nat

record pthread_rwlock_t =
  rw_readers :: "tid list"
  rw_writer :: "tid option"

text \<open>The fields of \<^verbatim>\<open>impl::ManualResetEvent\<close>; \<open>ev_mtx\<close> is the address of its mutex.\<close>

record px_event =
  ev_cv :: bool
  ev_mtx :: nat
  sigcount :: "32 word"
  signaled :: bool

datatype px_call =
    mutexattr_init_call | mutexattr_destroy_call | mutexattr_settype_call pthread_mutex_type
  | mutex_init_call nat | mutex_destroy_call nat | mutex_lock_call nat | mutex_unlock_call nat
  | sem_init_call nat nat | sem_open_call "nat \<times> nat" nat | sem_unlink_call "nat \<times> nat" | sem_close_call nat
  | sem_destroy_call nat | sem_wait_call nat | sem_post_call nat
  | cond_init_call nat | cond_destroy_call nat | cond_broadcast_call nat | cond_wait_call nat
  | cond_timedwait_call nat "int \<times> int"
  | rwlock_init_call nat | rwlock_destroy_call nat | rwlock_rdlock_call nat | rwlock_wrlock_call nat
  | rwlock_unlock_call nat | yield_call

record px_world =
  px_mutex :: "nat \<rightharpoonup> pthread_mutex_t"
  px_sem :: "nat \<rightharpoonup> nat"
  px_rwlock :: "nat \<rightharpoonup> pthread_rwlock_t"
  px_events :: "nat \<rightharpoonup> px_event"
  px_calls :: "px_call list"

text \<open>What \<^verbatim>\<open>signal\<close> and \<^verbatim>\<open>reset\<close> do to the fields of an event.\<close>

datatype ev_op = by_signal | by_reset

fun ev_apply :: "ev_op \<Rightarrow> px_event \<Rightarrow> px_event" where
  "ev_apply by_signal e = e\<lparr>signaled := True, sigcount := sigcount e + 1\<rparr>"
| "ev_apply by_reset e = e\<lparr>signaled := False\<rparr>"

record px_os =
  px_ret :: "px_call \<Rightarrow> px_call list \<Rightarrow> int"
  px_others :: "px_call list \<Rightarrow> ev_op list option"
  px_SEM_VALUE_MAX :: nat
  px_getpid :: nat
  px_gettimeofday :: "px_call list \<Rightarrow> int \<times> int"
  px_time_plus :: "int \<times> int \<Rightarrow> int \<times> int \<Rightarrow> int \<times> int"

abbreviation EPERM :: int where "EPERM \<equiv> 1"
abbreviation EAGAIN :: int where "EAGAIN \<equiv> 11"
abbreviation ETIMEDOUT :: int where "ETIMEDOUT \<equiv> 110"

text \<open>A call that the kernel answers at once: on success the effect, on failure nothing.\<close>

definition px_api :: "px_os \<Rightarrow> px_call \<Rightarrow> (px_world \<Rightarrow> px_world) \<Rightarrow> (int, px_world) act" where
  "px_api os c eff w = (let ret = px_ret os c (px_calls w); w' = w\<lparr>px_calls := px_calls w @ [c]\<rparr>
     in Done ret (if ret = 0 then eff w' else w'))"

text \<open>A call that may have to wait: on success the effect, when it applies now.\<close>

definition px_wait_api :: "px_os \<Rightarrow> px_call \<Rightarrow> (px_world \<Rightarrow> px_world option) \<Rightarrow> (int, px_world) act" where
  "px_wait_api os c eff w = (let ret = px_ret os c (px_calls w); w' = w\<lparr>px_calls := px_calls w @ [c]\<rparr>
     in if ret \<noteq> 0 then Done ret w' else (case eff w' of Some w'' \<Rightarrow> Done 0 w'' | None \<Rightarrow> Waits w'))"

definition pthread_mutex_init :: "px_os \<Rightarrow> nat \<Rightarrow> pthread_mutex_type \<Rightarrow> (int, px_world) act" where
  "pthread_mutex_init os a ty = px_api os (mutex_init_call a)
     (\<lambda>w. w\<lparr>px_mutex := (px_mutex w)(a \<mapsto> \<lparr>mx_type = ty, mx_owner = None, mx_depth = 0\<rparr>)\<rparr>)"

definition pthread_mutex_destroy :: "px_os \<Rightarrow> nat \<Rightarrow> (int, px_world) act" where
  "pthread_mutex_destroy os a = px_api os (mutex_destroy_call a) (\<lambda>w. w\<lparr>px_mutex := (px_mutex w)(a := None)\<rparr>)"

text \<open>Locking a mutex again: a recursive one counts, a default one deadlocks.\<close>

definition mutex_taken :: "tid \<Rightarrow> pthread_mutex_t \<Rightarrow> pthread_mutex_t option" where
  "mutex_taken t m = (if mx_owner m = None then Some (m\<lparr>mx_owner := Some t, mx_depth := 1\<rparr>)
     else if mx_owner m = Some t \<and> mx_type m = PTHREAD_MUTEX_RECURSIVE then Some (m\<lparr>mx_depth := Suc (mx_depth m)\<rparr>)
     else None)"

definition pthread_mutex_lock :: "px_os \<Rightarrow> tid \<Rightarrow> nat \<Rightarrow> (int, px_world) act" where
  "pthread_mutex_lock os t a w = (case px_mutex w a of
     None \<Rightarrow> Crash DanglingPtr
   | Some m \<Rightarrow> px_wait_api os (mutex_lock_call a)
       (\<lambda>w. map_option (\<lambda>m'. w\<lparr>px_mutex := (px_mutex w)(a \<mapsto> m')\<rparr>) (mutex_taken t m)) w)"

definition mutex_left :: "pthread_mutex_t \<Rightarrow> pthread_mutex_t" where
  "mutex_left m = (if mx_depth m \<le> 1 then m\<lparr>mx_owner := None, mx_depth := 0\<rparr> else m\<lparr>mx_depth := mx_depth m - 1\<rparr>)"

definition pthread_mutex_unlock :: "px_os \<Rightarrow> tid \<Rightarrow> nat \<Rightarrow> (int, px_world) act" where
  "pthread_mutex_unlock os t a w = (case px_mutex w a of
     None \<Rightarrow> Crash DanglingPtr
   | Some m \<Rightarrow>
       if mx_owner m = Some t
       then px_api os (mutex_unlock_call a) (\<lambda>w. w\<lparr>px_mutex := (px_mutex w)(a \<mapsto> mutex_left m)\<rparr>) w
       else if mx_type m = PTHREAD_MUTEX_RECURSIVE
       then Done EPERM (w\<lparr>px_calls := px_calls w @ [mutex_unlock_call a]\<rparr>)
       else Crash LockNotOwned)"

definition sem_init :: "px_os \<Rightarrow> nat \<Rightarrow> nat \<Rightarrow> (int, px_world) act" where
  "sem_init os a v = px_api os (sem_init_call a v) (\<lambda>w. w\<lparr>px_sem := (px_sem w)(a \<mapsto> v)\<rparr>)"

definition sem_open :: "px_os \<Rightarrow> nat \<times> nat \<Rightarrow> nat \<Rightarrow> nat \<Rightarrow> (int, px_world) act" where
  "sem_open os name a v = px_api os (sem_open_call name v) (\<lambda>w. w\<lparr>px_sem := (px_sem w)(a \<mapsto> v)\<rparr>)"

definition sem_unlink :: "px_os \<Rightarrow> nat \<times> nat \<Rightarrow> (int, px_world) act" where
  "sem_unlink os name = px_api os (sem_unlink_call name) id"

definition sem_close :: "px_os \<Rightarrow> nat \<Rightarrow> (int, px_world) act" where
  "sem_close os a = px_api os (sem_close_call a) (\<lambda>w. w\<lparr>px_sem := (px_sem w)(a := None)\<rparr>)"

definition sem_destroy :: "px_os \<Rightarrow> nat \<Rightarrow> (int, px_world) act" where
  "sem_destroy os a = px_api os (sem_destroy_call a) (\<lambda>w. w\<lparr>px_sem := (px_sem w)(a := None)\<rparr>)"

definition sem_wait :: "px_os \<Rightarrow> nat \<Rightarrow> (int, px_world) act" where
  "sem_wait os a w = (case px_sem w a of
     None \<Rightarrow> Crash DanglingPtr
   | Some v \<Rightarrow> px_wait_api os (sem_wait_call a)
       (\<lambda>w. if v = 0 then None else Some (w\<lparr>px_sem := (px_sem w)(a \<mapsto> v - 1)\<rparr>)) w)"

definition sem_post :: "px_os \<Rightarrow> nat \<Rightarrow> (int, px_world) act" where
  "sem_post os a w = (case px_sem w a of
     None \<Rightarrow> Crash DanglingPtr
   | Some v \<Rightarrow>
       if v < px_SEM_VALUE_MAX os
       then px_api os (sem_post_call a) (\<lambda>w. w\<lparr>px_sem := (px_sem w)(a \<mapsto> Suc v)\<rparr>) w
       else Done (-1) (w\<lparr>px_calls := px_calls w @ [sem_post_call a]\<rparr>))"

section \<open>Mutex\<close>

definition PthreadMutexAttr_ctor :: "px_os \<Rightarrow> (pthread_mutex_type, px_world) act" where
  "PthreadMutexAttr_ctor os =
     seqR (px_api os mutexattr_init_call id) (\<lambda>ret.
     seqR (throw_unless (ret = 0) ''PthreadMutexAttr::PthreadMutexAttr'') (\<lambda>_. Done PTHREAD_MUTEX_DEFAULT))"

definition PthreadMutexAttr_dtor :: "px_os \<Rightarrow> (unit, px_world) act" where
  "PthreadMutexAttr_dtor os = catchR
     (seqR (px_api os mutexattr_destroy_call id) (\<lambda>ret. throw_unless (ret = 0) ''PthreadMutexAttr::~PthreadMutexAttr''))
     (\<lambda>_. Done ())"

definition mutex_type_of :: "Mutex_Type \<Rightarrow> pthread_mutex_type" where
  "mutex_type_of t = (case t of RECURSIVE \<Rightarrow> PTHREAD_MUTEX_RECURSIVE | _ \<Rightarrow> PTHREAD_MUTEX_DEFAULT)"

definition set_type :: "px_os \<Rightarrow> Mutex_Type \<Rightarrow> (pthread_mutex_type, px_world) act" where
  "set_type os t =
     seqR (px_api os (mutexattr_settype_call (mutex_type_of t)) id) (\<lambda>ret.
     seqR (throw_unless (ret = 0) ''PthreadMutexAttr::set_type'') (\<lambda>_. Done (mutex_type_of t)))"

definition px_Mutex_ctor :: "px_os \<Rightarrow> Mutex_Type \<Rightarrow> nat \<Rightarrow> (unit, px_world) act" where
  "px_Mutex_ctor os t a =
     seqR (PthreadMutexAttr_ctor os) (\<lambda>_.
     finallyR
       (seqR (set_type os t) (\<lambda>attr.
        seqR (pthread_mutex_init os a attr) (\<lambda>ret. throw_unless (ret = 0) ''Mutex::Mutex'')))
       (PthreadMutexAttr_dtor os))"

definition px_Mutex_dtor :: "px_os \<Rightarrow> nat \<Rightarrow> (unit, px_world) act" where
  "px_Mutex_dtor os a = catchR
     (seqR (pthread_mutex_destroy os a) (\<lambda>ret. throw_unless (ret = 0) ''Mutex::~Mutex''))
     (\<lambda>_. Done ())"

definition px_Mutex_lock :: "px_os \<Rightarrow> tid \<Rightarrow> nat \<Rightarrow> (unit, px_world) act" where
  "px_Mutex_lock os t a = seqR (pthread_mutex_lock os t a) (\<lambda>ret. throw_unless (ret = 0) ''Mutex::lock'')"

definition px_Mutex_unlock :: "px_os \<Rightarrow> tid \<Rightarrow> nat \<Rightarrow> (unit, px_world) act" where
  "px_Mutex_unlock os t a = seqR (pthread_mutex_unlock os t a) (\<lambda>ret. throw_unless (ret = 0) ''Mutex::unlock'')"

section \<open>Semaphore\<close>

text \<open>\<open>named\<close> is the compile-time switch \<^verbatim>\<open>LOG4CPLUS_USE_NAMED_POSIX_SEMAPHORE\<close>.\<close>

definition px_Semaphore_lock :: "px_os \<Rightarrow> nat \<Rightarrow> (unit, px_world) act" where
  "px_Semaphore_lock os a = seqR (sem_wait os a) (\<lambda>ret. throw_unless (ret = 0) ''Semaphore::lock'')"

definition px_Semaphore_unlock :: "px_os \<Rightarrow> nat \<Rightarrow> (unit, px_world) act" where
  "px_Semaphore_unlock os a = seqR (sem_post os a) (\<lambda>ret. throw_unless (ret = 0) ''Semaphore::unlock'')"

definition sem_release :: "bool \<Rightarrow> px_os \<Rightarrow> nat \<Rightarrow> (int, px_world) act" where
  "sem_release named os a = (if named then sem_close os a else sem_destroy os a)"

fun px_lock_times :: "px_os \<Rightarrow> nat \<Rightarrow> nat \<Rightarrow> (unit, px_world) act" where
  "px_lock_times os a 0 = Done ()"
| "px_lock_times os a (Suc n) = seqR (px_Semaphore_lock os a) (\<lambda>_. px_lock_times os a n)"

definition px_sem_create :: "bool \<Rightarrow> px_os \<Rightarrow> nat \<Rightarrow> nat \<Rightarrow> (unit, px_world) act" where
  "px_sem_create named os a limited_max =
     (if named then
        let name = (px_getpid os, a) in
        seqR (sem_open os name a limited_max) (\<lambda>ret.
        seqR (throw_unless (ret = 0) ''Semaphore::Semaphore'') (\<lambda>_.
        catchR
          (seqR (sem_unlink os name) (\<lambda>ret. throw_unless (ret = 0) ''Semaphore::Semaphore''))
          (\<lambda>e. seqR (sem_close os a) (\<lambda>ret.
             seqR (throw_unless (ret = 0) ''Semaphore::~Semaphore'') (\<lambda>_. Thrown e)))))
      else
        seqR (sem_init os a limited_max) (\<lambda>ret. throw_unless (ret = 0) ''Semaphore::Semaphore''))"

definition px_Semaphore_ctor :: "bool \<Rightarrow> px_os \<Rightarrow> 32 word \<Rightarrow> 32 word \<Rightarrow> nat \<Rightarrow> (unit, px_world) act" where
  "px_Semaphore_ctor named os mx initial a =
     (let limited_max = min (unat mx) (px_SEM_VALUE_MAX os);
          limited_initial = min (unat initial) limited_max in
      seqR (px_sem_create named os a limited_max) (\<lambda>_.
      catchR (px_lock_times os a (limited_max - limited_initial))
        (\<lambda>e. seqR (sem_release named os a) (\<lambda>ret.
           seqR (throw_unless (ret = 0) ''Semaphore::~Semaphore'') (\<lambda>_. Thrown e)))))"

definition px_Semaphore_dtor :: "bool \<Rightarrow> px_os \<Rightarrow> nat \<Rightarrow> (unit, px_world) act" where
  "px_Semaphore_dtor named os a = catchR
     (seqR (sem_release named os a) (\<lambda>ret. throw_unless (ret = 0) ''Semaphore::~Semaphore''))
     (\<lambda>_. Done ())"

section \<open>FairMutex\<close>

definition px_FairMutex_ctor :: "bool \<Rightarrow> px_os \<Rightarrow> nat \<Rightarrow> (unit, px_world) act" where
  "px_FairMutex_ctor named os sem = px_Semaphore_ctor named os 1 1 sem"

definition px_FairMutex_dtor :: "bool \<Rightarrow> px_os \<Rightarrow> nat \<Rightarrow> (unit, px_world) act" where
  "px_FairMutex_dtor named os sem = px_Semaphore_dtor named os sem"

definition px_FairMutex_lock :: "px_os \<Rightarrow> nat \<Rightarrow> (unit, px_world) act" where
  "px_FairMutex_lock os sem = px_Semaphore_lock os sem"

definition px_FairMutex_unlock :: "px_os \<Rightarrow> nat \<Rightarrow> (unit, px_world) act" where
  "px_FairMutex_unlock os sem = px_Semaphore_unlock os sem"

section \<open>ManualResetEvent\<close>

text \<open>When the condition variable cannot be made, the constructed mutex member is destroyed again.\<close>

definition px_ManualResetEvent_ctor :: "px_os \<Rightarrow> bool \<Rightarrow> nat \<Rightarrow> nat \<Rightarrow> (unit, px_world) act" where
  "px_ManualResetEvent_ctor os sig mtx a =
     seqR (px_Mutex_ctor os DEFAULT mtx) (\<lambda>_.
     catchR
       (seqR (px_api os (cond_init_call a)
           (\<lambda>w. w\<lparr>px_events := (px_events w)(a \<mapsto> \<lparr>ev_cv = True, ev_mtx = mtx, sigcount = 0, signaled = sig\<rparr>)\<rparr>)) (\<lambda>ret.
        throw_unless (ret = 0) ''ManualResetEvent::ManualResetEvent''))
       (\<lambda>e. seqR (px_Mutex_dtor os mtx) (\<lambda>_. Thrown e)))"

definition event_at :: "nat \<Rightarrow> (px_event \<Rightarrow> ('a, px_world) act) \<Rightarrow> ('a, px_world) act" where
  "event_at a f w = (case px_events w a of None \<Rightarrow> Crash DanglingPtr | Some e \<Rightarrow> f e w)"

definition set_event :: "nat \<Rightarrow> px_event \<Rightarrow> px_world \<Rightarrow> px_world" where
  "set_event a e w = w\<lparr>px_events := (px_events w)(a \<mapsto> e)\<rparr>"

definition px_ManualResetEvent_dtor :: "px_os \<Rightarrow> nat \<Rightarrow> (unit, px_world) act" where
  "px_ManualResetEvent_dtor os a = event_at a (\<lambda>e.
     seqR (catchR
       (seqR (px_api os (cond_destroy_call a) (\<lambda>w. w\<lparr>px_events := (px_events w)(a := None)\<rparr>)) (\<lambda>ret.
        throw_unless (ret = 0) ''ManualResetEvent::~ManualResetEvent''))
       (\<lambda>_. Done ()))
     (\<lambda>_. px_Mutex_dtor os (ev_mtx e)))"

definition px_ManualResetEvent_signal :: "px_os \<Rightarrow> tid \<Rightarrow> nat \<Rightarrow> (unit, px_world) act" where
  "px_ManualResetEvent_signal os t a = event_at a (\<lambda>e0.
     with_guard (px_Mutex_lock os t) (px_Mutex_unlock os t) (ev_mtx e0) (plain (
       event_at a (\<lambda>e.
       seqR (\<lambda>w. Done () (set_event a (e\<lparr>signaled := True, sigcount := sigcount e + 1\<rparr>) w)) (\<lambda>_.
       seqR (px_api os (cond_broadcast_call a) id) (\<lambda>ret.
       throw_unless (ret = 0) ''ManualResetEVent::signal''))))))"

text \<open>\<^verbatim>\<open>pthread_cond_wait\<close> gives the mutex up, waits, and has it again when it returns; in between
  other threads change the event.\<close>

definition pthread_cond_wait :: "px_os \<Rightarrow> px_call \<Rightarrow> nat \<Rightarrow> (int, px_world) act" where
  "pthread_cond_wait os c a = event_at a (\<lambda>e w.
     let ret = px_ret os c (px_calls w); w' = w\<lparr>px_calls := px_calls w @ [c]\<rparr> in
     if ret \<noteq> 0 \<and> ret \<noteq> ETIMEDOUT then Done ret w'
     else (case px_others os (px_calls w) of
       None \<Rightarrow> if ret = 0 then Waits (w'\<lparr>px_mutex := (px_mutex w')(ev_mtx e := map_option mutex_left (px_mutex w' (ev_mtx e)))\<rparr>)
               else Done ret w'
     | Some ops \<Rightarrow> Done ret (set_event a (fold ev_apply ops e) w')))"

definition unguard_and_throw :: "px_os \<Rightarrow> tid \<Rightarrow> string \<Rightarrow> ('a, nat, px_world) guard_act" where
  "unguard_and_throw os t msg =
     seqR (SyncGuard_unlock (px_Mutex_unlock os t)) (\<lambda>_. seqR SyncGuard_detach (\<lambda>_. Thrown msg))"

fun wait_loop :: "nat \<Rightarrow> px_os \<Rightarrow> tid \<Rightarrow> nat \<Rightarrow> 32 word \<Rightarrow> (unit, nat, px_world) guard_act" where
  "wait_loop 0 os t a prev_count = (\<lambda>_. Crash OutOfFuel)"
| "wait_loop (Suc n) os t a prev_count =
     seqR (plain (pthread_cond_wait os (cond_wait_call a) a)) (\<lambda>ret.
     if ret \<noteq> 0 then unguard_and_throw os t ''ManualResetEvent::wait''
     else seqR (plain (event_at a Done)) (\<lambda>e.
          if prev_count = sigcount e then wait_loop n os t a prev_count else Done ()))"

definition px_ManualResetEvent_wait :: "nat \<Rightarrow> px_os \<Rightarrow> tid \<Rightarrow> nat \<Rightarrow> (unit, px_world) act" where
  "px_ManualResetEvent_wait fuel os t a = event_at a (\<lambda>e0.
     with_guard (px_Mutex_lock os t) (px_Mutex_unlock os t) (ev_mtx e0) (
       seqR (plain (event_at a Done)) (\<lambda>e.
       if \<not> signaled e then wait_loop fuel os t a (sigcount e) else Done ())))"

fun timed_wait_loop :: "nat \<Rightarrow> px_os \<Rightarrow> tid \<Rightarrow> nat \<Rightarrow> int \<times> int \<Rightarrow> 32 word \<Rightarrow> (bool, nat, px_world) guard_act" where
  "timed_wait_loop 0 os t a ts prev_count = (\<lambda>_. Crash OutOfFuel)"
| "timed_wait_loop (Suc n) os t a ts prev_count =
     seqR (plain (pthread_cond_wait os (cond_timedwait_call a ts) a)) (\<lambda>ret.
     if ret = 0 then
       seqR (plain (event_at a Done)) (\<lambda>e.
       if prev_count = sigcount e then timed_wait_loop n os t a ts prev_count else Done True)
     else if ret = ETIMEDOUT then Done False
     else unguard_and_throw os t ''ManualResetEvent::timed_wait'')"

definition px_ManualResetEvent_timed_wait :: "nat \<Rightarrow> px_os \<Rightarrow> tid \<Rightarrow> int \<Rightarrow> nat \<Rightarrow> (bool, px_world) act" where
  "px_ManualResetEvent_timed_wait fuel os t msec a = event_at a (\<lambda>e0.
     with_guard (px_Mutex_lock os t) (px_Mutex_unlock os t) (ev_mtx e0) (
       seqR (plain (event_at a Done)) (\<lambda>e.
       if \<not> signaled e then
         (\<lambda>gs. let wakeup_time = px_time_plus os (px_gettimeofday os (px_calls (snd gs))) (msec div 1000, (msec mod 1000) * 1000);
                   ts = (fst wakeup_time, snd wakeup_time * 1000)
               in timed_wait_loop fuel os t a ts (sigcount e) gs)
       else Done True)))"

definition px_ManualResetEvent_reset :: "px_os \<Rightarrow> tid \<Rightarrow> nat \<Rightarrow> (unit, px_world) act" where
  "px_ManualResetEvent_reset os t a = event_at a (\<lambda>e0.
     with_guard (px_Mutex_lock os t) (px_Mutex_unlock os t) (ev_mtx e0) (plain (
       event_at a (\<lambda>e w. Done () (set_event a (e\<lparr>signaled := False\<rparr>) w)))))"

section \<open>SharedMutex over a read-write lock\<close>

definition px_SharedMutex_ctor :: "px_os \<Rightarrow> nat \<Rightarrow> (unit, px_world) act" where
  "px_SharedMutex_ctor os a =
     seqR (px_api os (rwlock_init_call a)
       (\<lambda>w. w\<lparr>px_rwlock := (px_rwlock w)(a \<mapsto> \<lparr>rw_readers = [], rw_writer = None\<rparr>)\<rparr>)) (\<lambda>ret.
     throw_unless (ret = 0) ''SharedMutex::SharedMutex'')"

definition px_SharedMutex_dtor :: "px_os \<Rightarrow> nat \<Rightarrow> (unit, px_world) act" where
  "px_SharedMutex_dtor os a = catchR
     (seqR (px_api os (rwlock_destroy_call a) (\<lambda>w. w\<lparr>px_rwlock := (px_rwlock w)(a := None)\<rparr>)) (\<lambda>ret.
      throw_unless (ret = 0) ''SharedMutex::~SharedMutex''))
     (\<lambda>_. Done ())"

definition rwlock_at :: "nat \<Rightarrow> (pthread_rwlock_t \<Rightarrow> ('a, px_world) act) \<Rightarrow> ('a, px_world) act" where
  "rwlock_at a f w = (case px_rwlock w a of None \<Rightarrow> Crash DanglingPtr | Some l \<Rightarrow> f l w)"

definition set_rwlock :: "nat \<Rightarrow> pthread_rwlock_t \<Rightarrow> px_world \<Rightarrow> px_world" where
  "set_rwlock a l w = w\<lparr>px_rwlock := (px_rwlock w)(a \<mapsto> l)\<rparr>"

definition pthread_rwlock_rdlock :: "px_os \<Rightarrow> tid \<Rightarrow> nat \<Rightarrow> (int, px_world) act" where
  "pthread_rwlock_rdlock os t a = rwlock_at a (\<lambda>l. px_wait_api os (rwlock_rdlock_call a)
     (\<lambda>w. if rw_writer l = None then Some (set_rwlock a (l\<lparr>rw_readers := t # rw_readers l\<rparr>) w) else None))"

definition pthread_rwlock_wrlock :: "px_os \<Rightarrow> tid \<Rightarrow> nat \<Rightarrow> (int, px_world) act" where
  "pthread_rwlock_wrlock os t a = rwlock_at a (\<lambda>l. px_wait_api os (rwlock_wrlock_call a)
     (\<lambda>w. if rw_writer l = None \<and> rw_readers l = [] then Some (set_rwlock a (l\<lparr>rw_writer := Some t\<rparr>) w) else None))"

definition pthread_rwlock_unlock :: "px_os \<Rightarrow> tid \<Rightarrow> nat \<Rightarrow> (int, px_world) act" where
  "pthread_rwlock_unlock os t a = rwlock_at a (\<lambda>l.
     if rw_writer l = Some t then px_api os (rwlock_unlock_call a) (set_rwlock a (l\<lparr>rw_writer := None\<rparr>))
     else if t \<in> set (rw_readers l) then px_api os (rwlock_unlock_call a) (set_rwlock a (l\<lparr>rw_readers := remove1 t (rw_readers l)\<rparr>))
     else (\<lambda>_. Crash LockNotOwned))"

text \<open>The loop of \<^verbatim>\<open>rdlock\<close> goes on as long as the kernel answers that there are too many readers.\<close>

fun px_SharedMutex_rdlock :: "nat \<Rightarrow> px_os \<Rightarrow> tid \<Rightarrow> nat \<Rightarrow> (unit, px_world) act" where
  "px_SharedMutex_rdlock 0 os t a = (\<lambda>_. Crash OutOfFuel)"
| "px_SharedMutex_rdlock (Suc n) os t a =
     seqR (pthread_rwlock_rdlock os t a) (\<lambda>ret.
     if ret = EAGAIN then seqR (px_api os yield_call id) (\<lambda>_. px_SharedMutex_rdlock n os t a)
     else throw_unless (ret = 0) ''SharedMutex::rdlock'')"

definition px_SharedMutex_unlock :: "px_os \<Rightarrow> tid \<Rightarrow> nat \<Rightarrow> (unit, px_world) act" where
  "px_SharedMutex_unlock os t a = seqR (pthread_rwlock_unlock os t a) (\<lambda>ret. throw_unless (ret = 0) ''SharedMutex::unlock'')"

definition px_SharedMutex_rdunlock :: "px_os \<Rightarrow> tid \<Rightarrow> nat \<Rightarrow> (unit, px_world) act" where
  "px_SharedMutex_rdunlock os t a = px_SharedMutex_unlock os t a"

definition px_SharedMutex_wrlock :: "px_os \<Rightarrow> tid \<Rightarrow> nat \<Rightarrow> (unit, px_world) act" where
  "px_SharedMutex_wrlock os t a = seqR (pthread_rwlock_wrlock os t a) (\<lambda>ret. throw_unless (ret = 0) ''SharedMutex::wrlock'')"

definition px_SharedMutex_wrunlock :: "px_os \<Rightarrow> tid \<Rightarrow> nat \<Rightarrow> (unit, px_world) act" where
  "px_SharedMutex_wrunlock os t a = px_SharedMutex_unlock os t a"

text \<open>A kernel on which every call succeeds.\<close>

definition calm_px :: px_os where
  "calm_px = \<lparr>px_ret = \<lambda>_ _. 0, px_others = \<lambda>_. None, px_SEM_VALUE_MAX = 2147483647, px_getpid = 1,
     px_gettimeofday = \<lambda>_. (0, 0), px_time_plus = \<lambda>a b. (fst a + fst b, snd a + snd b)\<rparr>"

definition px_world_new :: px_world where
  "px_world_new = \<lparr>px_mutex = Map.empty, px_sem = Map.empty, px_rwlock = Map.empty, px_events = Map.empty, px_calls = []\<rparr>"

section \<open>Primitives as lockable objects\<close>

abbreviation called :: "px_call \<Rightarrow> px_world \<Rightarrow> px_world" where
  "called c w \<equiv> w\<lparr>px_calls := px_calls w @ [c]\<rparr>"

lemma px_api_run:
  "px_api os c eff w = Done (px_ret os c (px_calls w)) (if px_ret os c (px_calls w) = 0 then eff (called c w) else called c w)"
  by (simp add: px_api_def Let_def)

lemma px_Mutex_lock_run:
  assumes "px_mutex w a = Some m"
  shows "px_Mutex_lock os t a w =
    (if px_ret os (mutex_lock_call a) (px_calls w) \<noteq> 0 then Thrown ''Mutex::lock'' (called (mutex_lock_call a) w)
     else case mutex_taken t m of
       Some m' \<Rightarrow> Done () ((called (mutex_lock_call a) w)\<lparr>px_mutex := (px_mutex w)(a \<mapsto> m')\<rparr>)
     | None \<Rightarrow> Waits (called (mutex_lock_call a) w))"
  using assms
  by (simp add: px_Mutex_lock_def pthread_mutex_lock_def px_wait_api_def Let_def seqR_def throw_unless_def split: option.splits)

lemma px_Mutex_unlock_run:
  assumes "px_mutex w a = Some m" "mx_owner m = Some t"
  shows "px_Mutex_unlock os t a w =
    (if px_ret os (mutex_unlock_call a) (px_calls w) \<noteq> 0 then Thrown ''Mutex::unlock'' (called (mutex_unlock_call a) w)
     else Done () ((called (mutex_unlock_call a) w)\<lparr>px_mutex := (px_mutex w)(a \<mapsto> mutex_left m)\<rparr>))"
  using assms by (simp add: px_Mutex_unlock_def pthread_mutex_unlock_def px_api_run seqR_def throw_unless_def)

lemma px_Semaphore_lock_run:
  assumes "px_sem w a = Some v"
  shows "px_Semaphore_lock os a w =
    (if px_ret os (sem_wait_call a) (px_calls w) \<noteq> 0 then Thrown ''Semaphore::lock'' (called (sem_wait_call a) w)
     else if v = 0 then Waits (called (sem_wait_call a) w)
     else Done () ((called (sem_wait_call a) w)\<lparr>px_sem := (px_sem w)(a \<mapsto> v - 1)\<rparr>))"
  using assms by (simp add: px_Semaphore_lock_def sem_wait_def px_wait_api_def Let_def seqR_def)

lemma px_Semaphore_unlock_run:
  assumes "px_sem w a = Some v"
  shows "px_Semaphore_unlock os a w =
    (if px_SEM_VALUE_MAX os \<le> v \<or> px_ret os (sem_post_call a) (px_calls w) \<noteq> 0
     then Thrown ''Semaphore::unlock'' (called (sem_post_call a) w)
     else Done () ((called (sem_post_call a) w)\<lparr>px_sem := (px_sem w)(a \<mapsto> Suc v)\<rparr>))"
  using assms by (simp add: px_Semaphore_unlock_def sem_post_def px_api_run seqR_def throw_unless_def)

definition px_mutex_free :: "tid \<Rightarrow> nat \<Rightarrow> px_world \<Rightarrow> bool" where
  "px_mutex_free t a w = (\<exists>m. px_mutex w a = Some m \<and> mutex_taken t m \<noteq> None \<and> (mx_owner m = None \<or> 0 < mx_depth m))"

definition px_mutex_held :: "tid \<Rightarrow> nat \<Rightarrow> px_world \<Rightarrow> bool" where
  "px_mutex_held t a w = (\<exists>m. px_mutex w a = Some m \<and> mx_owner m = Some t \<and> 0 < mx_depth m
     \<and> (mx_type m = PTHREAD_MUTEX_RECURSIVE \<or> mx_depth m = 1))"

interpretation px_mutex_lk: lockable "px_Mutex_lock calm_px t" "px_Mutex_unlock calm_px t" "px_mutex_free t" "px_mutex_held t" for t
proof
  fix a w assume "px_mutex_free t a w"
  then obtain m m' where m: "px_mutex w a = Some m" "mutex_taken t m = Some m'" "mx_owner m = None \<or> 0 < mx_depth m"
    by (auto simp: px_mutex_free_def)
  then have "px_mutex_held t a ((called (mutex_lock_call a) w)\<lparr>px_mutex := (px_mutex w)(a \<mapsto> m')\<rparr>)"
    by (auto simp: px_mutex_held_def mutex_taken_def split: if_splits)
  with m show "\<exists>w'. px_Mutex_lock calm_px t a w = Done () w' \<and> px_mutex_held t a w'"
    by (simp add: px_Mutex_lock_run calm_px_def)
next
  fix a w assume "px_mutex_held t a w"
  then obtain m where m: "px_mutex w a = Some m" "mx_owner m = Some t" "0 < mx_depth m"
    "mx_type m = PTHREAD_MUTEX_RECURSIVE \<or> mx_depth m = 1" by (auto simp: px_mutex_held_def)
  then have "px_mutex_free t a ((called (mutex_unlock_call a) w)\<lparr>px_mutex := (px_mutex w)(a \<mapsto> mutex_left m)\<rparr>)"
    by (auto simp: px_mutex_free_def mutex_taken_def mutex_left_def)
  with m show "\<exists>w'. px_Mutex_unlock calm_px t a w = Done () w' \<and> px_mutex_free t a w'"
    by (simp add: px_Mutex_unlock_run calm_px_def)
qed

definition px_sem_free :: "nat \<Rightarrow> px_world \<Rightarrow> bool" where
  "px_sem_free a w = (\<exists>v. px_sem w a = Some v \<and> 0 < v \<and> v \<le> px_SEM_VALUE_MAX calm_px)"

definition px_sem_held :: "nat \<Rightarrow> px_world \<Rightarrow> bool" where
  "px_sem_held a w = (\<exists>v. px_sem w a = Some v \<and> v < px_SEM_VALUE_MAX calm_px)"

interpretation px_sem_lk: lockable "px_Semaphore_lock calm_px" "px_Semaphore_unlock calm_px" px_sem_free px_sem_held
proof
  fix a w assume "px_sem_free a w"
  then show "\<exists>w'. px_Semaphore_lock calm_px a w = Done () w' \<and> px_sem_held a w'"
    by (auto simp: px_sem_free_def px_sem_held_def px_Semaphore_lock_run calm_px_def)
next
  fix a w assume "px_sem_held a w"
  then show "\<exists>w'. px_Semaphore_unlock calm_px a w = Done () w' \<and> px_sem_free a w'"
    by (auto simp: px_sem_free_def px_sem_held_def px_Semaphore_unlock_run calm_px_def)
qed

interpretation px_fair_lk: lockable "px_FairMutex_lock calm_px" "px_FairMutex_unlock calm_px" px_sem_free px_sem_held
  using px_sem_lk.lockable_axioms by (simp add: lockable_def px_FairMutex_lock_def px_FairMutex_unlock_def)

section \<open>Making a semaphore\<close>

lemma px_lock_times_run:
  assumes "px_sem w a = Some v" "n \<le> v"
  shows "(\<exists>w'. px_lock_times os a n w = Done () w' \<and> px_sem w' a = Some (v - n))
    \<or> (\<exists>w' v'. px_lock_times os a n w = Thrown ''Semaphore::lock'' w' \<and> px_sem w' a = Some v')"
  using assms
proof (induction n arbitrary: w v)
  case (Suc n)
  show ?case
  proof (cases "px_ret os (sem_wait_call a) (px_calls w) = 0")
    case True
    with Suc.prems have l: "px_Semaphore_lock os a w = Done () ((called (sem_wait_call a) w)\<lparr>px_sem := (px_sem w)(a \<mapsto> v - 1)\<rparr>)"
      (is "_ = Done () ?w") by (simp add: px_Semaphore_lock_run)
    have v: "v - Suc 0 - n = v - Suc n" by simp
    have "px_sem ?w a = Some (v - 1)" "n \<le> v - 1" using Suc.prems by auto
    from Suc.IH[OF this] l v show ?thesis by auto
  next
    case False
    with Suc.prems show ?thesis by (auto simp: px_Semaphore_lock_run)
  qed
qed auto

lemma px_sem_create_run:
  "(\<exists>w'. px_sem_create named os a v w = Done () w' \<and> px_sem w' a = Some v)
   \<or> (\<exists>w'. px_sem_create named os a v w = Thrown ''Semaphore::Semaphore'' w' \<and> (px_sem w' a = None \<or> px_sem w' a = px_sem w a))
   \<or> (\<exists>w'. px_sem_create named os a v w = Thrown ''Semaphore::~Semaphore'' w' \<and> named)"
  by (auto simp: px_sem_create_def Let_def sem_open_def sem_init_def sem_unlink_def sem_close_def seqR_def catchR_def
      px_api_run throw_unless_def split: if_splits)

lemma sem_release_then_throw:
  "\<exists>e' w'. seqR (sem_release named os a) (\<lambda>ret. seqR (throw_unless (ret = 0) ''Semaphore::~Semaphore'') (\<lambda>_. Thrown e)) w
     = Thrown e' w' \<and> (e' = ''Semaphore::~Semaphore'' \<or> px_sem w' a = None)"
  by (cases "px_ret os (if named then sem_close_call a else sem_destroy_call a) (px_calls w) = 0")
    (auto simp: sem_release_def sem_close_def sem_destroy_def seqR_def px_api_run)

lemma px_Semaphore_ctor_run:
  fixes mx initial :: "32 word" and os :: px_os
  defines "cap \<equiv> min (unat mx) (px_SEM_VALUE_MAX os)"
  shows "(\<exists>w'. px_Semaphore_ctor named os mx initial a w = Done () w' \<and> px_sem w' a = Some (min (unat initial) cap))
    \<or> (\<exists>w' e. px_Semaphore_ctor named os mx initial a w = Thrown e w'
        \<and> (e = ''Semaphore::~Semaphore'' \<or> px_sem w' a = None \<or> px_sem w' a = px_sem w a))"
proof -
  let ?n = "cap - min (unat initial) cap"
  have ctor: "px_Semaphore_ctor named os mx initial a = seqR (px_sem_create named os a cap) (\<lambda>_.
      catchR (px_lock_times os a ?n) (\<lambda>e. seqR (sem_release named os a) (\<lambda>ret.
        seqR (throw_unless (ret = 0) ''Semaphore::~Semaphore'') (\<lambda>_. Thrown e))))"
    by (simp add: px_Semaphore_ctor_def cap_def Let_def)
  consider (made) w1 where "px_sem_create named os a cap w = Done () w1" "px_sem w1 a = Some cap"
    | (failed) e w1 where "px_sem_create named os a cap w = Thrown e w1"
        "e = ''Semaphore::~Semaphore'' \<or> px_sem w1 a = None \<or> px_sem w1 a = px_sem w a"
    using px_sem_create_run[of named os a cap w] by fastforce
  then show ?thesis
  proof cases
    case made
    have "cap - ?n = min (unat initial) cap" by simp
    with px_lock_times_run[OF made(2), of ?n os] consider
        (locked) w2 where "px_lock_times os a ?n w1 = Done () w2" "px_sem w2 a = Some (min (unat initial) cap)"
      | (thrown) w2 where "px_lock_times os a ?n w1 = Thrown ''Semaphore::lock'' w2"
      by auto
    then show ?thesis
    proof cases
      case thrown
      with made(1) sem_release_then_throw[of named os a "''Semaphore::lock''" w2] show ?thesis by (auto simp: ctor)
    qed (simp add: ctor made(1))
  qed (simp add: ctor)
qed

section \<open>Events\<close>

text \<open>The mutex of an event can always be taken and given woken; every other call may fail.\<close>

definition event_kernel :: "px_os \<Rightarrow> nat \<Rightarrow> bool" where
  "event_kernel os m = (\<forall>cs. px_ret os (mutex_lock_call m) cs = 0 \<and> px_ret os (mutex_unlock_call m) cs = 0)"

definition event_idle :: "nat \<Rightarrow> nat \<Rightarrow> px_world \<Rightarrow> bool" where
  "event_idle a m w = (\<exists>e x. px_events w a = Some e \<and> ev_mtx e = m \<and> px_mutex w m = Some x \<and> mx_owner x = None)"

definition event_locked :: "tid \<Rightarrow> nat \<Rightarrow> nat \<Rightarrow> px_world \<Rightarrow> bool" where
  "event_locked t a m w = (\<exists>e x. px_events w a = Some e \<and> ev_mtx e = m \<and> px_mutex w m = Some x
     \<and> mx_owner x = Some t \<and> mx_depth x = 1)"

lemma event_idle_lock:
  assumes "event_kernel os m" "event_idle a m w"
  shows "\<exists>w1. px_Mutex_lock os t m w = Done () w1 \<and> event_locked t a m w1
    \<and> px_events w1 = px_events w \<and> px_calls w1 = px_calls w @ [mutex_lock_call m]"
  using assms by (auto simp: event_idle_def event_kernel_def event_locked_def px_Mutex_lock_run mutex_taken_def)

lemma event_locked_unlock:
  assumes "event_kernel os m" "event_locked t a m w"
  shows "\<exists>w1. px_Mutex_unlock os t m w = Done () w1 \<and> event_idle a m w1 \<and> px_events w1 = px_events w"
  using assms by (auto simp: event_idle_def event_kernel_def event_locked_def px_Mutex_unlock_run mutex_left_def)

lemma event_locked_called [simp]: "event_locked t a m (called c w) = event_locked t a m w"
  by (simp add: event_locked_def)

lemma event_locked_set [simp]:
  "event_locked t a m w \<Longrightarrow> ev_mtx e = m \<Longrightarrow> event_locked t a m (set_event a e w)"
  by (auto simp: event_locked_def set_event_def)

lemma event_idle_called [simp]: "event_idle a m (called c w) = event_idle a m w"
  by (simp add: event_idle_def)

lemma ev_apply_mtx [simp]: "ev_mtx (ev_apply x e) = ev_mtx e"
  by (cases x) auto

lemma ev_applies_mtx [simp]: "ev_mtx (fold ev_apply xs e) = ev_mtx e"
  by (induction xs arbitrary: e) auto

lemma ev_applies_sigcount: "sigcount (fold ev_apply xs e) = sigcount e + of_nat (count_list xs by_signal)"
proof (induction xs arbitrary: e)
  case (Cons x xs)
  then show ?case by (cases x) simp_all
qed simp

lemma cond_wait_cases:
  assumes "event_locked t a m w"
  shows "(\<exists>ret w1. pthread_cond_wait os c a w = Done ret w1 \<and> event_locked t a m w1)
    \<or> (\<exists>w1. pthread_cond_wait os c a w = Waits w1 \<and> event_idle a m w1)"
proof -
  obtain e x where e: "px_events w a = Some e" "ev_mtx e = m" "px_mutex w m = Some x" "mx_owner x = Some t" "mx_depth x = 1"
    using assms by (auto simp: event_locked_def)
  have "event_locked t a m (set_event a (fold ev_apply ops e) (called c w))" for ops
    using assms e by simp
  moreover have "event_idle a m ((called c w)\<lparr>px_mutex := (px_mutex (called c w))(m := Some (mutex_left x))\<rparr>)"
    using e by (simp add: event_idle_def mutex_left_def)
  ultimately show ?thesis
    using e assms by (simp add: pthread_cond_wait_def event_at_def Let_def split: option.splits)
qed

text \<open>How a guarded wait can end: normally with the mutex held for the guard to release, by an
  exception with the mutex released and the guard detached, or waiting with the mutex released.\<close>

definition wait_end :: "tid \<Rightarrow> nat \<Rightarrow> nat \<Rightarrow> ('b, nat SyncGuard \<times> px_world) run \<Rightarrow> bool" where
  "wait_end t a m r = (case r of
     Done _ (g, w) \<Rightarrow> g = \<lparr>sp = Some m\<rparr> \<and> event_locked t a m w
   | Thrown _ (g, w) \<Rightarrow> g = \<lparr>sp = None\<rparr> \<and> event_idle a m w
   | Waits (g, w) \<Rightarrow> event_idle a m w
   | Crash e \<Rightarrow> e = OutOfFuel)"

lemma wait_end_simps [simp]:
  "wait_end t a m (Done x (g, w)) = (g = \<lparr>sp = Some m\<rparr> \<and> event_locked t a m w)"
  "wait_end t a m (Waits (g, w)) = event_idle a m w"
  "wait_end t a m (Crash e) = (e = OutOfFuel)"
  by (simp_all add: wait_end_def)

lemma unguard_and_throw_end:
  assumes "event_kernel os m" "event_locked t a m w"
  shows "wait_end t a m (unguard_and_throw os t msg (\<lparr>sp = Some m\<rparr>, w))"
  using event_locked_unlock[OF assms]
  by (auto simp: wait_end_def unguard_and_throw_def SyncGuard_unlock_def SyncGuard_detach_def through_sp_def seqR_def)

lemma plain_Done: "m w = Done x w' \<Longrightarrow> plain m (g, w) = Done x (g, w')"
  by (simp add: plain_def)

lemma plain_Waits: "m w = Waits w' \<Longrightarrow> plain m (g, w) = Waits (g, w')"
  by (simp add: plain_def)

lemma event_at_Done:
  "event_locked t a m w \<Longrightarrow> \<exists>e. px_events w a = Some e \<and> event_at a Done w = Done e w"
  by (auto simp: event_locked_def event_at_def)

lemma wait_loop_end:
  assumes "event_kernel os m" "event_locked t a m w"
  shows "wait_end t a m (wait_loop n os t a prev (\<lparr>sp = Some m\<rparr>, w))"
  using assms(2)
proof (induction n arbitrary: w)
  case (Suc n)
  consider (woken) ret w1 where "pthread_cond_wait os (cond_wait_call a) a w = Done ret w1" "event_locked t a m w1"
    | (waits) w1 where "pthread_cond_wait os (cond_wait_call a) a w = Waits w1" "event_idle a m w1"
    using cond_wait_cases[OF Suc.prems, of os "cond_wait_call a"] by blast
  then show ?case
  proof cases
    case woken
    obtain e where "event_at a Done w1 = Done e w1" using event_at_Done[OF woken(2)] by blast
    with woken Suc.IH[OF woken(2)] unguard_and_throw_end[OF assms(1) woken(2)] show ?thesis
      by (auto simp: plain_Done)
  next
    case waits
    then show ?thesis by (simp add: plain_Waits)
  qed
qed simp

lemma timed_wait_loop_end:
  assumes "event_kernel os m" "event_locked t a m w"
  shows "wait_end t a m (timed_wait_loop n os t a ts prev (\<lparr>sp = Some m\<rparr>, w))"
  using assms(2)
proof (induction n arbitrary: w)
  case (Suc n)
  consider (woken) ret w1 where "pthread_cond_wait os (cond_timedwait_call a ts) a w = Done ret w1" "event_locked t a m w1"
    | (waits) w1 where "pthread_cond_wait os (cond_timedwait_call a ts) a w = Waits w1" "event_idle a m w1"
    using cond_wait_cases[OF Suc.prems, of os "cond_timedwait_call a ts"] by blast
  then show ?case
  proof cases
    case woken
    obtain e where "event_at a Done w1 = Done e w1" using event_at_Done[OF woken(2)] by blast
    with woken Suc.IH[OF woken(2)] unguard_and_throw_end[OF assms(1) woken(2)] show ?thesis
      by (auto simp: plain_Done)
  next
    case waits
    then show ?thesis by (simp add: plain_Waits)
  qed
qed simp

text \<open>The result of an operation that leaves the event as it should be left.\<close>

definition event_released :: "nat \<Rightarrow> nat \<Rightarrow> ('b, px_world) run \<Rightarrow> bool" where
  "event_released a m r = (case r of
     Done _ w \<Rightarrow> event_idle a m w | Thrown _ w \<Rightarrow> event_idle a m w
   | Waits w \<Rightarrow> event_idle a m w | Crash e \<Rightarrow> e = OutOfFuel)"

lemma with_guard_wait_end:
  assumes "event_kernel os m" "event_idle a m w"
    and "\<And>w1. event_locked t a m w1 \<Longrightarrow> wait_end t a m (body (\<lparr>sp = Some m\<rparr>, w1))"
  shows "event_released a m (with_guard (px_Mutex_lock os t) (px_Mutex_unlock os t) m body w)"
proof -
  obtain w1 where w1: "px_Mutex_lock os t m w = Done () w1" "event_locked t a m w1"
    using event_idle_lock[OF assms(1,2)] by blast
  have "\<exists>w3. px_Mutex_unlock os t m w2 = Done () w3 \<and> event_idle a m w3" if "event_locked t a m w2" for w2
    using event_locked_unlock[OF assms(1) that] by blast
  with assms(3)[OF w1(2)] w1(1) show ?thesis
    by (fastforce simp: with_guard_def SyncGuard_ctor_run finallyR_def SyncGuard_dtor_def seqR_def wait_end_def
        event_released_def split: run.splits prod.splits)
qed

lemma wait_released:
  assumes "event_kernel os m" "event_idle a m w"
  shows "event_released a m (px_ManualResetEvent_wait n os t a w)"
    and "event_released a m (px_ManualResetEvent_timed_wait n os t msec a w)"
proof -
  obtain e where e: "px_events w a = Some e" "ev_mtx e = m" using assms(2) by (auto simp: event_idle_def)
  show "event_released a m (px_ManualResetEvent_wait n os t a w)"
  proof -
    let ?body = "seqR (plain (event_at a Done)) (\<lambda>e. if \<not> signaled e then wait_loop n os t a (sigcount e) else Done ())"
    have "wait_end t a m (?body (\<lparr>sp = Some m\<rparr>, w1))" if "event_locked t a m w1" for w1
      using event_at_Done[OF that] wait_loop_end[OF assms(1) that] that by (auto simp: plain_Done)
    from with_guard_wait_end[OF assms, of t ?body, OF this] e show ?thesis by (simp add: px_ManualResetEvent_wait_def event_at_def)
  qed
  let ?body = "seqR (plain (event_at a Done)) (\<lambda>e.
       if \<not> signaled e then
         (\<lambda>gs. let wakeup_time = px_time_plus os (px_gettimeofday os (px_calls (snd gs))) (msec div 1000, (msec mod 1000) * 1000);
                   ts = (fst wakeup_time, snd wakeup_time * 1000)
               in timed_wait_loop n os t a ts (sigcount e) gs)
       else Done True)"
  have "wait_end t a m (?body (\<lparr>sp = Some m\<rparr>, w1))" if "event_locked t a m w1" for w1
    using event_at_Done[OF that] timed_wait_loop_end[OF assms(1) that] that by (auto simp: plain_Done Let_def)
  from with_guard_wait_end[OF assms, of t ?body, OF this] e show "event_released a m (px_ManualResetEvent_timed_wait n os t msec a w)"
    by (simp add: px_ManualResetEvent_timed_wait_def event_at_def)
qed

text \<open>The two updates an event gets from \<^verbatim>\<open>signal\<close> and \<^verbatim>\<open>reset\<close> are the interference of \<open>ev_op\<close>.\<close>

lemma signal_applies:
  assumes "event_kernel os m" "event_idle a m w" "px_events w a = Some e" "\<forall>cs. px_ret os (cond_broadcast_call a) cs = 0"
  shows "\<exists>w'. px_ManualResetEvent_signal os t a w = Done () w' \<and> event_idle a m w'
    \<and> px_events w' = (px_events w)(a \<mapsto> ev_apply by_signal e)"
proof -
  have m: "ev_mtx e = m" using assms(2,3) by (auto simp: event_idle_def)
  obtain w1 where w1: "px_Mutex_lock os t m w = Done () w1" "event_locked t a m w1" "px_events w1 = px_events w"
    using event_idle_lock[OF assms(1,2)] by blast
  let ?w2 = "called (cond_broadcast_call a) (set_event a (ev_apply by_signal e) w1)"
  have "event_locked t a m ?w2" using w1(2) m by simp
  then obtain w3 where w3: "px_Mutex_unlock os t m ?w2 = Done () w3" "event_idle a m w3" "px_events w3 = px_events ?w2"
    using event_locked_unlock[OF assms(1)] by blast
  have "with_guard (px_Mutex_lock os t) (px_Mutex_unlock os t) m (plain body) w = finallyR body (px_Mutex_unlock os t m) w1" for body :: "(unit, px_world) act"
    by (rule with_guard_plain[where u = "()"]) (rule w1(1))
  then have "px_ManualResetEvent_signal os t a w = Done () w3"
    using assms(3,4) w1 w3(1) m
    by (simp add: px_ManualResetEvent_signal_def event_at_def seqR_def finallyR_def px_api_run set_event_def)
  with w3 w1(3) show ?thesis by (simp add: set_event_def)
qed

text \<open>A waiter comes back at the first wake-up during which the event was signalled, even when it was
  reset again before the waiter ran; wake-ups without a signal are not noticed.\<close>

lemma wait_loop_wakes:
  assumes "event_locked t a m w" "px_events w a = Some e" "\<forall>cs. px_ret os (cond_wait_call a) cs = 0"
    and "\<forall>k < length opss. px_others os (px_calls w @ replicate k (cond_wait_call a)) = Some (opss ! k)"
    and "opss = quiet @ [ops]" "\<forall>xs\<in>set quiet. by_signal \<notin> set xs"
    and "by_signal \<in> set ops" "count_list ops by_signal < 2 ^ 32"
  shows "\<exists>w'. wait_loop (length opss) os t a (sigcount e) (g, w) = Done () (g, w') \<and> event_locked t a m w'"
  using assms
proof (induction quiet arbitrary: w e opss)
  case Nil
  let ?w1 = "set_event a (fold ev_apply ops e) (called (cond_wait_call a) w)"
  have pc: "pthread_cond_wait os (cond_wait_call a) a w = Done 0 ?w1"
    using Nil.prems by (simp add: pthread_cond_wait_def event_at_def Let_def)
  have n: "0 < count_list ops by_signal" using Nil.prems(7) count_list_0_iff[of ops by_signal] by simp
  have "of_nat (count_list ops by_signal) \<noteq> (0 :: 32 word)"
    using n Nil.prems(8) by (simp add: word_of_nat_eq_0_iff nat_dvd_not_less)
  then have "sigcount e \<noteq> sigcount (fold ev_apply ops e)" by (simp add: ev_applies_sigcount)
  moreover have "event_locked t a m ?w1" using Nil.prems(1,2) by (auto simp: event_locked_def set_event_def)
  ultimately show ?case using pc Nil.prems(5) by (simp add: plain_Done event_at_def set_event_def)
next
  case (Cons xs quiet)
  let ?w1 = "set_event a (fold ev_apply xs e) (called (cond_wait_call a) w)" and ?rest = "quiet @ [ops]"
  have o: "opss = xs # ?rest" using Cons.prems(5) by simp
  have "px_others os (px_calls w) = Some xs" using Cons.prems(4)[rule_format, of 0] o by simp
  then have pc: "pthread_cond_wait os (cond_wait_call a) a w = Done 0 ?w1"
    using Cons.prems(2,3) by (simp add: pthread_cond_wait_def event_at_def Let_def)
  have "count_list xs by_signal = 0" using Cons.prems(6) by (simp add: count_list_0_iff)
  then have s: "sigcount (fold ev_apply xs e) = sigcount e" by (simp add: ev_applies_sigcount)
  have "event_locked t a m ?w1" using Cons.prems(1,2) by (auto simp: event_locked_def set_event_def)
  moreover have "px_others os (px_calls ?w1 @ replicate k (cond_wait_call a)) = Some (?rest ! k)" if "k < length ?rest" for k
    using Cons.prems(4)[rule_format, of "Suc k"] that o by (simp add: set_event_def)
  ultimately obtain w' where "wait_loop (length ?rest) os t a (sigcount (fold ev_apply xs e)) (g, ?w1) = Done () (g, w')"
    "event_locked t a m w'"
    using Cons.IH[of ?w1 "fold ev_apply xs e" ?rest] Cons.prems(3,6-8) by (auto simp: set_event_def)
  with pc s o show ?case by (simp add: plain_Done event_at_def set_event_def)
qed

section \<open>Properties\<close>

text \<open>Making a POSIX semaphore always comes back, whatever the kernel answers: either with the value
  \<open>initial\<close>, limited by \<open>max\<close> and by the platform, or with an exception; then the half-made semaphore
  is gone again, unless releasing it failed too.\<close>

lemma semaphore_initial_value:
  "(\<exists>w'. px_Semaphore_ctor named os mx initial a w = Done () w'
     \<and> px_sem w' a = Some (min (unat initial) (min (unat mx) (px_SEM_VALUE_MAX os))))
   \<or> (\<exists>w' e. px_Semaphore_ctor named os mx initial a w = Thrown e w'
        \<and> (e = ''Semaphore::~Semaphore'' \<or> px_sem w' a = None \<or> px_sem w' a = px_sem w a))"
  by (rule px_Semaphore_ctor_run)



text \<open>Waiting on an event never leaves its mutex locked: when \<^verbatim>\<open>wait\<close> or \<^verbatim>\<open>timed_wait\<close> returns, times
  out, throws because the kernel refused the wait, or still waits, the mutex is free, and it is never
  unlocked twice.\<close>

lemma event_mutex_released:
  assumes "event_kernel os m" "event_idle a m w"
  shows "event_released a m (px_ManualResetEvent_wait n os t a w)
    \<and> event_released a m (px_ManualResetEvent_timed_wait n os t msec a w)"
  using wait_released[OF assms] by blast

end
