(* ===== verification/L4_Win32.thy ===== *)
theory L4_Win32
  imports L4_Pthreads
begin

text \<open>
  The Win32 implementation of the synchronisation primitives of log4cplus,
  \<^verbatim>\<open>thread/impl/syncprims-win32.h\<close>. Critical sections and slim read-write locks are named by their
  address, kernel objects by their handle. As for POSIX, every call asks a parameter for its result
  and has its documented effect when it succeeds; \<open>w_ret\<close> answers with the value the call returns,
  for the creating calls with whether a handle is returned. The last part compares the two
  implementations of a semaphore.
\<close>

section \<open>The Win32 interface\<close>

datatype w32_call =
    InitializeCriticalSection_call nat | CreateSemaphore_call int int | ReleaseSemaphore_call nat
  | CreateMutex_call | ReleaseMutex_call nat | CreateEvent_call bool | SetEvent_call nat | ResetEvent_call nat
  | CloseHandle_call nat | WaitForSingleObject_call32 nat int

record w32_sem =
  sem_value :: int
  sem_max :: int

record SRWLOCK =
  srw_readers :: nat
  srw_writer :: bool

record w32_world =
  w_cs :: "nat \<rightharpoonup> CRITICAL_SECTION"
  w_sem :: "nat \<rightharpoonup> w32_sem"
  w_mutex :: "nat \<rightharpoonup> CRITICAL_SECTION"
  w_event :: "nat \<rightharpoonup> bool"
  w_srw :: "nat \<rightharpoonup> SRWLOCK"
  w_next :: nat
  w_trace :: "w32_call list"

record w32_os =
  w_ret :: "w32_call \<Rightarrow> w32_call list \<Rightarrow> int"
  w_msvc :: bool

abbreviation INFINITE :: int where "INFINITE \<equiv> 4294967295"
abbreviation WAIT_OBJECT_0 :: int where "WAIT_OBJECT_0 \<equiv> 0"
abbreviation WAIT_ABANDONED :: int where "WAIT_ABANDONED \<equiv> 128"
abbreviation WAIT_TIMEOUT :: int where "WAIT_TIMEOUT \<equiv> 258"

abbreviation wcalled :: "w32_call \<Rightarrow> w32_world \<Rightarrow> w32_world" where
  "wcalled c w \<equiv> w\<lparr>w_trace := w_trace w @ [c]\<rparr>"

text \<open>A call with a \<^verbatim>\<open>BOOL\<close> result.\<close>

definition w32_bool :: "w32_os \<Rightarrow> w32_call \<Rightarrow> (w32_world \<Rightarrow> w32_world) \<Rightarrow> (bool, w32_world) act" where
  "w32_bool os c eff w = (if w_ret os c (w_trace w) = 0 then Done False (wcalled c w) else Done True (eff (wcalled c w)))"

text \<open>A call that makes an object: a new handle, or null.\<close>

definition w32_create :: "w32_os \<Rightarrow> w32_call \<Rightarrow> bool \<Rightarrow> (nat \<Rightarrow> w32_world \<Rightarrow> w32_world) \<Rightarrow> (nat option, w32_world) act" where
  "w32_create os c valid eff w =
     (if \<not> valid \<or> w_ret os c (w_trace w) = 0 then Done None (wcalled c w)
      else Done (Some (w_next w)) (eff (w_next w) ((wcalled c w)\<lparr>w_next := Suc (w_next w)\<rparr>)))"

text \<open>\<^verbatim>\<open>WaitForSingleObject\<close> on an object whose state satisfies \<open>ready\<close> when a wait can end.\<close>

definition w32_wait :: "w32_os \<Rightarrow> nat \<Rightarrow> int \<Rightarrow> bool \<Rightarrow> (w32_world \<Rightarrow> w32_world) \<Rightarrow> (int, w32_world) act" where
  "w32_wait os h ms ready eff w =
     (let c = WaitForSingleObject_call32 h ms; ret = w_ret os c (w_trace w) in
      if ret \<noteq> WAIT_OBJECT_0 \<and> ret \<noteq> WAIT_ABANDONED then Done ret (wcalled c w)
      else if ready then Done ret (eff (wcalled c w))
      else if ms = INFINITE then Waits (wcalled c w)
      else Done WAIT_TIMEOUT (wcalled c w))"

definition CreateSemaphore :: "w32_os \<Rightarrow> int \<Rightarrow> int \<Rightarrow> (nat option, w32_world) act" where
  "CreateSemaphore os initial mx = w32_create os (CreateSemaphore_call initial mx) (0 \<le> initial \<and> initial \<le> mx \<and> 0 < mx)
     (\<lambda>h w. w\<lparr>w_sem := (w_sem w)(h \<mapsto> \<lparr>sem_value = initial, sem_max = mx\<rparr>)\<rparr>)"

definition w32_sem_at :: "nat \<Rightarrow> (w32_sem \<Rightarrow> ('a, w32_world) act) \<Rightarrow> ('a, w32_world) act" where
  "w32_sem_at h f w = (case w_sem w h of None \<Rightarrow> Crash DanglingPtr | Some s \<Rightarrow> f s w)"

definition ReleaseSemaphore :: "w32_os \<Rightarrow> nat \<Rightarrow> (bool, w32_world) act" where
  "ReleaseSemaphore os h = w32_sem_at h (\<lambda>s.
     if sem_value s < sem_max s
     then w32_bool os (ReleaseSemaphore_call h) (\<lambda>w. w\<lparr>w_sem := (w_sem w)(h \<mapsto> s\<lparr>sem_value := sem_value s + 1\<rparr>)\<rparr>)
     else (\<lambda>w. Done False (wcalled (ReleaseSemaphore_call h) w)))"

definition WaitForSemaphore :: "w32_os \<Rightarrow> nat \<Rightarrow> int \<Rightarrow> (int, w32_world) act" where
  "WaitForSemaphore os h ms = w32_sem_at h (\<lambda>s. w32_wait os h ms (0 < sem_value s)
     (\<lambda>w. w\<lparr>w_sem := (w_sem w)(h \<mapsto> s\<lparr>sem_value := sem_value s - 1\<rparr>)\<rparr>))"

section \<open>Mutex\<close>

definition InitializeCriticalSection_wrapInternal :: "w32_os \<Rightarrow> nat \<Rightarrow> (bool, w32_world) act" where
  "InitializeCriticalSection_wrapInternal os cs w =
     (let c = InitializeCriticalSection_call cs in
      if w_ret os c (w_trace w) \<noteq> 0
      then Done True ((wcalled c w)\<lparr>w_cs := (w_cs w)(cs \<mapsto> CriticalSectionLock_new)\<rparr>)
      else if w_msvc os then Done False (wcalled c w)
      else Crash Terminate)"

definition InitializeCriticalSection_wrap :: "w32_os \<Rightarrow> nat \<Rightarrow> (unit, w32_world) act" where
  "InitializeCriticalSection_wrap os cs =
     seqR (InitializeCriticalSection_wrapInternal os cs) (\<lambda>ok.
     throw_unless ok ''InitializeCriticalSection: STATUS_NO_MEMORY'')"

definition w32_Mutex_ctor :: "w32_os \<Rightarrow> Mutex_Type \<Rightarrow> nat \<Rightarrow> (unit, w32_world) act" where
  "w32_Mutex_ctor os ty cs = InitializeCriticalSection_wrap os cs"

definition w32_Mutex_dtor :: "nat \<Rightarrow> (unit, w32_world) act" where
  "w32_Mutex_dtor cs w = Done () (w\<lparr>w_cs := (w_cs w)(cs := None)\<rparr>)"

definition w32_cs_call :: "(CRITICAL_SECTION \<Rightarrow> CRITICAL_SECTION res) \<Rightarrow> nat \<Rightarrow> (unit, w32_world) act" where
  "w32_cs_call f cs w = (case w_cs w cs of
     None \<Rightarrow> Crash DanglingPtr
   | Some c \<Rightarrow> (case f c of
       Inr c' \<Rightarrow> Done () (w\<lparr>w_cs := (w_cs w)(cs \<mapsto> c')\<rparr>)
     | Inl e \<Rightarrow> if e = LockBusy then Waits w else Crash e))"

definition w32_Mutex_lock :: "tid \<Rightarrow> nat \<Rightarrow> (unit, w32_world) act" where
  "w32_Mutex_lock t cs = w32_cs_call (Enter t) cs"

definition w32_Mutex_unlock :: "tid \<Rightarrow> nat \<Rightarrow> (unit, w32_world) act" where
  "w32_Mutex_unlock t cs = w32_cs_call (Leave t) cs"

section \<open>Semaphore\<close>

text \<open>The counts are passed as \<^verbatim>\<open>LONG\<close>, so they are read as signed numbers.\<close>

definition w32_Semaphore_ctor :: "w32_os \<Rightarrow> 32 word \<Rightarrow> 32 word \<Rightarrow> (nat, w32_world) act" where
  "w32_Semaphore_ctor os mx initial =
     seqR (CreateSemaphore os (sint initial) (sint mx)) (\<lambda>sem. case sem of
       None \<Rightarrow> Thrown ''Semaphore::Semaphore''
     | Some h \<Rightarrow> Done h)"

definition w32_Semaphore_dtor :: "w32_os \<Rightarrow> nat \<Rightarrow> (unit, w32_world) act" where
  "w32_Semaphore_dtor os sem = catchR
     (seqR (w32_bool os (CloseHandle_call sem) (\<lambda>w. w\<lparr>w_sem := (w_sem w)(sem := None)\<rparr>)) (\<lambda>ok.
      throw_unless ok ''Semaphore::~Semaphore''))
     (\<lambda>_. Done ())"

definition w32_Semaphore_unlock :: "w32_os \<Rightarrow> nat \<Rightarrow> (unit, w32_world) act" where
  "w32_Semaphore_unlock os sem = seqR (ReleaseSemaphore os sem) (\<lambda>ret. throw_unless ret ''Semaphore::unlock'')"

definition w32_Semaphore_lock :: "w32_os \<Rightarrow> nat \<Rightarrow> (unit, w32_world) act" where
  "w32_Semaphore_lock os sem =
     seqR (WaitForSemaphore os sem INFINITE) (\<lambda>ret. throw_unless (ret = WAIT_OBJECT_0) ''Semaphore::lock'')"

section \<open>FairMutex\<close>

definition w32_FairMutex_ctor :: "w32_os \<Rightarrow> (nat, w32_world) act" where
  "w32_FairMutex_ctor os =
     seqR (w32_create os CreateMutex_call True (\<lambda>h w. w\<lparr>w_mutex := (w_mutex w)(h \<mapsto> CriticalSectionLock_new)\<rparr>)) (\<lambda>mtx.
     case mtx of None \<Rightarrow> Thrown ''FairMutex::FairMutex'' | Some h \<Rightarrow> Done h)"

definition w32_FairMutex_dtor :: "w32_os \<Rightarrow> nat \<Rightarrow> (unit, w32_world) act" where
  "w32_FairMutex_dtor os mtx = catchR
     (seqR (w32_bool os (CloseHandle_call mtx) (\<lambda>w. w\<lparr>w_mutex := (w_mutex w)(mtx := None)\<rparr>)) (\<lambda>ok.
      throw_unless ok ''FairMutex::~FairMutex''))
     (\<lambda>_. Done ())"

text \<open>A Win32 mutex is recursive; a wait that ends with \<^verbatim>\<open>WAIT_ABANDONED\<close> has taken it as well.\<close>

definition WaitForMutex :: "w32_os \<Rightarrow> tid \<Rightarrow> nat \<Rightarrow> int \<Rightarrow> (int, w32_world) act" where
  "WaitForMutex os t h ms w = (case w_mutex w h of
     None \<Rightarrow> Crash DanglingPtr
   | Some m \<Rightarrow> (case Enter t m of
       Inr m' \<Rightarrow> w32_wait os h ms True (\<lambda>w. w\<lparr>w_mutex := (w_mutex w)(h \<mapsto> m')\<rparr>) w
     | Inl _ \<Rightarrow> w32_wait os h ms False id w))"

definition ReleaseMutex :: "w32_os \<Rightarrow> tid \<Rightarrow> nat \<Rightarrow> (bool, w32_world) act" where
  "ReleaseMutex os t h w = (case w_mutex w h of
     None \<Rightarrow> Crash DanglingPtr
   | Some m \<Rightarrow> (case Leave t m of
       Inr m' \<Rightarrow> w32_bool os (ReleaseMutex_call h) (\<lambda>w. w\<lparr>w_mutex := (w_mutex w)(h \<mapsto> m')\<rparr>) w
     | Inl _ \<Rightarrow> Done False (wcalled (ReleaseMutex_call h) w)))"

definition w32_FairMutex_lock :: "w32_os \<Rightarrow> tid \<Rightarrow> nat \<Rightarrow> (unit, w32_world) act" where
  "w32_FairMutex_lock os t mtx =
     seqR (WaitForMutex os t mtx INFINITE) (\<lambda>ret. throw_unless (ret = WAIT_OBJECT_0) ''FairMutex::lock'')"

definition w32_FairMutex_unlock :: "w32_os \<Rightarrow> tid \<Rightarrow> nat \<Rightarrow> (unit, w32_world) act" where
  "w32_FairMutex_unlock os t mtx = seqR (ReleaseMutex os t mtx) (\<lambda>ok. throw_unless ok ''FairMutex::unlock'')"

section \<open>ManualResetEvent\<close>

definition w32_ManualResetEvent_ctor :: "w32_os \<Rightarrow> bool \<Rightarrow> (nat, w32_world) act" where
  "w32_ManualResetEvent_ctor os sig =
     seqR (w32_create os (CreateEvent_call sig) True (\<lambda>h w. w\<lparr>w_event := (w_event w)(h \<mapsto> sig)\<rparr>)) (\<lambda>ev.
     case ev of None \<Rightarrow> Thrown ''ManualResetEvent::ManualResetEvent'' | Some h \<Rightarrow> Done h)"

definition w32_ManualResetEvent_dtor :: "w32_os \<Rightarrow> nat \<Rightarrow> (unit, w32_world) act" where
  "w32_ManualResetEvent_dtor os ev = catchR
     (seqR (w32_bool os (CloseHandle_call ev) (\<lambda>w. w\<lparr>w_event := (w_event w)(ev := None)\<rparr>)) (\<lambda>ok.
      throw_unless ok ''ManualResetEvent::~ManualResetEvent''))
     (\<lambda>_. Done ())"

definition w32_ManualResetEvent_signal :: "w32_os \<Rightarrow> nat \<Rightarrow> (unit, w32_world) act" where
  "w32_ManualResetEvent_signal os ev =
     seqR (w32_bool os (SetEvent_call ev) (\<lambda>w. w\<lparr>w_event := (w_event w)(ev \<mapsto> True)\<rparr>)) (\<lambda>ok.
     throw_unless ok ''ManualResetEVent::signal'')"

definition WaitForEvent :: "w32_os \<Rightarrow> nat \<Rightarrow> int \<Rightarrow> (int, w32_world) act" where
  "WaitForEvent os ev ms w = (case w_event w ev of
     None \<Rightarrow> Crash DanglingPtr | Some sig \<Rightarrow> w32_wait os ev ms sig id w)"

definition w32_ManualResetEvent_wait :: "w32_os \<Rightarrow> nat \<Rightarrow> (unit, w32_world) act" where
  "w32_ManualResetEvent_wait os ev =
     seqR (WaitForEvent os ev INFINITE) (\<lambda>ret. throw_unless (ret = WAIT_OBJECT_0) ''ManualResetEvent::wait'')"

definition w32_ManualResetEvent_timed_wait :: "w32_os \<Rightarrow> 32 word \<Rightarrow> nat \<Rightarrow> (bool, w32_world) act" where
  "w32_ManualResetEvent_timed_wait os msec ev =
     seqR (WaitForEvent os ev (uint msec)) (\<lambda>ret.
     if ret = WAIT_OBJECT_0 then Done True
     else if ret = WAIT_TIMEOUT then Done False
     else Thrown ''ManualResetEvent::timed_wait'')"

definition w32_ManualResetEvent_reset :: "w32_os \<Rightarrow> nat \<Rightarrow> (unit, w32_world) act" where
  "w32_ManualResetEvent_reset os ev =
     seqR (w32_bool os (ResetEvent_call ev) (\<lambda>w. w\<lparr>w_event := (w_event w)(ev \<mapsto> False)\<rparr>)) (\<lambda>ok.
     throw_unless ok ''ManualResetEvent::reset'')"

section \<open>SharedMutex over a slim read-write lock\<close>

definition srw_call :: "(SRWLOCK \<Rightarrow> SRWLOCK option) \<Rightarrow> nat \<Rightarrow> (unit, w32_world) act" where
  "srw_call f a w = (case w_srw w a of
     None \<Rightarrow> Crash DanglingPtr
   | Some l \<Rightarrow> (case f l of None \<Rightarrow> Waits w | Some l' \<Rightarrow> Done () (w\<lparr>w_srw := (w_srw w)(a \<mapsto> l')\<rparr>)))"

definition w32_SharedMutex_ctor :: "nat \<Rightarrow> (unit, w32_world) act" where
  "w32_SharedMutex_ctor a w = Done () (w\<lparr>w_srw := (w_srw w)(a \<mapsto> \<lparr>srw_readers = 0, srw_writer = False\<rparr>)\<rparr>)"

definition w32_SharedMutex_dtor :: "nat \<Rightarrow> (unit, w32_world) act" where
  "w32_SharedMutex_dtor a = Done ()"

definition w32_SharedMutex_rdlock :: "nat \<Rightarrow> (unit, w32_world) act" where
  "w32_SharedMutex_rdlock = srw_call (\<lambda>l. if srw_writer l then None else Some (l\<lparr>srw_readers := Suc (srw_readers l)\<rparr>))"

definition w32_SharedMutex_rdunlock :: "nat \<Rightarrow> (unit, w32_world) act" where
  "w32_SharedMutex_rdunlock = srw_call (\<lambda>l. Some (l\<lparr>srw_readers := srw_readers l - 1\<rparr>))"

definition w32_SharedMutex_wrlock :: "nat \<Rightarrow> (unit, w32_world) act" where
  "w32_SharedMutex_wrlock = srw_call (\<lambda>l. if srw_writer l \<or> srw_readers l \<noteq> 0 then None else Some (l\<lparr>srw_writer := True\<rparr>))"

definition w32_SharedMutex_wrunlock :: "nat \<Rightarrow> (unit, w32_world) act" where
  "w32_SharedMutex_wrunlock = srw_call (\<lambda>l. Some (l\<lparr>srw_writer := False\<rparr>))"

definition calm_w32 :: w32_os where
  "calm_w32 = \<lparr>w_ret = \<lambda>c _. (case c of WaitForSingleObject_call32 _ _ \<Rightarrow> WAIT_OBJECT_0 | _ \<Rightarrow> 1), w_msvc = True\<rparr>"

definition w32_world_new :: w32_world where
  "w32_world_new = \<lparr>w_cs = Map.empty, w_sem = Map.empty, w_mutex = Map.empty, w_event = Map.empty, w_srw = Map.empty,
     w_next = 1, w_trace = []\<rparr>"

section \<open>Primitives as lockable objects\<close>

definition w32_mutex_free :: "tid \<Rightarrow> nat \<Rightarrow> w32_world \<Rightarrow> bool" where
  "w32_mutex_free t a w = (\<exists>c. w_cs w a = Some c \<and> lock_avail t (Some c) \<and> (OwningThread c = None \<longleftrightarrow> RecursionCount c = 0))"

definition w32_mutex_held :: "tid \<Rightarrow> nat \<Rightarrow> w32_world \<Rightarrow> bool" where
  "w32_mutex_held t a w = (\<exists>c. w_cs w a = Some c \<and> OwningThread c = Some t \<and> 0 < RecursionCount c)"

interpretation w32_mutex_lk: lockable "w32_Mutex_lock t" "w32_Mutex_unlock t" "w32_mutex_free t" "w32_mutex_held t" for t
proof
  fix a w assume "w32_mutex_free t a w"
  then show "\<exists>w'. w32_Mutex_lock t a w = Done () w' \<and> w32_mutex_held t a w'"
    by (auto simp: w32_mutex_free_def w32_mutex_held_def w32_Mutex_lock_def w32_cs_call_def Enter_def lock_avail_def
        split: option.splits)
next
  fix a w assume "w32_mutex_held t a w"
  then show "\<exists>w'. w32_Mutex_unlock t a w = Done () w' \<and> w32_mutex_free t a w'"
    by (auto simp: w32_mutex_free_def w32_mutex_held_def w32_Mutex_unlock_def w32_cs_call_def Leave_def lock_avail_def)
qed

lemma w32_Semaphore_lock_run:
  assumes "w_sem w h = Some s"
  shows "w32_Semaphore_lock os h w =
    (let c = WaitForSingleObject_call32 h INFINITE; ret = w_ret os c (w_trace w) in
     if ret \<noteq> WAIT_OBJECT_0 \<and> ret \<noteq> WAIT_ABANDONED then Thrown ''Semaphore::lock'' (wcalled c w)
     else if sem_value s \<le> 0 then Waits (wcalled c w)
     else throw_unless (ret = WAIT_OBJECT_0) ''Semaphore::lock''
       ((wcalled c w)\<lparr>w_sem := (w_sem w)(h \<mapsto> s\<lparr>sem_value := sem_value s - 1\<rparr>)\<rparr>))"
  using assms
  by (auto simp: w32_Semaphore_lock_def WaitForSemaphore_def w32_sem_at_def w32_wait_def Let_def seqR_def)

lemma w32_Semaphore_unlock_run:
  assumes "w_sem w h = Some s"
  shows "w32_Semaphore_unlock os h w =
    (let c = ReleaseSemaphore_call h in
     if sem_max s \<le> sem_value s \<or> w_ret os c (w_trace w) = 0 then Thrown ''Semaphore::unlock'' (wcalled c w)
     else Done () ((wcalled c w)\<lparr>w_sem := (w_sem w)(h \<mapsto> s\<lparr>sem_value := sem_value s + 1\<rparr>)\<rparr>))"
  using assms by (simp add: w32_Semaphore_unlock_def ReleaseSemaphore_def w32_sem_at_def w32_bool_def Let_def seqR_def)

definition w32_sem_free :: "nat \<Rightarrow> w32_world \<Rightarrow> bool" where
  "w32_sem_free h w = (\<exists>s. w_sem w h = Some s \<and> 0 < sem_value s \<and> sem_value s \<le> sem_max s)"

definition w32_sem_held :: "nat \<Rightarrow> w32_world \<Rightarrow> bool" where
  "w32_sem_held h w = (\<exists>s. w_sem w h = Some s \<and> 0 \<le> sem_value s \<and> sem_value s < sem_max s)"

interpretation w32_sem_lk: lockable "w32_Semaphore_lock calm_w32" "w32_Semaphore_unlock calm_w32" w32_sem_free w32_sem_held
proof
  fix h w assume "w32_sem_free h w"
  then show "\<exists>w'. w32_Semaphore_lock calm_w32 h w = Done () w' \<and> w32_sem_held h w'"
    by (auto simp: w32_sem_free_def w32_sem_held_def w32_Semaphore_lock_run calm_w32_def)
next
  fix h w assume "w32_sem_held h w"
  then show "\<exists>w'. w32_Semaphore_unlock calm_w32 h w = Done () w' \<and> w32_sem_free h w'"
    by (auto simp: w32_sem_free_def w32_sem_held_def w32_Semaphore_unlock_run calm_w32_def)
qed

definition w32_fair_free :: "tid \<Rightarrow> nat \<Rightarrow> w32_world \<Rightarrow> bool" where
  "w32_fair_free t a w = (\<exists>c. w_mutex w a = Some c \<and> lock_avail t (Some c) \<and> (OwningThread c = None \<longleftrightarrow> RecursionCount c = 0))"

definition w32_fair_held :: "tid \<Rightarrow> nat \<Rightarrow> w32_world \<Rightarrow> bool" where
  "w32_fair_held t a w = (\<exists>c. w_mutex w a = Some c \<and> OwningThread c = Some t \<and> 0 < RecursionCount c)"

interpretation w32_fair_lk: lockable "w32_FairMutex_lock calm_w32 t" "w32_FairMutex_unlock calm_w32 t" "w32_fair_free t" "w32_fair_held t" for t
proof
  fix a w assume "w32_fair_free t a w"
  then show "\<exists>w'. w32_FairMutex_lock calm_w32 t a w = Done () w' \<and> w32_fair_held t a w'"
    by (auto simp: w32_fair_free_def w32_fair_held_def w32_FairMutex_lock_def WaitForMutex_def Enter_def lock_avail_def
        w32_wait_def calm_w32_def Let_def seqR_def split: option.splits)
next
  fix a w assume "w32_fair_held t a w"
  then show "\<exists>w'. w32_FairMutex_unlock calm_w32 t a w = Done () w' \<and> w32_fair_free t a w'"
    by (auto simp: w32_fair_free_def w32_fair_held_def w32_FairMutex_unlock_def ReleaseMutex_def Leave_def lock_avail_def
        w32_bool_def calm_w32_def seqR_def)
qed

section \<open>The two semaphores\<close>

datatype sem_op = sem_lock_op | sem_unlock_op

text \<open>The count of an ideal semaphore after a sequence of operations that neither waits nor exceeds
  the maximum.\<close>

fun sem_plan :: "nat \<Rightarrow> sem_op list \<Rightarrow> nat \<Rightarrow> nat option" where
  "sem_plan mx [] v = Some v"
| "sem_plan mx (sem_lock_op # ops) v = (if v = 0 then None else sem_plan mx ops (v - 1))"
| "sem_plan mx (sem_unlock_op # ops) v = (if v < mx then sem_plan mx ops (Suc v) else None)"

fun px_sem_ops :: "px_os \<Rightarrow> nat \<Rightarrow> sem_op list \<Rightarrow> (unit, px_world) act" where
  "px_sem_ops os a [] = Done ()"
| "px_sem_ops os a (x # xs) =
     seqR (case x of sem_lock_op \<Rightarrow> px_Semaphore_lock os a | sem_unlock_op \<Rightarrow> px_Semaphore_unlock os a) (\<lambda>_. px_sem_ops os a xs)"

fun w32_sem_ops :: "w32_os \<Rightarrow> nat \<Rightarrow> sem_op list \<Rightarrow> (unit, w32_world) act" where
  "w32_sem_ops os h [] = Done ()"
| "w32_sem_ops os h (x # xs) =
     seqR (case x of sem_lock_op \<Rightarrow> w32_Semaphore_lock os h | sem_unlock_op \<Rightarrow> w32_Semaphore_unlock os h) (\<lambda>_. w32_sem_ops os h xs)"

lemma px_sem_ops_plan:
  assumes "sem_plan mx ops v = Some v'" "px_sem w a = Some v" "mx \<le> 2147483647"
  shows "\<exists>w'. px_sem_ops calm_px a ops w = Done () w' \<and> px_sem w' a = Some v'"
  using assms
proof (induction ops arbitrary: v w)
  case (Cons x ops)
  show ?case
  proof (cases x)
    case sem_lock_op
    then show ?thesis
      using Cons.prems Cons.IH[of "v - 1" "(called (sem_wait_call a) w)\<lparr>px_sem := (px_sem w)(a \<mapsto> v - 1)\<rparr>"]
      by (auto simp: px_Semaphore_lock_run calm_px_def split: if_splits)
  next
    case sem_unlock_op
    then show ?thesis
      using Cons.prems Cons.IH[of "Suc v" "(called (sem_post_call a) w)\<lparr>px_sem := (px_sem w)(a \<mapsto> Suc v)\<rparr>"]
      by (auto simp: px_Semaphore_unlock_run calm_px_def split: if_splits)
  qed
qed simp

lemma w32_sem_ops_plan:
  assumes "sem_plan mx ops v = Some v'" "w_sem u h = Some \<lparr>sem_value = int v, sem_max = int mx\<rparr>"
  shows "\<exists>u'. w32_sem_ops calm_w32 h ops u = Done () u' \<and> w_sem u' h = Some \<lparr>sem_value = int v', sem_max = int mx\<rparr>"
  using assms
proof (induction ops arbitrary: v u)
  case (Cons x ops)
  show ?case
  proof (cases x)
    case sem_lock_op
    let ?u = "(wcalled (WaitForSingleObject_call32 h INFINITE) u)\<lparr>w_sem := (w_sem u)(h \<mapsto> \<lparr>sem_value = int v - 1, sem_max = int mx\<rparr>)\<rparr>"
    from Cons.prems sem_lock_op have v: "v \<noteq> 0" "sem_plan mx ops (v - 1) = Some v'" by (simp_all split: if_splits)
    then have "int (v - 1) = int v - 1" by (simp add: of_nat_diff)
    then obtain u' where u': "w32_sem_ops calm_w32 h ops ?u = Done () u'" "w_sem u' h = Some \<lparr>sem_value = int v', sem_max = int mx\<rparr>"
      using Cons.IH[OF v(2), of ?u] by auto
    have "w32_Semaphore_lock calm_w32 h u = Done () ?u"
      using Cons.prems(2) v(1) by (simp add: w32_Semaphore_lock_run calm_w32_def Let_def)
    with u' sem_lock_op show ?thesis by simp
  next
    case sem_unlock_op
    let ?u = "(wcalled (ReleaseSemaphore_call h) u)\<lparr>w_sem := (w_sem u)(h \<mapsto> \<lparr>sem_value = int v + 1, sem_max = int mx\<rparr>)\<rparr>"
    from Cons.prems sem_unlock_op have v: "v < mx" "sem_plan mx ops (Suc v) = Some v'" by (simp_all split: if_splits)
    have "int (Suc v) = int v + 1" by simp
    then obtain u' where u': "w32_sem_ops calm_w32 h ops ?u = Done () u'" "w_sem u' h = Some \<lparr>sem_value = int v', sem_max = int mx\<rparr>"
      using Cons.IH[OF v(2), of ?u] by auto
    have "w32_Semaphore_unlock calm_w32 h u = Done () ?u"
      using Cons.prems(2) v(1) by (simp add: w32_Semaphore_unlock_run calm_w32_def Let_def)
    with u' sem_unlock_op show ?thesis by simp
  qed
qed simp

lemma px_lock_times_calm:
  "px_sem w a = Some v \<Longrightarrow> n \<le> v \<Longrightarrow> \<exists>w'. px_lock_times calm_px a n w = Done () w' \<and> px_sem w' a = Some (v - n)"
proof (induction n arbitrary: w v)
  case (Suc n)
  then show ?case
    using Suc.IH[of "(called (sem_wait_call a) w)\<lparr>px_sem := (px_sem w)(a \<mapsto> v - 1)\<rparr>" "v - 1"]
    by (auto simp: px_Semaphore_lock_run calm_px_def)
qed auto

lemma px_Semaphore_ctor_calm:
  assumes "initial \<le> mx" "unat mx \<le> 2147483647"
  shows "\<exists>w'. px_Semaphore_ctor False calm_px mx initial a w = Done () w' \<and> px_sem w' a = Some (unat initial)"
proof -
  let ?w = "(called (sem_init_call a (unat mx)) w)\<lparr>px_sem := (px_sem w)(a \<mapsto> unat mx)\<rparr>"
  have le: "unat initial \<le> unat mx" using assms(1) by (simp add: word_le_nat_alt)
  have "px_sem_create False calm_px a (unat mx) w = Done () ?w"
    by (simp add: px_sem_create_def sem_init_def px_api_run calm_px_def seqR_def)
  moreover obtain w' where "px_lock_times calm_px a (unat mx - unat initial) ?w = Done () w'" "px_sem w' a = Some (unat initial)"
    using px_lock_times_calm[of ?w a "unat mx" "unat mx - unat initial"] le by auto
  moreover have "min (unat mx) (px_SEM_VALUE_MAX calm_px) = unat mx" using assms(2) by (simp add: calm_px_def)
  ultimately show ?thesis using le by (simp add: px_Semaphore_ctor_def Let_def min_absorb1)
qed

lemma w32_Semaphore_ctor_calm:
  assumes "initial \<le> mx" "0 < mx" "unat mx \<le> 2147483647"
  shows "\<exists>u'. w32_Semaphore_ctor calm_w32 mx initial u = Done (w_next u) u'
    \<and> w_sem u' (w_next u) = Some \<lparr>sem_value = int (unat initial), sem_max = int (unat mx)\<rparr>"
proof -
  have s: "sint x = int (unat x)" if "unat x \<le> 2147483647" for x :: "32 word"
  proof -
    have u: "uint x = int (unat x)" by simp
    have "uint x \<le> 2147483647" unfolding u using that by linarith
    then have "signed_take_bit 31 (uint x) = uint x"
      by (intro signed_take_bit_int_eq_self) (simp_all add: order_trans[OF _ uint_ge_0])
    then show ?thesis by (simp add: sint_uint)
  qed
  have "unat initial \<le> unat mx" "0 < unat mx" using assms by (simp_all add: word_le_nat_alt word_less_nat_alt)
  moreover have "uint initial \<le> uint mx" "0 < uint mx" using assms by (simp_all add: word_le_def word_less_def)
  ultimately show ?thesis using s[of mx] s[of initial] assms(3)
    by (simp add: w32_Semaphore_ctor_def CreateSemaphore_def w32_create_def calm_w32_def seqR_def)
qed

section \<open>Properties\<close>



text \<open>When the previous owner of a fair mutex ended without releasing it, the next \<^verbatim>\<open>lock\<close> takes the
  Win32 mutex and throws all the same, so nobody releases it: every other thread waits from then on.\<close>

lemma abandoned_fair_mutex:
  assumes "w_mutex w h = Some c" "OwningThread c = None"
    and "w_ret os (WaitForSingleObject_call32 h INFINITE) (w_trace w) = WAIT_ABANDONED" "t \<noteq> u"
  shows "\<exists>w'. w32_FairMutex_lock os t h w = Thrown ''FairMutex::lock'' w'
    \<and> (\<forall>w''. w32_FairMutex_lock calm_w32 u h w' \<noteq> Done () w'')"
proof -
  let ?c = "c\<lparr>OwningThread := Some t, RecursionCount := Suc (RecursionCount c)\<rparr>"
  let ?w' = "(wcalled (WaitForSingleObject_call32 h INFINITE) w)\<lparr>w_mutex := (w_mutex w)(h \<mapsto> ?c)\<rparr>"
  have "w32_FairMutex_lock os t h w = Thrown ''FairMutex::lock'' ?w'"
    using assms by (simp add: w32_FairMutex_lock_def WaitForMutex_def Enter_def w32_wait_def Let_def seqR_def)
  moreover have "w32_FairMutex_lock calm_w32 u h ?w' \<noteq> Done () w''" for w''
    using assms(4) by (simp add: w32_FairMutex_lock_def WaitForMutex_def Enter_def w32_wait_def Let_def seqR_def calm_w32_def)
  ultimately show ?thesis by blast
qed

end
