(* ===== verification/L4_Shared_Mutex.thy ===== *)
theory L4_Shared_Mutex
  imports L4_Pthreads
begin

text \<open>
  The portable read-write lock of log4cplus, \<^verbatim>\<open>thread/impl/syncprims-pmsm.h\<close>: the algorithm of
  Courtois, Heymans and Parnas with writer preference, made of three mutexes, two semaphores and two
  counters. The class is used with either platform's \<^verbatim>\<open>Mutex\<close> and \<^verbatim>\<open>Semaphore\<close>, so its methods
  take the operations of the two as the parameter \<open>prims\<close>.

  The methods are given twice. As functions they read like the source, with the unwinding of their
  guards. As the steps of \<open>pm_exec\<close>, one per lock operation, test and counter update, they are
  interleaved by \<open>pm_step\<close> for any number of threads, lock operations that fail included; the two
  forms agree for a thread that is not disturbed. The theory shows that the interleaved lock excludes
  readers from writers and writers from each other.
\<close>

section \<open>The class\<close>

datatype pm_mutex = m1 | m2 | m3
datatype pm_sem = w_sem_lock | r_sem_lock

record counters =
  writer_count :: "32 word"
  reader_count :: "32 word"

record 's prims =
  mutex_lock :: "pm_mutex \<Rightarrow> (unit, 's) act"
  mutex_unlock :: "pm_mutex \<Rightarrow> (unit, 's) act"
  semaphore_lock :: "pm_sem \<Rightarrow> (unit, 's) act"
  semaphore_unlock :: "pm_sem \<Rightarrow> (unit, 's) act"

type_synonym ('a, 's) pm_act = "('a, 's \<times> counters) act"

text \<open>An operation of the primitives, which does not touch the counters.\<close>

definition on_prims :: "(unit, 's) act \<Rightarrow> (unit, 's) pm_act" where
  "on_prims f sc = (case f (fst sc) of
     Done u s \<Rightarrow> Done u (s, snd sc) | Thrown e s \<Rightarrow> Thrown e (s, snd sc)
   | Waits s \<Rightarrow> Waits (s, snd sc) | Crash e \<Rightarrow> Crash e)"

definition mutex_guard :: "'s prims \<Rightarrow> pm_mutex \<Rightarrow> ('a, 's) pm_act \<Rightarrow> ('a, 's) pm_act" where
  "mutex_guard P m body = with_guard (\<lambda>m. on_prims (mutex_lock P m)) (\<lambda>m. on_prims (mutex_unlock P m)) m (plain body)"

definition semaphore_guard :: "'s prims \<Rightarrow> pm_sem \<Rightarrow> ('a, 's) pm_act \<Rightarrow> ('a, 's) pm_act" where
  "semaphore_guard P q body = with_guard (\<lambda>q. on_prims (semaphore_lock P q)) (\<lambda>q. on_prims (semaphore_unlock P q)) q (plain body)"

definition counters_new :: counters where
  "counters_new = \<lparr>writer_count = 0, reader_count = 0\<rparr>"

definition add_readers :: "32 word \<Rightarrow> (unit, 's) pm_act" where
  "add_readers n sc = Done () (fst sc, (snd sc)\<lparr>reader_count := reader_count (snd sc) + n\<rparr>)"

definition add_writers :: "32 word \<Rightarrow> (unit, 's) pm_act" where
  "add_writers n sc = Done () (fst sc, (snd sc)\<lparr>writer_count := writer_count (snd sc) + n\<rparr>)"

definition pm_rdlock :: "'s prims \<Rightarrow> (unit, 's) pm_act" where
  "pm_rdlock P =
     mutex_guard P m3 (semaphore_guard P r_sem_lock (mutex_guard P m1 (
       seqR (\<lambda>sc. if reader_count (snd sc) + 1 = 1 then on_prims (semaphore_lock P w_sem_lock) sc else Done () sc) (\<lambda>_.
       add_readers 1))))"

definition pm_rdunlock :: "'s prims \<Rightarrow> (unit, 's) pm_act" where
  "pm_rdunlock P =
     mutex_guard P m1 (
       seqR (\<lambda>sc. if reader_count (snd sc) - 1 = 0 then on_prims (semaphore_unlock P w_sem_lock) sc else Done () sc) (\<lambda>_.
       add_readers (- 1)))"

definition pm_wrlock :: "'s prims \<Rightarrow> (unit, 's) pm_act" where
  "pm_wrlock P =
     seqR (mutex_guard P m2 (
       seqR (\<lambda>sc. if writer_count (snd sc) + 1 = 1 then on_prims (semaphore_lock P r_sem_lock) sc else Done () sc) (\<lambda>_.
       add_writers 1))) (\<lambda>_.
     catchR (on_prims (semaphore_lock P w_sem_lock))
       (\<lambda>e. mutex_guard P m2 (seqR (add_writers (- 1)) (\<lambda>_. Thrown e))))"

definition pm_wrunlock :: "'s prims \<Rightarrow> (unit, 's) pm_act" where
  "pm_wrunlock P =
     seqR (on_prims (semaphore_unlock P w_sem_lock)) (\<lambda>_.
     mutex_guard P m2 (
       seqR (\<lambda>sc. if writer_count (snd sc) - 1 = 0 then on_prims (semaphore_unlock P r_sem_lock) sc else Done () sc) (\<lambda>_.
       add_writers (- 1))))"

text \<open>The class over the POSIX primitives, its members at consecutive addresses from \<open>a\<close>.\<close>

definition m_addr :: "nat \<Rightarrow> pm_mutex \<Rightarrow> nat" where
  "m_addr a m = (case m of m1 \<Rightarrow> a | m2 \<Rightarrow> a + 1 | m3 \<Rightarrow> a + 2)"

definition s_addr :: "nat \<Rightarrow> pm_sem \<Rightarrow> nat" where
  "s_addr a q = (case q of w_sem_lock \<Rightarrow> a + 3 | r_sem_lock \<Rightarrow> a + 4)"

definition px_prims :: "px_os \<Rightarrow> tid \<Rightarrow> nat \<Rightarrow> px_world prims" where
  "px_prims os t a = \<lparr>mutex_lock = \<lambda>m. px_Mutex_lock os t (m_addr a m), mutex_unlock = \<lambda>m. px_Mutex_unlock os t (m_addr a m),
     semaphore_lock = \<lambda>q. px_Semaphore_lock os (s_addr a q), semaphore_unlock = \<lambda>q. px_Semaphore_unlock os (s_addr a q)\<rparr>"

text \<open>Construction of a member and of everything after it: when a later member fails, this one is
  destroyed again.\<close>

definition member :: "(unit, 's) act \<Rightarrow> (unit, 's) act \<Rightarrow> ('a, 's) act \<Rightarrow> ('a, 's) act" where
  "member create destroy rest = seqR create (\<lambda>_. catchR rest (\<lambda>e. seqR destroy (\<lambda>_. Thrown e)))"

definition pm_SharedMutex_ctor :: "bool \<Rightarrow> px_os \<Rightarrow> nat \<Rightarrow> (counters, px_world) act" where
  "pm_SharedMutex_ctor named os a =
     member (px_Mutex_ctor os DEFAULT (m_addr a m1)) (px_Mutex_dtor os (m_addr a m1)) (
     member (px_Mutex_ctor os DEFAULT (m_addr a m2)) (px_Mutex_dtor os (m_addr a m2)) (
     member (px_Mutex_ctor os DEFAULT (m_addr a m3)) (px_Mutex_dtor os (m_addr a m3)) (
     member (px_Semaphore_ctor named os 1 1 (s_addr a w_sem_lock)) (px_Semaphore_dtor named os (s_addr a w_sem_lock)) (
     member (px_Semaphore_ctor named os 1 1 (s_addr a r_sem_lock)) (px_Semaphore_dtor named os (s_addr a r_sem_lock)) (
     Done counters_new)))))"

definition pm_SharedMutex_dtor :: "bool \<Rightarrow> px_os \<Rightarrow> nat \<Rightarrow> (unit, px_world) act" where
  "pm_SharedMutex_dtor named os a =
     seqR (px_Semaphore_dtor named os (s_addr a r_sem_lock)) (\<lambda>_.
     seqR (px_Semaphore_dtor named os (s_addr a w_sem_lock)) (\<lambda>_.
     seqR (px_Mutex_dtor os (m_addr a m3)) (\<lambda>_.
     seqR (px_Mutex_dtor os (m_addr a m2)) (\<lambda>_.
     px_Mutex_dtor os (m_addr a m1)))))"

section \<open>The class as interleaved steps\<close>

record pm_state =
  owner :: "pm_mutex \<Rightarrow> tid option"
  avail :: "pm_sem \<Rightarrow> nat"
  cnt :: counters

datatype pc =
    Idle
  | R_m3 | R_r | R_m1 | R_w | R_inc | R_um1 | R_ur | R_um3
  | Reading
  | U_m1 | U_w | U_dec | U_um1
  | F_um1 | F_ur | F_um3 | F_um2
  | W_m2 | W_r | W_inc | W_um2 | W_w
  | Writing
  | V_w | V_m2 | V_r | V_dec | V_um2
  | X_m2 | X_dec | X_um2

definition lock_m :: "bool \<Rightarrow> tid \<Rightarrow> pm_mutex \<Rightarrow> pc \<Rightarrow> pc \<Rightarrow> pm_state \<Rightarrow> (pc \<times> pm_state) option" where
  "lock_m fails t m ok bad s = (if fails then Some (bad, s)
     else if owner s m = None then Some (ok, s\<lparr>owner := (owner s)(m := Some t)\<rparr>) else None)"

definition lock_s :: "bool \<Rightarrow> pm_sem \<Rightarrow> pc \<Rightarrow> pc \<Rightarrow> pm_state \<Rightarrow> (pc \<times> pm_state) option" where
  "lock_s fails q ok bad s = (if fails then Some (bad, s)
     else if 0 < avail s q then Some (ok, s\<lparr>avail := (avail s)(q := avail s q - 1)\<rparr>) else None)"

definition unlock_m :: "pm_mutex \<Rightarrow> pc \<Rightarrow> pm_state \<Rightarrow> (pc \<times> pm_state) option" where
  "unlock_m m ok s = Some (ok, s\<lparr>owner := (owner s)(m := None)\<rparr>)"

definition unlock_s :: "pm_sem \<Rightarrow> pc \<Rightarrow> pm_state \<Rightarrow> (pc \<times> pm_state) option" where
  "unlock_s q ok s = Some (ok, s\<lparr>avail := (avail s)(q := Suc (avail s q))\<rparr>)"

definition readers_plus :: "32 word \<Rightarrow> pc \<Rightarrow> pm_state \<Rightarrow> (pc \<times> pm_state) option" where
  "readers_plus n ok s = Some (ok, s\<lparr>cnt := (cnt s)\<lparr>reader_count := reader_count (cnt s) + n\<rparr>\<rparr>)"

definition writers_plus :: "32 word \<Rightarrow> pc \<Rightarrow> pm_state \<Rightarrow> (pc \<times> pm_state) option" where
  "writers_plus n ok s = Some (ok, s\<lparr>cnt := (cnt s)\<lparr>writer_count := writer_count (cnt s) + n\<rparr>\<rparr>)"

text \<open>The next step of thread \<open>t\<close> at a program point, \<open>None\<close> while it waits. With \<open>fails\<close> a lock
  operation throws, and the thread goes on with the unwinding (\<open>F\<close>) or with the handler of
  \<^verbatim>\<open>wrlock\<close> (\<open>X\<close>).\<close>

fun pm_exec :: "bool \<Rightarrow> tid \<Rightarrow> pc \<Rightarrow> pm_state \<Rightarrow> (pc \<times> pm_state) option" where
  "pm_exec fails t R_m3 s = lock_m fails t m3 R_r Idle s"
| "pm_exec fails t R_r s = lock_s fails r_sem_lock R_m1 F_um3 s"
| "pm_exec fails t R_m1 s = lock_m fails t m1 R_w F_ur s"
| "pm_exec fails t R_w s = (if reader_count (cnt s) + 1 = 1 then lock_s fails w_sem_lock R_inc F_um1 s else Some (R_inc, s))"
| "pm_exec fails t R_inc s = readers_plus 1 R_um1 s"
| "pm_exec fails t R_um1 s = unlock_m m1 R_ur s"
| "pm_exec fails t R_ur s = unlock_s r_sem_lock R_um3 s"
| "pm_exec fails t R_um3 s = unlock_m m3 Reading s"
| "pm_exec fails t F_um1 s = unlock_m m1 F_ur s"
| "pm_exec fails t F_ur s = unlock_s r_sem_lock F_um3 s"
| "pm_exec fails t F_um3 s = unlock_m m3 Idle s"
| "pm_exec fails t U_m1 s = lock_m fails t m1 U_w Reading s"
| "pm_exec fails t U_w s = (if reader_count (cnt s) - 1 = 0 then unlock_s w_sem_lock U_dec s else Some (U_dec, s))"
| "pm_exec fails t U_dec s = readers_plus (- 1) U_um1 s"
| "pm_exec fails t U_um1 s = unlock_m m1 Idle s"
| "pm_exec fails t W_m2 s = lock_m fails t m2 W_r Idle s"
| "pm_exec fails t W_r s = (if writer_count (cnt s) + 1 = 1 then lock_s fails r_sem_lock W_inc F_um2 s else Some (W_inc, s))"
| "pm_exec fails t W_inc s = writers_plus 1 W_um2 s"
| "pm_exec fails t W_um2 s = unlock_m m2 W_w s"
| "pm_exec fails t W_w s = lock_s fails w_sem_lock Writing X_m2 s"
| "pm_exec fails t F_um2 s = unlock_m m2 Idle s"
| "pm_exec fails t X_m2 s = lock_m fails t m2 X_dec Idle s"
| "pm_exec fails t X_dec s = writers_plus (- 1) X_um2 s"
| "pm_exec fails t X_um2 s = unlock_m m2 Idle s"
| "pm_exec fails t V_w s = unlock_s w_sem_lock V_m2 s"
| "pm_exec fails t V_m2 s = lock_m fails t m2 V_r Idle s"
| "pm_exec fails t V_r s = (if writer_count (cnt s) - 1 = 0 then unlock_s r_sem_lock V_dec s else Some (V_dec, s))"
| "pm_exec fails t V_dec s = writers_plus (- 1) V_um2 s"
| "pm_exec fails t V_um2 s = unlock_m m2 Idle s"
| "pm_exec fails t _ s = None"

text \<open>Threads of the set \<open>T\<close> call the four methods when they may and run interleaved.\<close>

inductive pm_step :: "tid set \<Rightarrow> pm_state \<times> (tid \<Rightarrow> pc) \<Rightarrow> pm_state \<times> (tid \<Rightarrow> pc) \<Rightarrow> bool" for T where
  call_rdlock: "t \<in> T \<Longrightarrow> pcs t = Idle \<Longrightarrow> pm_step T (s, pcs) (s, pcs(t := R_m3))"
| call_wrlock: "t \<in> T \<Longrightarrow> pcs t = Idle \<Longrightarrow> pm_step T (s, pcs) (s, pcs(t := W_m2))"
| call_rdunlock: "t \<in> T \<Longrightarrow> pcs t = Reading \<Longrightarrow> pm_step T (s, pcs) (s, pcs(t := U_m1))"
| call_wrunlock: "t \<in> T \<Longrightarrow> pcs t = Writing \<Longrightarrow> pm_step T (s, pcs) (s, pcs(t := V_w))"
| exec: "t \<in> T \<Longrightarrow> pm_exec fails t (pcs t) s = Some (p, s') \<Longrightarrow> pm_step T (s, pcs) (s', pcs(t := p))"

definition pm_init :: "pm_state \<times> (tid \<Rightarrow> pc)" where
  "pm_init = (\<lparr>owner = \<lambda>_. None, avail = \<lambda>_. 1, cnt = counters_new\<rparr>, \<lambda>_. Idle)"

inductive pm_reach :: "tid set \<Rightarrow> pm_state \<times> (tid \<Rightarrow> pc) \<Rightarrow> bool" for T where
  start: "pm_reach T pm_init"
| step: "pm_reach T x \<Longrightarrow> pm_step T x y \<Longrightarrow> pm_reach T y"

text \<open>One thread on its own, for a number of steps.\<close>

fun pm_run :: "nat \<Rightarrow> tid \<Rightarrow> pc \<times> pm_state \<Rightarrow> (pc \<times> pm_state) option" where
  "pm_run 0 t x = Some x"
| "pm_run (Suc n) t x = Option.bind (pm_exec False t (fst x) (snd x)) (pm_run n t)"

text \<open>The primitives on the state of the interleaved system.\<close>

definition pm_prims :: "tid \<Rightarrow> ((pm_mutex \<Rightarrow> tid option) \<times> (pm_sem \<Rightarrow> nat)) prims" where
  "pm_prims t = \<lparr>
     mutex_lock = \<lambda>m x. if fst x m = None then Done () ((fst x)(m := Some t), snd x) else Waits x,
     mutex_unlock = \<lambda>m x. if fst x m = Some t then Done () ((fst x)(m := None), snd x) else Crash LockNotOwned,
     semaphore_lock = \<lambda>q x. if 0 < snd x q then Done () (fst x, (snd x)(q := snd x q - 1)) else Waits x,
     semaphore_unlock = \<lambda>q x. Done () (fst x, (snd x)(q := Suc (snd x q)))\<rparr>"

definition pm_join :: "((pm_mutex \<Rightarrow> tid option) \<times> (pm_sem \<Rightarrow> nat)) \<times> counters \<Rightarrow> pm_state" where
  "pm_join x = \<lparr>owner = fst (fst x), avail = snd (fst x), cnt = snd x\<rparr>"

section \<open>The invariant of the interleaved lock\<close>

definition counted :: "pc \<Rightarrow> bool" where
  "counted p \<longleftrightarrow> p \<in> {R_um1, R_ur, R_um3, Reading, U_m1, U_w, U_dec}"

definition in_m1 :: "pc \<Rightarrow> bool" where
  "in_m1 p \<longleftrightarrow> p \<in> {R_w, R_inc, R_um1, U_w, U_dec, U_um1, F_um1}"

definition has_w :: "pc \<Rightarrow> bool" where
  "has_w p \<longleftrightarrow> p \<in> {Writing, V_w}"

definition readers :: "(tid \<Rightarrow> pc) \<Rightarrow> tid set" where
  "readers pcs = {t. counted (pcs t)}"

definition writers :: "(tid \<Rightarrow> pc) \<Rightarrow> tid set" where
  "writers pcs = {t. has_w (pcs t)}"

text \<open>Whether the readers together hold the semaphore \<^verbatim>\<open>w\<close>, from their number and the program point
  of the thread inside the section of \<^verbatim>\<open>m1\<close>.\<close>

fun readers_hold :: "nat \<Rightarrow> pc option \<Rightarrow> bool" where
  "readers_hold n (Some R_inc) = True"
| "readers_hold n (Some U_dec) = (1 < n)"
| "readers_hold n _ = (0 < n)"

definition pm_inv :: "tid set \<Rightarrow> pm_state \<times> (tid \<Rightarrow> pc) \<Rightarrow> bool" where
  "pm_inv T x = (case x of (s, pcs) \<Rightarrow>
     (\<forall>t. t \<notin> T \<longrightarrow> pcs t = Idle) \<and> (\<forall>t. in_m1 (pcs t) \<longleftrightarrow> owner s m1 = Some t)
   \<and> reader_count (cnt s) = of_nat (card (readers pcs))
   \<and> avail s w_sem_lock + (if readers_hold (card (readers pcs)) (map_option pcs (owner s m1)) then 1 else 0)
       + card (writers pcs) = 1)"

lemmas pc_classes = counted_def in_m1_def has_w_def

lemmas pm_exec_defs = lock_m_def lock_s_def unlock_m_def unlock_s_def readers_plus_def writers_plus_def

lemma threads_finite:
  assumes "finite T" "\<forall>t. t \<notin> T \<longrightarrow> pcs t = Idle"
  shows "finite (readers pcs)" "finite (writers pcs)" "card (readers pcs) \<le> card T"
proof -
  have "readers pcs \<subseteq> T" "writers pcs \<subseteq> T"
    using assms(2) by (fastforce simp: readers_def writers_def pc_classes)+
  then show "finite (readers pcs)" "finite (writers pcs)" "card (readers pcs) \<le> card T"
    using assms(1) by (auto intro: finite_subset card_mono)
qed

lemma card_class_upd:
  assumes "finite {t. P (pcs t)}"
  shows "card {u. P ((pcs(t := p)) u)} + (if P (pcs t) then 1 else 0) = card {t. P (pcs t)} + (if P p then 1 else 0)"
proof -
  have "{u. P ((pcs(t := p)) u)} = (if P p then insert t {t. P (pcs t)} else {t. P (pcs t)} - {t})" by auto
  with assms show ?thesis
    by (auto simp: card_insert_if card_Diff_singleton_if) (metis One_nat_def Suc_pred card_gt_0_iff empty_iff mem_Collect_eq)
qed

lemma card_readers_upd:
  "finite (readers pcs) \<Longrightarrow>
   card (readers (pcs(t := p))) + (if counted (pcs t) then 1 else 0) = card (readers pcs) + (if counted p then 1 else 0)"
  unfolding readers_def by (rule card_class_upd)

lemma card_writers_upd:
  "finite (writers pcs) \<Longrightarrow>
   card (writers (pcs(t := p))) + (if has_w (pcs t) then 1 else 0) = card (writers pcs) + (if has_w p then 1 else 0)"
  unfolding writers_def by (rule card_class_upd)

lemma count_tests:
  assumes "n < 2 ^ 32"
  shows "of_nat n + 1 = (1 :: 32 word) \<longleftrightarrow> n = 0" "of_nat n - 1 = (0 :: 32 word) \<longleftrightarrow> n = 1"
proof -
  have "of_nat n = (of_nat k :: 32 word) \<longleftrightarrow> n = k" if "k < 2 ^ 32" for k
    using assms that by (simp add: word_of_nat_eq_iff take_bit_nat_eq_self)
  from this[of 0] this[of 1] show "of_nat n + 1 = (1 :: 32 word) \<longleftrightarrow> n = 0" "of_nat n - 1 = (0 :: 32 word) \<longleftrightarrow> n = 1"
    by auto
qed

text \<open>What a step of thread \<open>t\<close> to program point \<open>p\<close> has to show.\<close>

lemma pm_inv_step:
  assumes "finite T" "card T < 2 ^ 32" "t \<in> T" "pm_inv T (s, pcs)"
    and "in_m1 p \<longleftrightarrow> owner s' m1 = Some t" "\<And>u. u \<noteq> t \<Longrightarrow> owner s' m1 = Some u \<longleftrightarrow> owner s m1 = Some u"
    and "\<And>n k. n + (if counted (pcs t) then 1 else 0) = card (readers pcs) + (if counted p then 1 else 0) \<Longrightarrow>
      k + (if has_w (pcs t) then 1 else 0) = card (writers pcs) + (if has_w p then 1 else 0) \<Longrightarrow>
      card (readers pcs) < 2 ^ 32 \<Longrightarrow>
      reader_count (cnt s') = of_nat n \<and>
      avail s' w_sem_lock + (if readers_hold n (map_option (pcs(t := p)) (owner s' m1)) then 1 else 0) + k = 1"
  shows "pm_inv T (s', pcs(t := p))"
proof -
  have T: "\<forall>u. u \<notin> T \<longrightarrow> pcs u = Idle" and m: "\<forall>u. in_m1 (pcs u) \<longleftrightarrow> owner s m1 = Some u"
    using assms(4) by (simp_all add: pm_inv_def)
  note fin = threads_finite[OF assms(1) T]
  have "in_m1 ((pcs(t := p)) u) \<longleftrightarrow> owner s' m1 = Some u" for u
    using assms(5) assms(6)[of u] m by (cases "u = t") simp_all
  moreover have "card (readers pcs) < 2 ^ 32" using fin(3) assms(2) by simp
  from assms(7)[OF card_readers_upd[OF fin(1)] card_writers_upd[OF fin(2)] this]
  have "reader_count (cnt s') = of_nat (card (readers (pcs(t := p))))"
    "avail s' w_sem_lock + (if readers_hold (card (readers (pcs(t := p)))) (map_option (pcs(t := p)) (owner s' m1)) then 1 else 0)
      + card (writers (pcs(t := p))) = 1" by simp_all
  ultimately show ?thesis using T assms(3) by (simp add: pm_inv_def)
qed

text \<open>A step that concerns neither \<^verbatim>\<open>m1\<close>, nor \<^verbatim>\<open>w\<close>, nor the number of readers.\<close>

lemma pm_inv_frame:
  assumes "finite T" "card T < 2 ^ 32" "t \<in> T" "pm_inv T (s, pcs)"
    and "counted p = counted (pcs t)" "has_w p = has_w (pcs t)" "\<not> in_m1 p" "\<not> in_m1 (pcs t)"
    and "owner s' m1 = owner s m1" "avail s' w_sem_lock = avail s w_sem_lock" "reader_count (cnt s') = reader_count (cnt s)"
  shows "pm_inv T (s', pcs(t := p))"
proof (rule pm_inv_step[OF assms(1-4)])
  have "owner s m1 \<noteq> Some t" using assms(4,8) by (auto simp: pm_inv_def)
  then have "map_option (pcs(t := p)) (owner s' m1) = map_option pcs (owner s m1)"
    using assms(9) by (cases "owner s m1") auto
  with assms(4-6,9-11) show "n + (if counted (pcs t) then 1 else 0) = card (readers pcs) + (if counted p then 1 else 0) \<Longrightarrow>
      k + (if has_w (pcs t) then 1 else 0) = card (writers pcs) + (if has_w p then 1 else 0) \<Longrightarrow>
      card (readers pcs) < 2 ^ 32 \<Longrightarrow>
      reader_count (cnt s') = of_nat n \<and>
      avail s' w_sem_lock + (if readers_hold n (map_option (pcs(t := p)) (owner s' m1)) then 1 else 0) + k = 1" for n k
    by (simp add: pm_inv_def)
qed (use assms(4,7-9) in \<open>auto simp: pm_inv_def\<close>)

text \<open>The steps that do concern them keep the balance of the semaphore \<^verbatim>\<open>w\<close>: what is available, what
  the readers hold together and what the writers hold.\<close>

lemma pm_exec_balance:
  assumes ex: "pm_exec fails t (pcs t) s = Some (p, s')"
    and special: "in_m1 (pcs t) \<or> in_m1 p \<or> pcs t \<in> {W_w, V_w}"
    and own: "in_m1 (pcs t) \<longleftrightarrow> owner s m1 = Some t"
    and rc: "reader_count (cnt s) = of_nat N"
    and tests: "reader_count (cnt s) + 1 = 1 \<longleftrightarrow> N = 0" "reader_count (cnt s) - 1 = 0 \<longleftrightarrow> N = 1"
    and w: "avail s w_sem_lock + (if readers_hold N (map_option pcs (owner s m1)) then 1 else 0) + K = 1"
    and n: "n + (if counted (pcs t) then 1 else 0) = N + (if counted p then 1 else 0)"
    and k: "k + (if has_w (pcs t) then 1 else 0) = K + (if has_w p then 1 else 0)"
  shows "reader_count (cnt s') = of_nat n
    \<and> avail s' w_sem_lock + (if readers_hold n (map_option (pcs(t := p)) (owner s' m1)) then 1 else 0) + k = 1"
proof (cases "pcs t \<in> {W_w, V_w}")
  case True
  then have "owner s m1 \<noteq> Some t" using own by (auto simp: in_m1_def)
  then have same: "map_option (pcs(t := q)) (owner s m1) = map_option pcs (owner s m1)" for q by (cases "owner s m1") auto
  show ?thesis
  proof (cases "pcs t = W_w")
    case W: True
    show ?thesis using ex n k w same rc unfolding W by (auto simp: pc_classes pm_exec_defs split: if_splits)
  next
    case False
    with True have V: "pcs t = V_w" by simp
    show ?thesis using ex n k w same rc unfolding V by (auto simp: pc_classes pm_exec_defs split: if_splits)
  qed
next
  case False
  with special ex consider
      (locks) "pcs t = R_m1 \<and> p = R_w \<or> pcs t = U_m1 \<and> p = U_w" "owner s m1 = None"
    | (tests_w) "pcs t = R_w \<or> pcs t = U_w"
    | (moves) "pcs t = R_inc \<or> pcs t = R_um1 \<or> pcs t = U_dec \<or> pcs t = U_um1 \<or> pcs t = F_um1"
    by (cases "pcs t") (auto simp: in_m1_def pm_exec_defs split: if_splits)
  then show ?thesis
  proof cases
    case locks
    from locks(1) show ?thesis
      using ex n k w rc locks(2) by (elim disjE conjE) (auto simp: pc_classes pm_exec_defs split: if_splits)
  next
    case tests_w
    then have "owner s m1 = Some t" using own by (auto simp: in_m1_def)
    with tests_w show ?thesis
      using ex n k w rc tests by (elim disjE) (auto simp: pc_classes pm_exec_defs split: if_splits)
  next
    case moves
    then have "owner s m1 = Some t" using own by (auto simp: in_m1_def)
    with moves show ?thesis
      using ex n k w rc by (elim disjE) (auto simp: pc_classes pm_exec_defs split: if_splits)
  qed
qed

lemma pm_inv_exec:
  assumes T: "finite T" "card T < 2 ^ 32" "t \<in> T" and inv: "pm_inv T (s, pcs)"
    and ex: "pm_exec fails t (pcs t) s = Some (p, s')"
  shows "pm_inv T (s', pcs(t := p))"
proof -
  have m: "in_m1 (pcs u) \<longleftrightarrow> owner s m1 = Some u" for u using inv by (simp add: pm_inv_def)
  have rc: "reader_count (cnt s) = of_nat (card (readers pcs))" using inv by (simp add: pm_inv_def)
  have w: "avail s w_sem_lock + (if readers_hold (card (readers pcs)) (map_option pcs (owner s m1)) then 1 else 0)
      + card (writers pcs) = 1" using inv by (simp add: pm_inv_def)
  show ?thesis
  proof (cases "in_m1 (pcs t) \<or> in_m1 p \<or> pcs t \<in> {W_w, V_w}")
    case False
    with ex have "counted p = counted (pcs t) \<and> has_w p = has_w (pcs t) \<and> owner s' m1 = owner s m1
        \<and> avail s' w_sem_lock = avail s w_sem_lock \<and> reader_count (cnt s') = reader_count (cnt s)"
      by (cases "pcs t"; auto simp: pc_classes pm_exec_defs split: if_splits)
    with False show ?thesis by (intro pm_inv_frame[OF T inv]) simp_all
  next
    case True
    have o: "pcs t = R_w \<or> pcs t = R_inc \<or> pcs t = R_um1 \<or> pcs t = U_w \<or> pcs t = U_dec \<or> pcs t = U_um1 \<or> pcs t = F_um1
        \<Longrightarrow> owner s m1 = Some t" using m[of t] by (auto simp: in_m1_def)
    show ?thesis
      apply (rule pm_inv_step[OF T inv])
      subgoal using True ex o m[of t] by (cases "pcs t"; auto simp: pc_classes pm_exec_defs split: if_splits)
      subgoal for u using True ex o m[of t] by (cases "pcs t"; auto simp: pc_classes pm_exec_defs split: if_splits)
      subgoal for n k
        using pm_exec_balance[of fails t pcs s p s' "card (readers pcs)" "card (writers pcs)" n k] ex True m[of t] w rc
          count_tests[of "card (readers pcs)"] by simp
      done
  qed
qed

lemma pm_inv_init: "pm_inv T pm_init"
  by (simp add: pm_inv_def pm_init_def readers_def writers_def pc_classes counters_new_def)

lemma pm_reach_inv:
  assumes "finite T" "card T < 2 ^ 32" "pm_reach T x"
  shows "pm_inv T x"
  using assms(3)
proof (induction rule: pm_reach.induct)
  case start
  show ?case by (rule pm_inv_init)
next
  case (step x y)
  from step.hyps(2) step.IH show ?case
  proof (cases rule: pm_step.cases)
    case (exec t fails pcs s p s')
    with pm_inv_exec[OF assms(1,2)] step.IH show ?thesis by simp
  qed (auto intro!: pm_inv_frame[OF assms(1,2)] simp: pc_classes)
qed

lemma pm_inv_exclusive:
  assumes "finite T" "pm_inv T (s, pcs)" "pcs t = Writing"
  shows "(\<forall>u. u \<noteq> t \<longrightarrow> pcs u \<noteq> Writing) \<and> (\<forall>u. pcs u \<noteq> Reading)"
proof -
  have T: "\<forall>u. u \<notin> T \<longrightarrow> pcs u = Idle" using assms(2) by (simp add: pm_inv_def)
  note fin = threads_finite[OF assms(1) T]
  have t: "t \<in> writers pcs" using assms(3) by (simp add: writers_def has_w_def)
  then have "0 < card (writers pcs)" using fin(2) by (auto simp: card_gt_0_iff)
  then have w: "card (writers pcs) = 1" "\<not> readers_hold (card (readers pcs)) (map_option pcs (owner s m1))"
    using assms(2) by (auto simp: pm_inv_def split: if_splits)
  have "pcs u \<noteq> Writing" if "u \<noteq> t" for u
  proof
    assume "pcs u = Writing"
    then have "{t, u} \<subseteq> writers pcs" using t by (simp add: writers_def has_w_def)
    from card_mono[OF fin(2) this] w(1) that show False by simp
  qed
  moreover have "pcs u \<noteq> Reading" for u
  proof
    assume u: "pcs u = Reading"
    then have ur: "u \<in> readers pcs" by (simp add: readers_def counted_def)
    then have "0 < card (readers pcs)" using fin(1) by (auto simp: card_gt_0_iff)
    with w(2) obtain v where v: "pcs v = U_dec" "card (readers pcs) \<le> 1"
      by (cases "(card (readers pcs), map_option pcs (owner s m1))" rule: readers_hold.cases) auto
    have "v \<in> readers pcs" using v(1) by (simp add: readers_def counted_def)
    with ur have "{u, v} \<subseteq> readers pcs" by simp
    from card_mono[OF fin(1) this] v u show False by (cases "u = v") auto
  qed
  ultimately show ?thesis by blast
qed

section \<open>The two forms of the methods agree\<close>

lemma pm_prims_simps [simp]:
  "mutex_lock (pm_prims t) m x = (if fst x m = None then Done () ((fst x)(m := Some t), snd x) else Waits x)"
  "mutex_unlock (pm_prims t) m x = (if fst x m = Some t then Done () ((fst x)(m := None), snd x) else Crash LockNotOwned)"
  "semaphore_lock (pm_prims t) q x = (if 0 < snd x q then Done () (fst x, (snd x)(q := snd x q - 1)) else Waits x)"
  "semaphore_unlock (pm_prims t) q x = Done () (fst x, (snd x)(q := Suc (snd x q)))"
  by (simp_all add: pm_prims_def)

lemma pm_mutex_guard:
  "mutex_guard (pm_prims t) m body (x, c) =
     (if fst x m = None then finallyR body (on_prims (mutex_unlock (pm_prims t) m)) (((fst x)(m := Some t), snd x), c)
      else Waits (x, c))"
  by (simp add: mutex_guard_def with_guard_plain with_guard_not_locked on_prims_def)

lemma pm_semaphore_guard:
  "semaphore_guard (pm_prims t) q body (x, c) =
     (if 0 < snd x q then finallyR body (on_prims (semaphore_unlock (pm_prims t) q)) ((fst x, (snd x)(q := snd x q - 1)), c)
      else Waits (x, c))"
  by (simp add: semaphore_guard_def with_guard_plain with_guard_not_locked on_prims_def)

lemmas pm_seq_defs = pm_mutex_guard pm_semaphore_guard on_prims_def seqR_def finallyR_def catchR_def
  add_readers_def add_writers_def pm_join_def

lemma pm_rdlock_run:
  "pm_rdlock (pm_prims t) x = Done () x' \<Longrightarrow> pm_run 8 t (R_m3, pm_join x) = Some (Reading, pm_join x')"
  by (cases x) (auto simp: pm_rdlock_def pm_seq_defs pm_exec_defs eval_nat_numeral split: if_splits)

lemma pm_rdunlock_run:
  "pm_rdunlock (pm_prims t) x = Done () x' \<Longrightarrow> pm_run 4 t (U_m1, pm_join x) = Some (Idle, pm_join x')"
  by (cases x) (auto simp: pm_rdunlock_def pm_seq_defs pm_exec_defs eval_nat_numeral split: if_splits)

lemma pm_wrlock_run:
  "pm_wrlock (pm_prims t) x = Done () x' \<Longrightarrow> pm_run 5 t (W_m2, pm_join x) = Some (Writing, pm_join x')"
  by (cases x) (auto simp: pm_wrlock_def pm_seq_defs pm_exec_defs eval_nat_numeral split: if_splits)

lemma pm_wrunlock_run:
  "pm_wrunlock (pm_prims t) x = Done () x' \<Longrightarrow> pm_run 5 t (V_w, pm_join x) = Some (Idle, pm_join x')"
  by (cases x) (auto simp: pm_wrunlock_def pm_seq_defs pm_exec_defs eval_nat_numeral split: if_splits)

lemma pm_run_reach:
  assumes "pm_run n t (pcs t, s) = Some (p, s')" "pm_reach T (s, pcs)" "t \<in> T"
  shows "pm_reach T (s', pcs(t := p))"
  using assms
proof (induction n arbitrary: s pcs)
  case (Suc n)
  then obtain p1 s1 where x: "pm_exec False t (pcs t) s = Some (p1, s1)" "pm_run n t (p1, s1) = Some (p, s')"
    by (auto simp: bind_eq_Some_conv)
  have reach: "pm_reach T (s1, pcs(t := p1))"
    by (rule pm_reach.step[OF Suc.prems(2) pm_step.exec[where pcs = pcs, OF Suc.prems(3) x(1)]])
  have run: "pm_run n t ((pcs(t := p1)) t, s1) = Some (p, s')" using x(2) by simp
  from Suc.IH[OF run reach Suc.prems(3)] show ?case by (simp only: fun_upd_upd)
qed auto

text \<open>A lock whose members have just been made, and one whose only writer gave up.\<close>

definition pm_fresh :: "nat \<Rightarrow> px_world \<Rightarrow> bool" where
  "pm_fresh a w \<longleftrightarrow> (\<forall>m. \<exists>x. px_mutex w (m_addr a m) = Some x \<and> mx_owner x = None) \<and> (\<forall>q. px_sem w (s_addr a q) = Some 1)"

lemma addr_distinct [simp]:
  "m_addr a m = m_addr a m' \<longleftrightarrow> m = m'" "s_addr a q = s_addr a q' \<longleftrightarrow> q = q'"
  by (cases m; cases m'; simp add: m_addr_def) (cases q; cases q'; simp add: s_addr_def)

lemma px_prims_simps [simp]:
  "mutex_lock (px_prims os t a) m = px_Mutex_lock os t (m_addr a m)"
  "mutex_unlock (px_prims os t a) m = px_Mutex_unlock os t (m_addr a m)"
  "semaphore_lock (px_prims os t a) q = px_Semaphore_lock os (s_addr a q)"
  "semaphore_unlock (px_prims os t a) q = px_Semaphore_unlock os (s_addr a q)"
  by (simp_all add: px_prims_def)

section \<open>Properties\<close>

text \<open>C27. The portable read-write lock excludes: however its methods are interleaved, and whichever of
  their lock operations fail, while one thread writes no other thread writes and no thread reads.\<close>

theorem shared_mutex_exclusive:
  assumes "finite T" "card T < 2 ^ 32" "pm_reach T (s, pcs)" "pcs t = Writing"
  shows "(\<forall>u. u \<noteq> t \<longrightarrow> pcs u \<noteq> Writing) \<and> (\<forall>u. pcs u \<noteq> Reading)"
  by (rule pm_inv_exclusive[OF assms(1) pm_reach_inv[OF assms(1-3)] assms(4)])

theorem shared_mutex_exclusive_witness:
  "\<exists>s pcs. pm_reach {1, 2} (s, pcs) \<and> pcs 1 = Writing \<and> (\<forall>u. pcs u \<noteq> Reading)"
proof -
  obtain s0 pcs0 where i: "pm_init = (s0, pcs0)" "pcs0 = (\<lambda>_. Idle)" by (auto simp: pm_init_def)
  have "pm_reach {1, 2} (s0, pcs0(1 := W_m2))"
    by (rule pm_reach.step[OF _ pm_step.call_wrlock]) (use pm_reach.start[of "{1, 2}"] i in auto)
  moreover have "pm_run 5 1 (W_m2, s0) = Some (Writing, s0\<lparr>avail := \<lambda>_. 0, cnt := \<lparr>writer_count = 1, reader_count = 0\<rparr>\<rparr>)"
  proof -
    have "(\<lambda>_. 1 :: nat)(r_sem_lock := 0, w_sem_lock := 0) = (\<lambda>_. 0)"
    proof
      show "((\<lambda>_. 1 :: nat)(r_sem_lock := 0, w_sem_lock := 0)) q = 0" for q by (cases q) simp_all
    qed
    with i(1) show ?thesis by (auto simp: pm_init_def pm_exec_defs eval_nat_numeral counters_new_def)
  qed
  ultimately have r: "pm_reach {1, 2} (s0\<lparr>avail := \<lambda>_. 0, cnt := \<lparr>writer_count = 1, reader_count = 0\<rparr>\<rparr>, pcs0(1 := W_m2, 1 := Writing))"
    using pm_run_reach[of 5 1 "pcs0(1 := W_m2)" s0 Writing _ "{1, 2}"] by simp
  have "(\<forall>u. u \<noteq> 1 \<longrightarrow> (pcs0(1 := W_m2, 1 := Writing)) u \<noteq> Writing) \<and> (\<forall>u. (pcs0(1 := W_m2, 1 := Writing)) u \<noteq> Reading)"
    by (rule shared_mutex_exclusive[OF _ _ r]) simp_all
  with r show ?thesis by (metis fun_upd_same)
qed

text \<open>The methods, run undisturbed, are paths of the interleaved system. So, on a reachable state,
  \<^verbatim>\<open>rdlock\<close> does not return while another thread writes, and \<^verbatim>\<open>wrlock\<close> does not return while another
  thread reads or writes.\<close>

lemma shared_mutex_methods:
  assumes "finite T" "card T < 2 ^ 32" "pm_reach T (pm_join x, pcs)" "t \<in> T" "pcs t = Idle"
  shows "(pm_rdlock (pm_prims t) x = Done () x' \<longrightarrow> pm_reach T (pm_join x', pcs(t := Reading)) \<and> (\<forall>u. pcs u \<noteq> Writing))
    \<and> (pm_wrlock (pm_prims t) x = Done () x' \<longrightarrow> pm_reach T (pm_join x', pcs(t := Writing))
         \<and> (\<forall>u. pcs u \<noteq> Writing \<and> pcs u \<noteq> Reading))"
proof (intro conjI impI)
  have rd: "pm_reach T (pm_join x, pcs(t := R_m3))" and wr: "pm_reach T (pm_join x, pcs(t := W_m2))"
    by (auto intro: pm_reach.step[OF assms(3)] pm_step.call_rdlock pm_step.call_wrlock assms(4,5))
  show r: "pm_reach T (pm_join x', pcs(t := Reading))" if "pm_rdlock (pm_prims t) x = Done () x'"
    using pm_run_reach[of 8 t "pcs(t := R_m3)" "pm_join x" Reading "pm_join x'" T] pm_rdlock_run[OF that] rd assms(4) by simp
  show w: "pm_reach T (pm_join x', pcs(t := Writing))" if "pm_wrlock (pm_prims t) x = Done () x'"
    using pm_run_reach[of 5 t "pcs(t := W_m2)" "pm_join x" Writing "pm_join x'" T] pm_wrlock_run[OF that] wr assms(4) by simp
  show "\<forall>u. pcs u \<noteq> Writing" if rdl: "pm_rdlock (pm_prims t) x = Done () x'"
  proof (intro allI notI)
    fix u assume "pcs u = Writing"
    then have "(pcs(t := Reading)) u = Writing" using assms(5) by auto
    from pm_inv_exclusive[OF assms(1) pm_reach_inv[OF assms(1,2) r[OF rdl]] this] show False
      by (metis fun_upd_same)
  qed
  show "\<forall>u. pcs u \<noteq> Writing \<and> pcs u \<noteq> Reading" if "pm_wrlock (pm_prims t) x = Done () x'"
  proof
    fix u
    have "(\<forall>u. u \<noteq> t \<longrightarrow> (pcs(t := Writing)) u \<noteq> Writing) \<and> (\<forall>u. (pcs(t := Writing)) u \<noteq> Reading)"
      by (rule pm_inv_exclusive[OF assms(1) pm_reach_inv[OF assms(1,2) w[OF that]]]) simp
    then have "u \<noteq> t \<Longrightarrow> pcs u \<noteq> Writing \<and> pcs u \<noteq> Reading" by (metis fun_upd_other)
    then show "pcs u \<noteq> Writing \<and> pcs u \<noteq> Reading" using assms(5) by (cases "u = t") auto
  qed
qed

text \<open>C28. When \<^verbatim>\<open>wrlock\<close> cannot take the semaphore \<^verbatim>\<open>w\<close>, its handler takes the writer out of the count
  but does not give the semaphore \<^verbatim>\<open>r\<close> back, which the first writer has taken: with no reader and no
  writer about, every later \<^verbatim>\<open>rdlock\<close> waits.\<close>

theorem failed_writer_blocks_readers:
  assumes "pm_fresh a w" "writer_count c = 0"
    and "\<forall>cs. px_ret os (sem_wait_call (s_addr a w_sem_lock)) cs \<noteq> 0"
    and "\<forall>x cs. x \<noteq> sem_wait_call (s_addr a w_sem_lock) \<longrightarrow> px_ret os x cs = 0"
  shows "\<exists>w'. pm_wrlock (px_prims os t a) (w, c) = Thrown ''Semaphore::lock'' (w', c)
    \<and> (\<exists>w''. pm_rdlock (px_prims calm_px u a) (w', c) = Waits w'')"
proof -
  have q: "px_sem w (s_addr a r_sem_lock) = Some 1" "px_sem w (s_addr a w_sem_lock) = Some 1"
    using assms(1) by (simp_all add: pm_fresh_def)
  obtain x where x: "px_mutex w (m_addr a m2) = Some x" "mx_owner x = None" using assms(1) by (auto simp: pm_fresh_def)
  have ok: "\<forall>cs. px_ret os (mutex_lock_call (m_addr a m)) cs = 0 \<and> px_ret os (mutex_unlock_call (m_addr a m)) cs = 0" for m
    using assms(4) by simp
  obtain y where y: "px_mutex w (m_addr a m3) = Some y" "mx_owner y = None" using assms(1) by (auto simp: pm_fresh_def)
  have "\<exists>w'. pm_wrlock (px_prims os t a) (w, c) = Thrown ''Semaphore::lock'' (w', c)
      \<and> px_sem w' (s_addr a r_sem_lock) = Some 0 \<and> px_mutex w' (m_addr a m3) = Some y"
    using x y q assms(2-4)
    by (simp add: pm_wrlock_def mutex_guard_def with_guard_plain on_prims_def px_Mutex_lock_run px_Mutex_unlock_run
      px_Semaphore_lock_run mutex_taken_def mutex_left_def add_writers_def)
  then obtain w' where w': "pm_wrlock (px_prims os t a) (w, c) = Thrown ''Semaphore::lock'' (w', c)"
    "px_sem w' (s_addr a r_sem_lock) = Some 0" "px_mutex w' (m_addr a m3) = Some y" by blast
  have "\<exists>w''. pm_rdlock (px_prims calm_px u a) (w', c) = Waits w''"
    using w'(2,3) y(2)
    by (simp add: pm_rdlock_def mutex_guard_def semaphore_guard_def with_guard_plain with_guard_not_locked on_prims_def
      px_Mutex_lock_run px_Semaphore_lock_run mutex_taken_def calm_px_def)
  with w'(1) show ?thesis by blast
qed

theorem failed_writer_blocks_readers_witness:
  "\<exists>w'. pm_wrlock (px_prims (calm_px\<lparr>px_ret := \<lambda>x _. if x = sem_wait_call 3 then 4 else 0\<rparr>) 1 0)
      (px_world_new\<lparr>px_mutex := \<lambda>_. Some \<lparr>mx_type = PTHREAD_MUTEX_DEFAULT, mx_owner = None, mx_depth = 0\<rparr>, px_sem := \<lambda>_. Some 1\<rparr>,
       counters_new) = Thrown ''Semaphore::lock'' (w', counters_new)
    \<and> (\<exists>w''. pm_rdlock (px_prims calm_px 2 0) (w', counters_new) = Waits w'')"
  by (rule failed_writer_blocks_readers) (simp_all add: pm_fresh_def counters_new_def s_addr_def)

end
