(* ===== verification/L4_Public.thy ===== *)
theory L4_Public
  imports L4_Pthreads
begin

text \<open>
  The public synchronisation classes of log4cplus, \<^verbatim>\<open>thread/syncprims-pub-impl.h\<close>, in a build with
  the POSIX implementation. A public object holds a pointer to an implementation object on the heap;
  every method forwards to it. In a single-threaded build (\<^verbatim>\<open>LOG4CPLUS_SINGLE_THREADED\<close>, here
  \<open>threaded = False\<close>) the macro \<^verbatim>\<open>LOG4CPLUS_THREADED\<close> drops its argument, so the pointer is null and
  the methods do nothing.
\<close>

section \<open>Implementation objects on the heap\<close>

datatype impl_class = impl_Mutex | impl_Semaphore | impl_FairMutex | impl_ManualResetEvent | impl_SharedMutex

record pub_state =
  pub_world :: px_world
  pub_heap :: "nat \<rightharpoonup> impl_class"
  pub_next :: nat

type_synonym 'a pub_act = "('a, pub_state) act"

text \<open>A call on the implementation object, in the world of kernel objects.\<close>

definition on_world :: "('a, px_world) act \<Rightarrow> 'a pub_act" where
  "on_world f s = (case f (pub_world s) of
     Done x w \<Rightarrow> Done x (s\<lparr>pub_world := w\<rparr>) | Thrown e w \<Rightarrow> Thrown e (s\<lparr>pub_world := w\<rparr>)
   | Waits w \<Rightarrow> Waits (s\<lparr>pub_world := w\<rparr>) | Crash e \<Rightarrow> Crash e)"

text \<open>\<^verbatim>\<open>LOG4CPLUS_THREADED (new impl::C (...)) + 0\<close>: storage for the object and the constructor, which
  gives the storage back when it throws. An event uses two addresses.\<close>

definition threaded_new :: "bool \<Rightarrow> impl_class \<Rightarrow> (nat \<Rightarrow> (unit, px_world) act) \<Rightarrow> nat option pub_act" where
  "threaded_new threaded c ctor s =
     (if threaded then
        let a = pub_next s; s1 = s\<lparr>pub_heap := (pub_heap s)(a \<mapsto> c), pub_next := a + 2\<rparr> in
        catchR (seqR (on_world (ctor a)) (\<lambda>_. Done (Some a)))
          (\<lambda>e s'. Thrown e (s'\<lparr>pub_heap := (pub_heap s')(a := None)\<rparr>)) s1
      else Done None s)"

definition impl_call :: "impl_class \<Rightarrow> nat option \<Rightarrow> (nat \<Rightarrow> ('a, px_world) act) \<Rightarrow> 'a pub_act" where
  "impl_call c p f s = (case p of
     None \<Rightarrow> Crash NullDeref
   | Some a \<Rightarrow> if pub_heap s a = Some c then on_world (f a) s else Crash DanglingPtr)"

text \<open>\<^verbatim>\<open>LOG4CPLUS_THREADED (static_cast<impl::C *>(p)->f ())\<close>.\<close>

definition threaded_call :: "bool \<Rightarrow> impl_class \<Rightarrow> nat option \<Rightarrow> (nat \<Rightarrow> (unit, px_world) act) \<Rightarrow> unit pub_act" where
  "threaded_call threaded c p f = (if threaded then impl_call c p f else Done ())"

text \<open>\<^verbatim>\<open>LOG4CPLUS_THREADED (delete static_cast<impl::C *>(p))\<close>; deleting a null pointer does nothing.\<close>

definition threaded_delete :: "bool \<Rightarrow> impl_class \<Rightarrow> nat option \<Rightarrow> (nat \<Rightarrow> (unit, px_world) act) \<Rightarrow> unit pub_act" where
  "threaded_delete threaded c p dtor =
     (if threaded then (case p of
        None \<Rightarrow> Done ()
      | Some a \<Rightarrow> seqR (impl_call c p dtor) (\<lambda>_ s. Done () (s\<lparr>pub_heap := (pub_heap s)(a := None)\<rparr>)))
      else Done ())"

section \<open>Mutex\<close>

record Mutex =
  mtx_impl :: "nat option"

definition Mutex_ctor :: "bool \<Rightarrow> px_os \<Rightarrow> Mutex_Type \<Rightarrow> Mutex pub_act" where
  "Mutex_ctor threaded os t = seqR (threaded_new threaded impl_Mutex (px_Mutex_ctor os t)) (\<lambda>p. Done \<lparr>mtx_impl = p\<rparr>)"

definition Mutex_dtor :: "bool \<Rightarrow> px_os \<Rightarrow> Mutex \<Rightarrow> unit pub_act" where
  "Mutex_dtor threaded os m = threaded_delete threaded impl_Mutex (mtx_impl m) (px_Mutex_dtor os)"

definition Mutex_lock :: "bool \<Rightarrow> px_os \<Rightarrow> tid \<Rightarrow> Mutex \<Rightarrow> unit pub_act" where
  "Mutex_lock threaded os t m = threaded_call threaded impl_Mutex (mtx_impl m) (px_Mutex_lock os t)"

definition Mutex_unlock :: "bool \<Rightarrow> px_os \<Rightarrow> tid \<Rightarrow> Mutex \<Rightarrow> unit pub_act" where
  "Mutex_unlock threaded os t m = threaded_call threaded impl_Mutex (mtx_impl m) (px_Mutex_unlock os t)"

section \<open>Semaphore\<close>

record Semaphore =
  sem_impl :: "nat option"

definition Semaphore_ctor :: "bool \<Rightarrow> px_os \<Rightarrow> 32 word \<Rightarrow> 32 word \<Rightarrow> Semaphore pub_act" where
  "Semaphore_ctor threaded os mx initial =
     seqR (threaded_new threaded impl_Semaphore (px_Semaphore_ctor False os mx initial)) (\<lambda>p. Done \<lparr>sem_impl = p\<rparr>)"

definition Semaphore_dtor :: "bool \<Rightarrow> px_os \<Rightarrow> Semaphore \<Rightarrow> unit pub_act" where
  "Semaphore_dtor threaded os x = threaded_delete threaded impl_Semaphore (sem_impl x) (px_Semaphore_dtor False os)"

definition Semaphore_lock :: "bool \<Rightarrow> px_os \<Rightarrow> Semaphore \<Rightarrow> unit pub_act" where
  "Semaphore_lock threaded os x = threaded_call threaded impl_Semaphore (sem_impl x) (px_Semaphore_lock os)"

definition Semaphore_unlock :: "bool \<Rightarrow> px_os \<Rightarrow> Semaphore \<Rightarrow> unit pub_act" where
  "Semaphore_unlock threaded os x = threaded_call threaded impl_Semaphore (sem_impl x) (px_Semaphore_unlock os)"

section \<open>FairMutex\<close>

record FairMutex =
  fair_mtx :: "nat option"

definition FairMutex_ctor :: "bool \<Rightarrow> px_os \<Rightarrow> FairMutex pub_act" where
  "FairMutex_ctor threaded os = seqR (threaded_new threaded impl_FairMutex (px_FairMutex_ctor False os)) (\<lambda>p. Done \<lparr>fair_mtx = p\<rparr>)"

definition FairMutex_dtor :: "bool \<Rightarrow> px_os \<Rightarrow> FairMutex \<Rightarrow> unit pub_act" where
  "FairMutex_dtor threaded os m = threaded_delete threaded impl_FairMutex (fair_mtx m) (px_FairMutex_dtor False os)"

definition FairMutex_lock :: "bool \<Rightarrow> px_os \<Rightarrow> FairMutex \<Rightarrow> unit pub_act" where
  "FairMutex_lock threaded os m = threaded_call threaded impl_FairMutex (fair_mtx m) (px_FairMutex_lock os)"

definition FairMutex_unlock :: "bool \<Rightarrow> px_os \<Rightarrow> FairMutex \<Rightarrow> unit pub_act" where
  "FairMutex_unlock threaded os m = threaded_call threaded impl_FairMutex (fair_mtx m) (px_FairMutex_unlock os)"

section \<open>ManualResetEvent\<close>

record ManualResetEvent =
  ev_impl :: "nat option"

definition ManualResetEvent_ctor :: "bool \<Rightarrow> px_os \<Rightarrow> bool \<Rightarrow> ManualResetEvent pub_act" where
  "ManualResetEvent_ctor threaded os sig =
     seqR (threaded_new threaded impl_ManualResetEvent (\<lambda>a. px_ManualResetEvent_ctor os sig (a + 1) a)) (\<lambda>p. Done \<lparr>ev_impl = p\<rparr>)"

definition ManualResetEvent_dtor :: "bool \<Rightarrow> px_os \<Rightarrow> ManualResetEvent \<Rightarrow> unit pub_act" where
  "ManualResetEvent_dtor threaded os e = threaded_delete threaded impl_ManualResetEvent (ev_impl e) (px_ManualResetEvent_dtor os)"

definition ManualResetEvent_signal :: "bool \<Rightarrow> px_os \<Rightarrow> tid \<Rightarrow> ManualResetEvent \<Rightarrow> unit pub_act" where
  "ManualResetEvent_signal threaded os t e = threaded_call threaded impl_ManualResetEvent (ev_impl e) (px_ManualResetEvent_signal os t)"

definition ManualResetEvent_wait :: "nat \<Rightarrow> bool \<Rightarrow> px_os \<Rightarrow> tid \<Rightarrow> ManualResetEvent \<Rightarrow> unit pub_act" where
  "ManualResetEvent_wait fuel threaded os t e =
     threaded_call threaded impl_ManualResetEvent (ev_impl e) (px_ManualResetEvent_wait fuel os t)"

definition ManualResetEvent_timed_wait :: "nat \<Rightarrow> bool \<Rightarrow> px_os \<Rightarrow> tid \<Rightarrow> int \<Rightarrow> ManualResetEvent \<Rightarrow> bool pub_act" where
  "ManualResetEvent_timed_wait fuel threaded os t msec e =
     (if threaded then impl_call impl_ManualResetEvent (ev_impl e) (px_ManualResetEvent_timed_wait fuel os t msec) else Done True)"

definition ManualResetEvent_reset :: "bool \<Rightarrow> px_os \<Rightarrow> tid \<Rightarrow> ManualResetEvent \<Rightarrow> unit pub_act" where
  "ManualResetEvent_reset threaded os t e = threaded_call threaded impl_ManualResetEvent (ev_impl e) (px_ManualResetEvent_reset os t)"

section \<open>SharedMutex\<close>

record SharedMutex =
  sm_impl :: "nat option"

definition SharedMutex_ctor :: "bool \<Rightarrow> px_os \<Rightarrow> SharedMutex pub_act" where
  "SharedMutex_ctor threaded os = seqR (threaded_new threaded impl_SharedMutex (px_SharedMutex_ctor os)) (\<lambda>p. Done \<lparr>sm_impl = p\<rparr>)"

definition SharedMutex_dtor :: "bool \<Rightarrow> px_os \<Rightarrow> SharedMutex \<Rightarrow> unit pub_act" where
  "SharedMutex_dtor threaded os x = Done ()"

definition SharedMutex_rdlock :: "nat \<Rightarrow> bool \<Rightarrow> px_os \<Rightarrow> tid \<Rightarrow> SharedMutex \<Rightarrow> unit pub_act" where
  "SharedMutex_rdlock fuel threaded os t x = threaded_call threaded impl_SharedMutex (sm_impl x) (px_SharedMutex_rdlock fuel os t)"

definition SharedMutex_wrlock :: "bool \<Rightarrow> px_os \<Rightarrow> tid \<Rightarrow> SharedMutex \<Rightarrow> unit pub_act" where
  "SharedMutex_wrlock threaded os t x = threaded_call threaded impl_SharedMutex (sm_impl x) (px_SharedMutex_wrlock os t)"

definition SharedMutex_rdunlock :: "bool \<Rightarrow> px_os \<Rightarrow> tid \<Rightarrow> SharedMutex \<Rightarrow> unit pub_act" where
  "SharedMutex_rdunlock threaded os t x = threaded_call threaded impl_SharedMutex (sm_impl x) (px_SharedMutex_rdunlock os t)"

definition SharedMutex_wrunlock :: "bool \<Rightarrow> px_os \<Rightarrow> tid \<Rightarrow> SharedMutex \<Rightarrow> unit pub_act" where
  "SharedMutex_wrunlock threaded os t x = threaded_call threaded impl_SharedMutex (sm_impl x) (px_SharedMutex_wrunlock os t)"

section \<open>Lifetimes\<close>

definition pub_new :: pub_state where
  "pub_new = \<lparr>pub_world = px_world_new, pub_heap = Map.empty, pub_next = 0\<rparr>"

lemma on_world_heap:
  "on_world f s = Done x s' \<Longrightarrow> pub_heap s' = pub_heap s \<and> pub_next s' = pub_next s"
  "on_world f s = Thrown e s' \<Longrightarrow> pub_heap s' = pub_heap s \<and> pub_next s' = pub_next s"
  by (auto simp: on_world_def split: run.splits)

text \<open>The heap after a constructor: one object more when it returned, none when it threw.\<close>

lemma threaded_new_heap:
  "threaded_new True c ctor s = Done p s' \<Longrightarrow> p = Some (pub_next s) \<and> pub_heap s' = (pub_heap s)(pub_next s \<mapsto> c)"
  "threaded_new True c ctor s = Thrown e s' \<Longrightarrow> pub_heap s' = (pub_heap s)(pub_next s := None)"
  by (auto simp: threaded_new_def Let_def catchR_def seqR_def dest!: on_world_heap split: run.splits)

lemma threaded_delete_heap:
  "threaded_delete True c (Some a) dtor s = Done u s' \<Longrightarrow> pub_heap s' = (pub_heap s)(a := None)"
  by (auto simp: threaded_delete_def impl_call_def seqR_def dest!: on_world_heap split: run.splits if_splits)

lemma made_heap:
  assumes "seqR (threaded_new True c ctor) (\<lambda>p. Done (mk p)) s = Done m s1"
  shows "m = mk (Some (pub_next s)) \<and> pub_heap s1 = (pub_heap s)(pub_next s \<mapsto> c)"
proof -
  from assms obtain p where "threaded_new True c ctor s = Done p s1" "m = mk p" by (auto simp: seqR_eq_Done)
  with threaded_new_heap(1) show ?thesis by blast
qed

lemma threaded_new_world:
  "threaded_new True c ctor s = Done p s' \<Longrightarrow> ctor (pub_next s) (pub_world s) = Done () (pub_world s')"
  by (auto simp: threaded_new_def Let_def catchR_def seqR_def on_world_def split: run.splits)

text \<open>An implementation whose destructor returns whenever its constructor did: the public object is made
  and destroyed without a trace, and a constructor that throws leaves none.\<close>

lemma made_and_deleted:
  assumes "pub_heap s (pub_next s) = None" "seqR (threaded_new True c ctor) (\<lambda>p. Done (mk p)) s = Done m s1" "\<And>p. get (mk p) = p"
    and "\<And>w w1. ctor (pub_next s) w = Done () w1 \<Longrightarrow> \<exists>w2. dtor (pub_next s) w1 = Done () w2"
  shows "\<exists>s2. threaded_delete True c (get m) dtor s1 = Done () s2 \<and> pub_heap s2 = pub_heap s"
proof -
  have m: "get m = Some (pub_next s)" "pub_heap s1 = (pub_heap s)(pub_next s \<mapsto> c)"
    using made_heap[OF assms(2)] assms(3) by simp_all
  from assms(2) obtain p where "threaded_new True c ctor s = Done p s1" by (auto simp: seqR_eq_Done)
  from assms(4)[OF threaded_new_world[OF this]] obtain w2 where "dtor (pub_next s) (pub_world s1) = Done () w2" by blast
  with m have "threaded_delete True c (get m) dtor s1 = Done () (s1\<lparr>pub_world := w2, pub_heap := (pub_heap s1)(pub_next s := None)\<rparr>)"
    by (simp add: threaded_delete_def impl_call_def on_world_def)
  with m(2) assms(1) show ?thesis by (simp add: fun_upd_idem)
qed

lemma thrown_heap:
  assumes "pub_heap s (pub_next s) = None" "seqR (threaded_new True c ctor) (\<lambda>p. Done (mk p)) s = Thrown e s1"
  shows "pub_heap s1 = pub_heap s"
proof -
  have "threaded_new True c ctor s = Thrown e s1" using assms(2) by (simp add: seqR_def split: run.splits)
  from threaded_new_heap(2)[OF this] assms(1) show ?thesis by (simp add: fun_upd_idem)
qed

lemma px_Mutex_dtor_returns: "\<exists>w'. px_Mutex_dtor os a w = Done () w'"
  by (simp add: px_Mutex_dtor_def pthread_mutex_destroy_def px_api_run seqR_def catchR_def throw_unless_def)

lemma px_Semaphore_dtor_returns: "\<exists>w'. px_Semaphore_dtor named os a w = Done () w'"
  by (simp add: px_Semaphore_dtor_def sem_release_def sem_close_def sem_destroy_def px_api_run seqR_def catchR_def throw_unless_def)

lemma px_event_dtor_returns:
  assumes "px_ManualResetEvent_ctor os sig m a w = Done () w1"
  shows "\<exists>w2. px_ManualResetEvent_dtor os a w1 = Done () w2"
proof -
  from assms obtain w0 where "px_Mutex_ctor os DEFAULT m w = Done () w0" by (auto simp: px_ManualResetEvent_ctor_def seqR_eq_Done)
  with assms have "px_events w1 a \<noteq> None"
    by (auto simp: px_ManualResetEvent_ctor_def px_api_run seqR_def catchR_def throw_unless_def split: if_splits run.splits)
  then show ?thesis using px_Mutex_dtor_returns
    by (auto simp: px_ManualResetEvent_dtor_def event_at_def px_api_run seqR_def catchR_def throw_unless_def)
qed

section \<open>Properties\<close>

text \<open>C31. Public objects own their implementation, whatever the kernel calls return: when the constructor
  of a mutex, a semaphore, a fair mutex or an event returns, its destructor returns too and the heap is as
  it was; when it throws, nothing is left. The destructor of \<^verbatim>\<open>SharedMutex\<close> is empty: its implementation
  object is never freed.\<close>

theorem public_lifetimes:
  assumes "pub_heap s (pub_next s) = None"
  shows "(Mutex_ctor True os ty s = Done m s1 \<longrightarrow> (\<exists>s2. Mutex_dtor True os m s1 = Done () s2 \<and> pub_heap s2 = pub_heap s))
    \<and> (Semaphore_ctor True os mx initial s = Done x s1 \<longrightarrow> (\<exists>s2. Semaphore_dtor True os x s1 = Done () s2 \<and> pub_heap s2 = pub_heap s))
    \<and> (FairMutex_ctor True os s = Done f s1 \<longrightarrow> (\<exists>s2. FairMutex_dtor True os f s1 = Done () s2 \<and> pub_heap s2 = pub_heap s))
    \<and> (ManualResetEvent_ctor True os sig s = Done e s1 \<longrightarrow>
         (\<exists>s2. ManualResetEvent_dtor True os e s1 = Done () s2 \<and> pub_heap s2 = pub_heap s))
    \<and> (Mutex_ctor True os ty s = Thrown msg s1 \<or> Semaphore_ctor True os mx initial s = Thrown msg s1 \<or> FairMutex_ctor True os s = Thrown msg s1
         \<or> ManualResetEvent_ctor True os sig s = Thrown msg s1 \<or> SharedMutex_ctor True os s = Thrown msg s1 \<longrightarrow> pub_heap s1 = pub_heap s)
    \<and> (SharedMutex_ctor True os s = Done r s1 \<longrightarrow>
         SharedMutex_dtor True os r s1 = Done () s1 \<and> pub_heap s1 = (pub_heap s)(pub_next s \<mapsto> impl_SharedMutex))"
proof (intro conjI impI)
  assume "Mutex_ctor True os ty s = Done m s1"
  then show "\<exists>s2. Mutex_dtor True os m s1 = Done () s2 \<and> pub_heap s2 = pub_heap s"
    unfolding Mutex_ctor_def Mutex_dtor_def by (rule made_and_deleted[OF assms]) (simp_all add: px_Mutex_dtor_returns)
next
  assume "Semaphore_ctor True os mx initial s = Done x s1"
  then show "\<exists>s2. Semaphore_dtor True os x s1 = Done () s2 \<and> pub_heap s2 = pub_heap s"
    unfolding Semaphore_ctor_def Semaphore_dtor_def by (rule made_and_deleted[OF assms]) (simp_all add: px_Semaphore_dtor_returns)
next
  assume "FairMutex_ctor True os s = Done f s1"
  then show "\<exists>s2. FairMutex_dtor True os f s1 = Done () s2 \<and> pub_heap s2 = pub_heap s"
    unfolding FairMutex_ctor_def FairMutex_dtor_def
    by (rule made_and_deleted[OF assms]) (simp_all add: px_FairMutex_dtor_def px_Semaphore_dtor_returns)
next
  assume "ManualResetEvent_ctor True os sig s = Done e s1"
  then show "\<exists>s2. ManualResetEvent_dtor True os e s1 = Done () s2 \<and> pub_heap s2 = pub_heap s"
    unfolding ManualResetEvent_ctor_def ManualResetEvent_dtor_def
    by (rule made_and_deleted[OF assms]) (simp_all add: px_event_dtor_returns)
next
  assume "Mutex_ctor True os ty s = Thrown msg s1 \<or> Semaphore_ctor True os mx initial s = Thrown msg s1 \<or> FairMutex_ctor True os s = Thrown msg s1
    \<or> ManualResetEvent_ctor True os sig s = Thrown msg s1 \<or> SharedMutex_ctor True os s = Thrown msg s1"
  then show "pub_heap s1 = pub_heap s"
    unfolding Mutex_ctor_def Semaphore_ctor_def FairMutex_ctor_def ManualResetEvent_ctor_def SharedMutex_ctor_def
    by (elim disjE) (rule thrown_heap[OF assms], assumption)+
next
  assume r: "SharedMutex_ctor True os s = Done r s1"
  show "SharedMutex_dtor True os r s1 = Done () s1" by (simp add: SharedMutex_dtor_def)
  from r show "pub_heap s1 = (pub_heap s)(pub_next s \<mapsto> impl_SharedMutex)"
    unfolding SharedMutex_ctor_def
    using made_heap[of impl_SharedMutex "px_SharedMutex_ctor os" "\<lambda>p. \<lparr>sm_impl = p\<rparr>" s r s1] by simp
qed

theorem public_lifetimes_witness:
  "\<exists>r s1. SharedMutex_ctor True calm_px pub_new = Done r s1 \<and> SharedMutex_dtor True calm_px r s1 = Done () s1
    \<and> pub_heap s1 = [0 \<mapsto> impl_SharedMutex]"
proof -
  have "\<exists>r s1. SharedMutex_ctor True calm_px pub_new = Done r s1"
    by (simp add: SharedMutex_ctor_def threaded_new_def Let_def px_SharedMutex_ctor_def on_world_def px_api_run calm_px_def
        seqR_def catchR_def)
  then obtain r s1 where c: "SharedMutex_ctor True calm_px pub_new = Done r s1" by blast
  have "pub_heap pub_new (pub_next pub_new) = None" by (simp add: pub_new_def)
  from public_lifetimes[OF this, of calm_px, THEN conjunct2, THEN conjunct2, THEN conjunct2, THEN conjunct2, THEN conjunct2, rule_format, OF c]
  have "SharedMutex_dtor True calm_px r s1 = Done () s1" "pub_heap s1 = [0 \<mapsto> impl_SharedMutex]" by (simp_all add: pub_new_def)
  with c show ?thesis by blast
qed

end
