(* ===== verification/L4_Strings.thy ===== *)
theory L4_Strings
  imports Sig_Prelude "HOL-Library.Signed_Division"
begin

text \<open>
  String helpers of log4cplus: \<^verbatim>\<open>tokenize\<close> and \<^verbatim>\<open>convertIntegerToString\<close> of
  \<^verbatim>\<open>helpers/stringhelper.h\<close>, and the conversions of \<^verbatim>\<open>tstring.h\<close> that stay within one character type.
  \<^verbatim>\<open>tokenize\<close> is kept with its indices and its inner loop; \<^verbatim>\<open>convertIntegerToString\<close> with its buffer,
  filled backwards from the end, and for every integer type the template can be used with, given by
  its \<^verbatim>\<open>std::numeric_limits\<close>.
\<close>

section \<open>tokenize\<close>

text \<open>\<^verbatim>\<open>while (i+1 < slen && s[i+1] == c) ++i;\<close>\<close>

function skip_delims :: "'a list \<Rightarrow> 'a \<Rightarrow> nat \<Rightarrow> nat" where
  "skip_delims s c i = (if i + 1 < length s \<and> s ! (i + 1) = c then skip_delims s c (i + 1) else i)"
  by pat_completeness auto
termination by (relation "measure (\<lambda>(s, c, i). length s - i)") auto

declare skip_delims.simps [simp del]

lemma skip_delims_ge: "i \<le> skip_delims s c i"
  by (induction s c i rule: skip_delims.induct) (subst skip_delims.simps, auto)

text \<open>The loop over \<open>i\<close> with the start \<open>first\<close> of the current token and the tokens put out so far.\<close>

function tokenize_loop :: "'a list \<Rightarrow> 'a \<Rightarrow> bool \<Rightarrow> nat \<Rightarrow> nat \<Rightarrow> 'a list list \<Rightarrow> nat \<times> nat \<times> 'a list list" where
  "tokenize_loop s c collapseTokens first i result =
     (if i < length s then
        if s ! i = c then
          let result' = result @ [take (i - first) (drop first s)];
              i' = (if collapseTokens then skip_delims s c i else i)
          in tokenize_loop s c collapseTokens (i' + 1) (i' + 1) result'
        else tokenize_loop s c collapseTokens first (i + 1) result
      else (first, i, result))"
  by pat_completeness auto
termination
proof (relation "measure (\<lambda>(s, c, b, first, i, r). length s - i)", goal_cases)
  case (2 s c b first i r r' i')
  then show ?case using skip_delims_ge[of i s c] by (auto split: if_splits)
qed auto

declare tokenize_loop.simps [simp del]

definition tokenize :: "'a list \<Rightarrow> 'a \<Rightarrow> bool \<Rightarrow> 'a list list" where
  "tokenize s c collapseTokens =
     (let (first, i, result) = tokenize_loop s c collapseTokens 0 0 [] in
      if first \<noteq> i then result @ [take (i - first) (drop first s)] else result)"

section \<open>convertIntegerToString\<close>

record int_limits =
  is_signed :: bool
  lim_min :: int
  lim_max :: int
  digits10 :: nat

definition signed_limits :: "nat \<Rightarrow> nat \<Rightarrow> int_limits" where
  "signed_limits bits d = \<lparr>is_signed = True, lim_min = - (2 ^ (bits - 1)), lim_max = 2 ^ (bits - 1) - 1, digits10 = d\<rparr>"

definition unsigned_limits :: "nat \<Rightarrow> nat \<Rightarrow> int_limits" where
  "unsigned_limits bits d = \<lparr>is_signed = False, lim_min = 0, lim_max = 2 ^ bits - 1, digits10 = d\<rparr>"

text \<open>The integer types of the platforms the library supports.\<close>

definition int_types :: "int_limits list" where
  "int_types = [signed_limits 8 2, unsigned_limits 8 2, signed_limits 16 4, unsigned_limits 16 4,
     signed_limits 32 9, unsigned_limits 32 9, signed_limits 64 18, unsigned_limits 64 19]"

record convert_state =
  cv_buffer :: string
  cv_it :: nat
  cv_value :: int

text \<open>\<^verbatim>\<open>*(it - 1) = LOG4CPLUS_TEXT('0') + mod; --it;\<close>\<close>

definition put_digit :: "int \<Rightarrow> convert_state \<Rightarrow> convert_state res" where
  "put_digit md st = (if cv_it st = 0 then Inl OutOfBounds
     else Inr (st\<lparr>cv_buffer := (cv_buffer st)[cv_it st - 1 := char_of (48 + nat md)], cv_it := cv_it st - 1\<rparr>))"

definition helper_is_negative :: "int_limits \<Rightarrow> int \<Rightarrow> bool" where
  "helper_is_negative L val = (if is_signed L then val < 0 else False)"

definition helper_step1 :: "int_limits \<Rightarrow> convert_state \<Rightarrow> convert_state res" where
  "helper_step1 L st =
     (if is_signed L then
        if cv_value st = lim_min L then
          let r = cv_value st sdiv 10; a = (- r) * 10; md = - (a + cv_value st)
          in put_digit md (st\<lparr>cv_value := - r\<rparr>)
        else Inr (st\<lparr>cv_value := - cv_value st\<rparr>)
      else Inr st)"

text \<open>\<^verbatim>\<open>for (; value != 0; --it)\<close>.\<close>

function convert_loop :: "convert_state \<Rightarrow> convert_state res" where
  "convert_loop st =
     (if cv_value st \<noteq> 0 then
        bindE (put_digit (cv_value st smod 10) (st\<lparr>cv_value := cv_value st sdiv 10\<rparr>)) convert_loop
      else Inr st)"
  by pat_completeness auto
termination
proof (relation "measure (\<lambda>st. nat \<bar>cv_value st\<bar>)", goal_cases)
  case (2 st st')
  then have "cv_value st' = cv_value st sdiv 10" by (auto simp: put_digit_def split: if_splits)
  moreover have "\<bar>cv_value st sdiv 10\<bar> < \<bar>cv_value st\<bar>"
    using 2(1) by (auto simp: signed_divide_int_def abs_mult sgn_if)
  ultimately show ?case by simp
qed simp

declare convert_loop.simps [simp del]

definition convertIntegerToString :: "int_limits \<Rightarrow> int \<Rightarrow> string res" where
  "convertIntegerToString L value =
     (let buffer_size = digits10 L + 2; st0 = \<lparr>cv_buffer = replicate buffer_size (CHR 0x00), cv_it = buffer_size, cv_value = value\<rparr>;
          negative = helper_is_negative L value in
      bindE (if value = 0 then put_digit 0 st0 else Inr st0) (\<lambda>st1.
      bindE (if negative then helper_step1 L st1 else Inr st1) (\<lambda>st2.
      bindE (convert_loop st2) (\<lambda>st3.
      bindE (if negative
             then (if cv_it st3 = 0 then Inl OutOfBounds
                   else Inr (st3\<lparr>cv_buffer := (cv_buffer st3)[cv_it st3 - 1 := CHR ''-''], cv_it := cv_it st3 - 1\<rparr>))
             else Inr st3) (\<lambda>st4.
      Inr (drop (cv_it st4) (cv_buffer st4)))))))"

section \<open>Conversions between string types\<close>

text \<open>A C string ends before its first null character; \<^verbatim>\<open>tostring\<close> and \<^verbatim>\<open>towstring\<close> of a string of the
  same character type return it.\<close>

definition tostring_cstr :: "string \<Rightarrow> string" where
  "tostring_cstr str = takeWhile (\<lambda>ch. ch \<noteq> CHR 0x00) str"

definition tostring_str :: "string \<Rightarrow> string" where
  "tostring_str str = str"

definition towstring_cstr :: "16 word list \<Rightarrow> 16 word list" where
  "towstring_cstr str = takeWhile (\<lambda>ch. ch \<noteq> 0) str"

definition towstring_str :: "16 word list \<Rightarrow> 16 word list" where
  "towstring_str str = str"

section \<open>tokenize as a function on lists\<close>

text \<open>The specification: \<open>cur\<close> is the token read so far.\<close>

function toks :: "bool \<Rightarrow> 'a \<Rightarrow> 'a list \<Rightarrow> 'a list \<Rightarrow> 'a list list" where
  "toks b c cur [] = (if cur = [] then [] else [cur])"
| "toks b c cur (x # xs) =
     (if x = c then cur # toks b c [] (if b then dropWhile (\<lambda>y. y = c) xs else xs) else toks b c (cur @ [x]) xs)"
  by pat_completeness auto
termination by (relation "measure (\<lambda>(b, c, cur, xs). length xs)") (auto simp: less_Suc_eq_le length_dropWhile_le)

lemma skip_delims_drop:
  "i < length s \<Longrightarrow> drop (skip_delims s c i + 1) s = dropWhile (\<lambda>y. y = c) (drop (i + 1) s) \<and> skip_delims s c i + 1 \<le> length s"
proof (induction s c i rule: skip_delims.induct)
  case (1 s c i)
  show ?case
  proof (cases "i + 1 < length s")
    case True
    then have "drop (i + 1) s = s ! (i + 1) # drop (i + 2) s" by (simp add: Cons_nth_drop_Suc)
    with 1 True show ?thesis by (subst (1 2) skip_delims.simps) simp
  next
    case False
    with 1(2) show ?thesis by (subst (1 2) skip_delims.simps) simp
  qed
qed

abbreviation token_result :: "'a list \<Rightarrow> nat \<times> nat \<times> 'a list list \<Rightarrow> 'a list list" where
  "token_result s x \<equiv> (case x of (first, i, result) \<Rightarrow>
     if first \<noteq> i then result @ [take (i - first) (drop first s)] else result)"

lemma tokenize_loop_toks:
  "first \<le> i \<Longrightarrow> i \<le> length s \<Longrightarrow>
   token_result s (tokenize_loop s c b first i result) = result @ toks b c (take (i - first) (drop first s)) (drop i s)"
proof (induction s c b first i result rule: tokenize_loop.induct)
  case (1 s c b first i result)
  consider (at_end) "i = length s" | (delim) "i < length s" "s ! i = c" | (other) "i < length s" "s ! i \<noteq> c"
    using 1(4) by linarith
  then show ?case
  proof cases
    case at_end
    with 1(3) show ?thesis by (subst tokenize_loop.simps) (auto simp: toks.simps(1))
  next
    case delim
    let ?i = "if b then skip_delims s c i else i"
    have d: "drop (?i + 1) s = (if b then dropWhile (\<lambda>y. y = c) (drop (i + 1) s) else drop (i + 1) s)" "?i + 1 \<le> length s"
      using skip_delims_drop[OF delim(1), of c] delim(1) by auto
    have "drop i s = c # drop (i + 1) s" using delim by (metis Cons_nth_drop_Suc Suc_eq_plus1)
    with 1(1)[OF delim refl refl _ d(2)] d(1) delim show ?thesis by (subst tokenize_loop.simps) (simp add: Let_def)
  next
    case other
    have "drop i s = s ! i # drop (i + 1) s" using other by (metis Cons_nth_drop_Suc Suc_eq_plus1)
    moreover have "take (i + 1 - first) (drop first s) = take (i - first) (drop first s) @ [s ! i]"
      using 1(3) other(1) by (simp add: Suc_diff_le take_Suc_conv_app_nth)
    ultimately show ?thesis using 1(2)[OF other] 1(3) other by (subst tokenize_loop.simps) simp
  qed
qed

lemma tokenize_toks: "tokenize s c b = toks b c [] s"
  using tokenize_loop_toks[of 0 0 s c b "[]"] by (simp add: tokenize_def split: prod.splits)

lemma toks_chars: "concat (toks b c cur s) = cur @ filter (\<lambda>x. x \<noteq> c) s"
proof (induction b c cur s rule: toks.induct)
  case (2 b c cur x xs)
  have "filter (\<lambda>x. x \<noteq> c) (dropWhile (\<lambda>y. y = c) xs) = filter (\<lambda>x. x \<noteq> c) xs" by (induction xs) auto
  with 2 show ?case by auto
qed simp

lemma toks_no_delim: "c \<notin> set cur \<Longrightarrow> t \<in> set (toks b c cur s) \<Longrightarrow> c \<notin> set t"
  by (induction b c cur s rule: toks.induct) (auto split: if_splits)

fun join :: "'a \<Rightarrow> 'a list list \<Rightarrow> 'a list" where
  "join c [] = []"
| "join c [t] = t"
| "join c (t # ts) = t @ c # join c ts"

lemma toks_token: "c \<notin> set t \<Longrightarrow> toks b c cur (t @ s) = toks b c (cur @ t) s"
  by (induction t arbitrary: cur) auto

lemma join_head: "\<forall>t\<in>set ts. t \<noteq> [] \<and> c \<notin> set t \<Longrightarrow> dropWhile (\<lambda>y. y = c) (join c ts) = join c ts"
proof (induction c ts rule: join.induct)
  case (2 c t)
  then show ?case by (cases t) auto
next
  case (3 c t u us)
  then show ?case by (cases t) auto
qed simp

lemma toks_join: "\<forall>t\<in>set ts. t \<noteq> [] \<and> c \<notin> set t \<Longrightarrow> toks b c [] (join c ts) = ts"
proof (induction c ts rule: join.induct)
  case (2 c t)
  then show ?case using toks_token[of c t b "[]" "[]"] by simp
next
  case (3 c t u us)
  then have "dropWhile (\<lambda>y. y = c) (join c (u # us)) = join c (u # us)" by (intro join_head) auto
  with 3 show ?case using toks_token[of c t b "[]" "c # join c (u # us)"] by (cases b) simp_all
qed simp

section \<open>Decimal digits\<close>

abbreviation digit :: "nat \<Rightarrow> char" where "digit d \<equiv> char_of (48 + d)"

text \<open>The decimal numeral of a positive number; nothing for zero.\<close>

function numeral_of :: "nat \<Rightarrow> string" where
  "numeral_of n = (if n = 0 then [] else numeral_of (n div 10) @ [digit (n mod 10)])"
  by pat_completeness auto
termination by (relation "measure id") auto

declare numeral_of.simps [simp del]

lemma numeral_of_0 [simp]: "numeral_of 0 = []"
  by (simp add: numeral_of.simps)

lemma numeral_of_step: "d < 10 \<Longrightarrow> 0 < n \<or> 0 < d \<Longrightarrow> numeral_of (10 * n + d) = numeral_of n @ [digit d]"
  by (subst numeral_of.simps) auto

lemma numeral_of_length: "n < 10 ^ k \<Longrightarrow> length (numeral_of n) \<le> k"
proof (induction k arbitrary: n)
  case (Suc k)
  then have "n div 10 < 10 ^ k" by (simp add: less_mult_imp_div_less mult.commute)
  from Suc.IH[OF this] show ?case by (subst numeral_of.simps) auto
qed simp

definition value_of :: "string \<Rightarrow> nat" where
  "value_of ds = foldl (\<lambda>v d. 10 * v + (of_char d - 48)) 0 ds"

lemma of_char_digit: "d < 10 \<Longrightarrow> of_char (digit d) = 48 + d"
  by (simp add: of_char_of)

lemma value_of_numeral: "value_of (numeral_of n) = n"
proof (induction n rule: numeral_of.induct)
  case (1 n)
  then show ?case by (subst numeral_of.simps) (auto simp: value_of_def of_char_digit)
qed

text \<open>The loop puts the numeral of a non-negative value before what the buffer already holds.\<close>

lemma put_digit_ok:
  assumes "0 < cv_it st" "cv_it st \<le> length (cv_buffer st)"
  shows "\<exists>b. put_digit d st = Inr (st\<lparr>cv_buffer := b, cv_it := cv_it st - 1\<rparr>) \<and> length b = length (cv_buffer st)
    \<and> drop (cv_it st - 1) b = digit (nat d) # drop (cv_it st) (cv_buffer st)"
proof -
  let ?i = "cv_it st - 1" and ?b = "(cv_buffer st)[cv_it st - 1 := digit (nat d)]"
  have "?i < length ?b" using assms by simp
  then have "drop ?i ?b = ?b ! ?i # drop (Suc ?i) ?b" by (simp only: Cons_nth_drop_Suc)
  also have "\<dots> = digit (nat d) # drop (cv_it st) (cv_buffer st)" using assms by simp
  finally show ?thesis using assms(1) by (intro exI[of _ ?b]) (simp add: put_digit_def)
qed

lemma convert_loop_ok:
  assumes "0 \<le> cv_value st" "length (numeral_of (nat (cv_value st))) \<le> cv_it st" "cv_it st \<le> length (cv_buffer st)"
  shows "\<exists>b. convert_loop st = Inr (st\<lparr>cv_buffer := b, cv_it := cv_it st - length (numeral_of (nat (cv_value st))), cv_value := 0\<rparr>)
    \<and> length b = length (cv_buffer st)
    \<and> drop (cv_it st - length (numeral_of (nat (cv_value st)))) b
        = numeral_of (nat (cv_value st)) @ drop (cv_it st) (cv_buffer st)"
  using assms
proof (induction "nat (cv_value st)" arbitrary: st rule: less_induct)
  case less
  show ?case
  proof (cases "cv_value st = 0")
    case True
    then show ?thesis by (subst convert_loop.simps) (cases st, simp)
  next
    case False
    let ?v = "nat (cv_value st)"
    have n: "numeral_of ?v = numeral_of (?v div 10) @ [digit (?v mod 10)]"
      using False less.prems(1) by (subst numeral_of.simps) simp
    have c: "cv_value st sdiv 10 = int (?v div 10)" "cv_value st smod 10 = int (?v mod 10)"
      using less.prems(1) by (simp_all add: signed_divide_int_def signed_modulo_int_def sgn_if zdiv_int zmod_int)
    let ?st = "st\<lparr>cv_value := cv_value st sdiv 10\<rparr>"
    obtain b where b: "put_digit (cv_value st smod 10) ?st = Inr (?st\<lparr>cv_buffer := b, cv_it := cv_it st - 1\<rparr>)"
      "length b = length (cv_buffer st)" "drop (cv_it st - 1) b = digit (?v mod 10) # drop (cv_it st) (cv_buffer st)"
      using put_digit_ok[of ?st "cv_value st smod 10"] less.prems(2,3) n c(2) by auto
    let ?st' = "?st\<lparr>cv_buffer := b, cv_it := cv_it st - 1\<rparr>"
    have "nat (cv_value ?st') < ?v" using False less.prems(1) c(1) by simp
    moreover have "0 \<le> cv_value ?st'" "length (numeral_of (nat (cv_value ?st'))) \<le> cv_it ?st'" "cv_it ?st' \<le> length (cv_buffer ?st')"
      using c(1) less.prems(2,3) n b(2) by simp_all
    ultimately obtain b' where "convert_loop ?st' = Inr (?st'\<lparr>cv_buffer := b', cv_it := cv_it ?st' - length (numeral_of (nat (cv_value ?st'))), cv_value := 0\<rparr>)"
      "length b' = length (cv_buffer ?st')" "drop (cv_it ?st' - length (numeral_of (nat (cv_value ?st')))) b'
        = numeral_of (nat (cv_value ?st')) @ drop (cv_it ?st') (cv_buffer ?st')"
      using less.hyps[of ?st'] by blast
    with False b c n show ?thesis by (subst convert_loop.simps) (intro exI[of _ b'], simp)
  qed
qed

text \<open>The decimal numeral the function should give.\<close>

definition decimal :: "int \<Rightarrow> string" where
  "decimal v = (if v < 0 then ''-'' else []) @ (if v = 0 then ''0'' else numeral_of (nat \<bar>v\<bar>))"

definition read_decimal :: "string \<Rightarrow> int" where
  "read_decimal ds = (if ds \<noteq> [] \<and> hd ds = CHR ''-'' then - int (value_of (tl ds)) else int (value_of ds))"

lemma numeral_of_hd: "0 < n \<Longrightarrow> \<exists>d ds. d < 10 \<and> numeral_of n = digit d # ds"
proof (induction n rule: numeral_of.induct)
  case (1 n)
  show ?case
  proof (cases "n < 10")
    case True
    then have "n div 10 = 0" "n mod 10 = n" by simp_all
    with 1(2) True show ?thesis by (subst numeral_of.simps) auto
  next
    case False
    then have "0 < n div 10" by (simp add: div_greater_zero_iff)
    with 1 obtain d ds where "d < 10" "numeral_of (n div 10) = digit d # ds" by auto
    with False show ?thesis by (subst numeral_of.simps) auto
  qed
qed

lemma digit_not_minus: "d < 10 \<Longrightarrow> digit d \<noteq> CHR ''-''"
proof
  assume "d < 10" "digit d = CHR ''-''"
  with of_char_digit[of d] have "of_char CHR ''-'' = 48 + d" by metis
  then show False by simp
qed

lemma read_decimal_decimal: "read_decimal (decimal v) = v"
proof -
  consider "v = 0" | "0 < v" | "v < 0" by linarith
  then show ?thesis
  proof cases
    case 1
    then show ?thesis by (simp add: decimal_def read_decimal_def value_of_def)
  next
    case 2
    then obtain d ds where d: "d < 10" "numeral_of (nat v) = digit d # ds" using numeral_of_hd[of "nat v"] by auto
    then have "read_decimal (numeral_of (nat v)) = int (value_of (numeral_of (nat v)))"
      using digit_not_minus[OF d(1)] by (simp add: read_decimal_def)
    with 2 show ?thesis by (simp add: decimal_def value_of_numeral)
  next
    case 3
    then show ?thesis by (simp add: decimal_def read_decimal_def value_of_numeral)
  qed
qed

definition limits_ok :: "int_limits \<Rightarrow> bool" where
  "limits_ok L \<longleftrightarrow> 0 < lim_max L \<and> lim_max L + 1 < 10 ^ (digits10 L + 1)
     \<and> (if is_signed L then lim_min L = - lim_max L - 1 else lim_min L = 0)"

lemma int_types_ok: "L \<in> set int_types \<Longrightarrow> limits_ok L"
  by (auto simp: int_types_def limits_ok_def signed_limits_def unsigned_limits_def)

text \<open>The end of the conversion: the loop on a non-negative value in front of what is already there,
  and the sign.\<close>

definition convert_finish :: "bool \<Rightarrow> convert_state \<Rightarrow> string res" where
  "convert_finish negative st = bindE (convert_loop st) (\<lambda>st3.
      bindE (if negative
             then (if cv_it st3 = 0 then Inl OutOfBounds
                   else Inr (st3\<lparr>cv_buffer := (cv_buffer st3)[cv_it st3 - 1 := CHR ''-''], cv_it := cv_it st3 - 1\<rparr>))
             else Inr st3) (\<lambda>st4.
      Inr (drop (cv_it st4) (cv_buffer st4))))"

lemma drop_update_pred: "0 < k \<Longrightarrow> k \<le> length b \<Longrightarrow> drop (k - 1) (b[k - 1 := x]) = x # drop k b"
  by (cases k) (simp_all add: Cons_nth_drop_Suc[symmetric])

lemma convert_finish_ok:
  assumes "0 \<le> cv_value st" "length (numeral_of (nat (cv_value st))) < cv_it st" "cv_it st \<le> length (cv_buffer st)"
  shows "convert_finish neg st = Inr ((if neg then ''-'' else []) @ numeral_of (nat (cv_value st)) @ drop (cv_it st) (cv_buffer st))"
proof -
  let ?k = "cv_it st - length (numeral_of (nat (cv_value st)))"
  obtain b where b: "convert_loop st = Inr (st\<lparr>cv_buffer := b, cv_it := ?k, cv_value := 0\<rparr>)"
    "length b = length (cv_buffer st)" "drop ?k b = numeral_of (nat (cv_value st)) @ drop (cv_it st) (cv_buffer st)"
    using convert_loop_ok[OF assms(1) _ assms(3)] assms(2) by auto
  have k: "0 < ?k" "?k \<le> length b" using assms(2,3) b(2) by simp_all
  then have "drop (?k - 1) (b[?k - 1 := CHR ''-'']) = CHR ''-'' # drop ?k b" by (rule drop_update_pred)
  with b k(1) show ?thesis by (simp add: convert_finish_def)
qed

lemma convert_correct:
  assumes L: "limits_ok L" and v: "lim_min L \<le> v" "v \<le> lim_max L"
  shows "convertIntegerToString L v = Inr (decimal v)"
proof -
  let ?n = "digits10 L + 2"
  let ?st = "\<lparr>cv_buffer = replicate ?n (CHR 0x00), cv_it = ?n, cv_value = v\<rparr>"
  have "\<bar>v\<bar> < 10 ^ (digits10 L + 1)" using L v by (auto simp: limits_ok_def split: if_splits)
  then have "int (nat \<bar>v\<bar>) < int (10 ^ (digits10 L + 1))" by simp
  then have "nat \<bar>v\<bar> < 10 ^ (digits10 L + 1)" by (simp only: of_nat_less_iff)
  from numeral_of_length[OF this] have len: "length (numeral_of (nat \<bar>v\<bar>)) < ?n" by simp
  have neg: "helper_is_negative L v \<longleftrightarrow> v < 0" using L v by (auto simp: helper_is_negative_def limits_ok_def split: if_splits)
  have conv: "convertIntegerToString L v = bindE (if v = 0 then put_digit 0 ?st else Inr ?st) (\<lambda>st1.
      bindE (if v < 0 then helper_step1 L st1 else Inr st1) (convert_finish (v < 0)))"
    by (simp add: convertIntegerToString_def convert_finish_def[abs_def] neg Let_def)
  consider (zero) "v = 0" | (pos) "0 < v" | (least) "v < 0" "v = lim_min L" | (negative) "v < 0" "v \<noteq> lim_min L" by linarith
  then show ?thesis
  proof cases
    case zero
    obtain b where b: "put_digit 0 ?st = Inr (?st\<lparr>cv_buffer := b, cv_it := ?n - 1\<rparr>)" "length b = ?n" "drop (?n - 1) b = [digit 0]"
      using put_digit_ok[of ?st 0] by auto
    have "digit 0 = CHR ''0''" by code_simp
    with zero b convert_finish_ok[of "?st\<lparr>cv_buffer := b, cv_it := ?n - 1\<rparr>" False] show ?thesis
      unfolding conv by (simp add: decimal_def)
  next
    case pos
    with convert_finish_ok[of ?st False] len show ?thesis by (simp add: conv decimal_def)
  next
    case negative
    then have "is_signed L" using L v by (auto simp: limits_ok_def split: if_splits)
    with negative convert_finish_ok[of "?st\<lparr>cv_value := - v\<rparr>" True] len show ?thesis
      by (simp add: conv decimal_def helper_step1_def)
  next
    case least
    then have sg: "is_signed L" using L by (auto simp: limits_ok_def split: if_splits)
    let ?m = "nat \<bar>v\<bar>"
    have r: "v sdiv 10 = - int (?m div 10)" using least(1) by (simp add: signed_divide_int_def sgn_if zdiv_int)
    have md: "- (- (v sdiv 10) * 10 + v) = int (?m mod 10)"
      unfolding r using least(1) by (simp add: zmod_int zdiv_int) presburger
    have n: "numeral_of ?m = numeral_of (?m div 10) @ [digit (?m mod 10)]" using least(1) by (subst numeral_of.simps) simp
    let ?st1 = "?st\<lparr>cv_value := int (?m div 10)\<rparr>"
    obtain b where b: "put_digit (int (?m mod 10)) ?st1 = Inr (?st1\<lparr>cv_buffer := b, cv_it := ?n - 1\<rparr>)"
      "length b = ?n" "drop (?n - 1) b = [digit (?m mod 10)]"
      using put_digit_ok[of ?st1 "int (?m mod 10)"] by auto
    have step: "helper_step1 L ?st = put_digit (- (- (v sdiv 10) * 10 + v)) (?st\<lparr>cv_value := - (v sdiv 10)\<rparr>)"
      using sg least(2) by (simp add: helper_step1_def Let_def)
    have "helper_step1 L ?st = Inr (?st1\<lparr>cv_buffer := b, cv_it := ?n - 1\<rparr>)"
      unfolding step md unfolding r minus_minus by (rule b(1))
    with least(1) convert_finish_ok[of "?st1\<lparr>cv_buffer := b, cv_it := ?n - 1\<rparr>" True] len n b show ?thesis
      by (simp add: conv decimal_def)
  qed
qed

section \<open>Properties\<close>





end
