(* ===== verification/L4_Pointer.thy ===== *)
theory L4_Pointer
  imports L4_Public
begin

text \<open>
  The intrusive smart pointer of log4cplus, \<^verbatim>\<open>helpers/pointer.h\<close>. The pointer objects of the program
  are the entries of a map from their addresses to their member \<^verbatim>\<open>pointee\<close>. \<^verbatim>\<open>addReference\<close> and
  \<^verbatim>\<open>removeReference\<close> are only declared in the header, so they are the parameter \<open>shared_ops\<close>; the law
  \<open>counts_references\<close> says what their documentation says: one adds one to the reference count of the
  object, the other takes one off. The theory shows that the count of every object is always the
  number of pointer objects that point to it, so that none is freed too early or too late.
\<close>

section \<open>SharedObject\<close>

text \<open>The base class: the public mutex \<^verbatim>\<open>access_mutex\<close> and the count (\<^verbatim>\<open>unsigned\<close> on POSIX). Both
  constructors make a fresh mutex and a zero count; the assignment operator changes nothing.\<close>

record SharedObject =
  access_mutex :: Mutex
  ref_count :: "32 word"

definition SharedObject_ctor :: "bool \<Rightarrow> px_os \<Rightarrow> SharedObject pub_act" where
  "SharedObject_ctor threaded os = seqR (Mutex_ctor threaded os RECURSIVE) (\<lambda>m. Done \<lparr>access_mutex = m, ref_count = 0\<rparr>)"

definition SharedObject_copy :: "bool \<Rightarrow> px_os \<Rightarrow> SharedObject \<Rightarrow> SharedObject pub_act" where
  "SharedObject_copy threaded os rhs = seqR (Mutex_ctor threaded os RECURSIVE) (\<lambda>m. Done \<lparr>access_mutex = m, ref_count = 0\<rparr>)"

definition SharedObject_assign :: "SharedObject \<Rightarrow> SharedObject \<Rightarrow> SharedObject" where
  "SharedObject_assign this rhs = this"

section \<open>SharedObjectPtr\<close>

record 's shared_ops =
  addReference :: "nat \<Rightarrow> (unit, 's) act"
  removeReference :: "nat \<Rightarrow> (unit, 's) act"

type_synonym 's ptr_state = "(nat \<rightharpoonup> nat option) \<times> 's"

definition on_object :: "(unit, 's) act \<Rightarrow> (unit, 's ptr_state) act" where
  "on_object f x = (case f (snd x) of
     Done u s \<Rightarrow> Done u (fst x, s) | Thrown e s \<Rightarrow> Thrown e (fst x, s) | Waits s \<Rightarrow> Waits (fst x, s) | Crash e \<Rightarrow> Crash e)"

definition pointee :: "nat \<Rightarrow> (nat option, 's ptr_state) act" where
  "pointee v x = (case fst x v of None \<Rightarrow> Crash DanglingPtr | Some p \<Rightarrow> Done p x)"

definition set_pointee :: "nat \<Rightarrow> nat option \<Rightarrow> (unit, 's ptr_state) act" where
  "set_pointee v p x = Done () ((fst x)(v \<mapsto> p), snd x)"

text \<open>\<^verbatim>\<open>addref\<close>, and the destructor's \<^verbatim>\<open>if (pointee) pointee->removeReference()\<close>.\<close>

definition addref :: "'s shared_ops \<Rightarrow> nat option \<Rightarrow> (unit, 's ptr_state) act" where
  "addref S p = (case p of None \<Rightarrow> Done () | Some a \<Rightarrow> on_object (addReference S a))"

definition release :: "'s shared_ops \<Rightarrow> nat option \<Rightarrow> (unit, 's ptr_state) act" where
  "release S p = (case p of None \<Rightarrow> Done () | Some a \<Rightarrow> on_object (removeReference S a))"

definition ptr_ctor :: "'s shared_ops \<Rightarrow> nat \<Rightarrow> nat option \<Rightarrow> (unit, 's ptr_state) act" where
  "ptr_ctor S v realPtr = seqR (set_pointee v realPtr) (\<lambda>_. addref S realPtr)"

definition ptr_copy_ctor :: "'s shared_ops \<Rightarrow> nat \<Rightarrow> nat \<Rightarrow> (unit, 's ptr_state) act" where
  "ptr_copy_ctor S v rhs = seqR (pointee rhs) (\<lambda>p. seqR (set_pointee v p) (\<lambda>_. addref S p))"

definition ptr_move_ctor :: "nat \<Rightarrow> nat \<Rightarrow> (unit, 's ptr_state) act" where
  "ptr_move_ctor v rhs = seqR (pointee rhs) (\<lambda>p. seqR (set_pointee v p) (\<lambda>_. set_pointee rhs None))"

definition ptr_swap :: "nat \<Rightarrow> nat \<Rightarrow> (unit, 's ptr_state) act" where
  "ptr_swap this other =
     seqR (pointee this) (\<lambda>p. seqR (pointee other) (\<lambda>q. seqR (set_pointee this q) (\<lambda>_. set_pointee other p)))"

definition ptr_move_assign :: "nat \<Rightarrow> nat \<Rightarrow> (unit, 's ptr_state) act" where
  "ptr_move_assign this rhs = ptr_swap rhs this"

definition ptr_dtor :: "'s shared_ops \<Rightarrow> nat \<Rightarrow> (unit, 's ptr_state) act" where
  "ptr_dtor S v = seqR (pointee v) (\<lambda>p. seqR (release S p) (\<lambda>_ x. Done () ((fst x)(v := None), snd x)))"

text \<open>\<^verbatim>\<open>SharedObjectPtr<T> (rhs).swap (*this)\<close> with the temporary at the address \<open>tmp\<close>.\<close>

definition ptr_assign_raw :: "'s shared_ops \<Rightarrow> nat \<Rightarrow> nat \<Rightarrow> nat option \<Rightarrow> (unit, 's ptr_state) act" where
  "ptr_assign_raw S tmp this rhs =
     seqR (ptr_ctor S tmp rhs) (\<lambda>_. seqR (ptr_swap tmp this) (\<lambda>_. ptr_dtor S tmp))"

definition ptr_assign :: "'s shared_ops \<Rightarrow> nat \<Rightarrow> nat \<Rightarrow> nat \<Rightarrow> (unit, 's ptr_state) act" where
  "ptr_assign S tmp this rhs = seqR (pointee rhs) (ptr_assign_raw S tmp this)"

definition ptr_get :: "nat \<Rightarrow> (nat option, 's ptr_state) act" where
  "ptr_get v = pointee v"

definition ptr_eq :: "nat \<Rightarrow> nat \<Rightarrow> (bool, 's ptr_state) act" where
  "ptr_eq v rhs = seqR (pointee v) (\<lambda>p. seqR (pointee rhs) (\<lambda>q. Done (p = q)))"

definition ptr_eq_raw :: "nat \<Rightarrow> nat option \<Rightarrow> (bool, 's ptr_state) act" where
  "ptr_eq_raw v rhs = seqR (pointee v) (\<lambda>p. Done (p = rhs))"

definition ptr_deref :: "nat \<Rightarrow> (nat, 's ptr_state) act" where
  "ptr_deref v = seqR (pointee v) (\<lambda>p. case p of None \<Rightarrow> (\<lambda>_. Crash AssertFailure) | Some a \<Rightarrow> Done a)"

definition ptr_not :: "nat \<Rightarrow> (bool, 's ptr_state) act" where
  "ptr_not v = seqR (pointee v) (\<lambda>p. Done (p = None))"

definition ptr_bool :: "nat \<Rightarrow> (bool, 's ptr_state) act" where
  "ptr_bool v = seqR (pointee v) (\<lambda>p. Done (p \<noteq> None))"

section \<open>Programs that use pointers\<close>

datatype ptr_op =
    MakePtr nat "nat option" | CopyPtr nat nat | MovePtr nat nat | MoveAssignPtr nat nat
  | AssignRawPtr nat nat "nat option" | AssignPtr nat nat nat | SwapPtr nat nat | DestroyPtr nat

fun ptr_exec :: "'s shared_ops \<Rightarrow> ptr_op \<Rightarrow> (unit, 's ptr_state) act" where
  "ptr_exec S (MakePtr v p) = ptr_ctor S v p"
| "ptr_exec S (CopyPtr v u) = ptr_copy_ctor S v u"
| "ptr_exec S (MovePtr v u) = ptr_move_ctor v u"
| "ptr_exec S (MoveAssignPtr v u) = ptr_move_assign v u"
| "ptr_exec S (AssignRawPtr tmp v p) = ptr_assign_raw S tmp v p"
| "ptr_exec S (AssignPtr tmp v u) = ptr_assign S tmp v u"
| "ptr_exec S (SwapPtr v u) = ptr_swap v u"
| "ptr_exec S (DestroyPtr v) = ptr_dtor S v"

fun ptr_run :: "'s shared_ops \<Rightarrow> ptr_op list \<Rightarrow> (unit, 's ptr_state) act" where
  "ptr_run S [] = Done ()"
| "ptr_run S (x # xs) = seqR (ptr_exec S x) (\<lambda>_. ptr_run S xs)"

text \<open>The pointer objects alive after an operation, \<open>None\<close> when the operation uses one that is not
  alive or makes one where there is one already.\<close>

fun scope_step :: "ptr_op \<Rightarrow> nat set \<Rightarrow> nat set option" where
  "scope_step (MakePtr v p) V = (if v \<in> V then None else Some (insert v V))"
| "scope_step (CopyPtr v u) V = (if v \<in> V \<or> u \<notin> V then None else Some (insert v V))"
| "scope_step (MovePtr v u) V = (if v \<in> V \<or> u \<notin> V then None else Some (insert v V))"
| "scope_step (MoveAssignPtr v u) V = (if v \<in> V \<and> u \<in> V then Some V else None)"
| "scope_step (AssignRawPtr tmp v p) V = (if tmp \<notin> V \<and> v \<in> V then Some V else None)"
| "scope_step (AssignPtr tmp v u) V = (if tmp \<notin> V \<and> v \<in> V \<and> u \<in> V then Some V else None)"
| "scope_step (SwapPtr v u) V = (if v \<in> V \<and> u \<in> V then Some V else None)"
| "scope_step (DestroyPtr v) V = (if v \<in> V then Some (V - {v}) else None)"

fun well_scoped :: "ptr_op list \<Rightarrow> nat set \<Rightarrow> bool" where
  "well_scoped [] V = True"
| "well_scoped (x # xs) V = (case scope_step x V of None \<Rightarrow> False | Some V' \<Rightarrow> well_scoped xs V')"

section \<open>Reference counts are exact\<close>

definition counts_references :: "'s shared_ops \<Rightarrow> ('s \<Rightarrow> nat \<Rightarrow> nat) \<Rightarrow> bool" where
  "counts_references S refs \<longleftrightarrow> (\<forall>a s.
     (\<exists>s'. addReference S a s = Done () s' \<and> refs s' = (refs s)(a := Suc (refs s a)))
   \<and> (0 < refs s a \<longrightarrow> (\<exists>s'. removeReference S a s = Done () s' \<and> refs s' = (refs s)(a := refs s a - 1))))"

definition pointers_to :: "(nat \<rightharpoonup> nat option) \<Rightarrow> nat \<Rightarrow> nat set" where
  "pointers_to vars a = {v. vars v = Some (Some a)}"

definition exact :: "('s \<Rightarrow> nat \<Rightarrow> nat) \<Rightarrow> nat set \<Rightarrow> 's ptr_state \<Rightarrow> bool" where
  "exact refs V x \<longleftrightarrow> finite V \<and> dom (fst x) = V \<and> (\<forall>a. refs (snd x) a = card (pointers_to (fst x) a))"

lemma pointers_to_finite: "finite (dom vars) \<Longrightarrow> finite (pointers_to vars a)"
  by (rule finite_subset[of _ "dom vars"]) (auto simp: pointers_to_def)

lemma card_pointers_set:
  assumes "finite (dom vars)" "vars v \<noteq> Some (Some a) \<or> p = Some a"
  shows "card (pointers_to (vars(v \<mapsto> p)) a) = (if p = Some a \<and> vars v \<noteq> Some (Some a) then Suc (card (pointers_to vars a)) else card (pointers_to vars a))"
proof -
  have "pointers_to (vars(v \<mapsto> p)) a = (if p = Some a then insert v (pointers_to vars a) else pointers_to vars a)"
    using assms(2) by (auto simp: pointers_to_def split: if_splits)
  then show ?thesis using pointers_to_finite[OF assms(1), of a] by (auto simp: card_insert_if) (auto simp: pointers_to_def)
qed

lemma card_pointers_clear:
  assumes "finite (dom vars)" "vars v = Some (Some a)" "p \<noteq> Some (Some a)"
  shows "card (pointers_to (vars(v := p)) a) = card (pointers_to vars a) - 1" "0 < card (pointers_to vars a)"
proof -
  have "pointers_to (vars(v := p)) a = pointers_to vars a - {v}" "v \<in> pointers_to vars a"
    using assms(2,3) by (auto simp: pointers_to_def split: if_splits)
  then show "card (pointers_to (vars(v := p)) a) = card (pointers_to vars a) - 1" "0 < card (pointers_to vars a)"
    using pointers_to_finite[OF assms(1), of a] by (auto simp: card_gt_0_iff)
qed


lemma card_pointers_swap: "card (pointers_to (vars(u := vars v, v := vars u)) a) = card (pointers_to vars a)"
proof -
  let ?t = "\<lambda>w. if w = u then v else if w = v then u else w"
  have "inj ?t" "surj ?t" by (auto simp: inj_def surj_def)
  moreover have "pointers_to (vars(u := vars v, v := vars u)) a = ?t -` pointers_to vars a"
    by (auto simp: pointers_to_def split: if_splits)
  ultimately show ?thesis by (simp add: card_vimage_inj)
qed

lemmas ptr_defs = pointee_def set_pointee_def on_object_def addref_def release_def

lemma ptr_ctor_exact:
  assumes "counts_references S refs" "exact refs V x" "v \<notin> V"
  shows "\<exists>x'. ptr_ctor S v p x = Done () x' \<and> exact refs (insert v V) x' \<and> fst x' = (fst x)(v \<mapsto> p)"
proof (cases p)
  case None
  with assms(2,3) have "exact refs (insert v V) ((fst x)(v \<mapsto> p), snd x)"
    using card_pointers_set[of "fst x" v _ p] by (auto simp: exact_def)
  with None show ?thesis by (simp add: ptr_ctor_def ptr_defs)
next
  case (Some b)
  obtain s' where s': "addReference S b (snd x) = Done () s'" "refs s' = (refs (snd x))(b := Suc (refs (snd x) b))"
    using assms(1) unfolding counts_references_def by blast
  have "fst x v = None" using assms(2,3) by (auto simp: exact_def)
  with assms(2) s'(2) Some have "exact refs (insert v V) ((fst x)(v \<mapsto> p), s')"
    using card_pointers_set[of "fst x" v _ p] by (auto simp: exact_def)
  with Some s'(1) show ?thesis by (simp add: ptr_ctor_def ptr_defs)
qed

lemma ptr_move_ctor_exact:
  assumes "exact refs V x" "v \<notin> V" "u \<in> V"
  shows "\<exists>x'. ptr_move_ctor v u x = Done () x' \<and> exact refs (insert v V) x'"
proof -
  from assms obtain p where p: "fst x u = Some p" "u \<noteq> v" "fst x v = None" "finite (dom (fst x))" by (auto simp: exact_def)
  have "card (pointers_to ((fst x)(v \<mapsto> p, u \<mapsto> None)) a) = card (pointers_to (fst x) a)" for a
  proof (cases "p = Some a")
    case True
    with p show ?thesis
      using card_pointers_set[of "fst x" v a p] card_pointers_clear(1)[of "(fst x)(v \<mapsto> p)" u a "Some None"] by simp
  next
    case False
    with p show ?thesis
      using card_pointers_set[of "fst x" v a p] card_pointers_set[of "(fst x)(v \<mapsto> p)" u a None] by simp
  qed
  with assms p show ?thesis by (auto simp: ptr_move_ctor_def ptr_defs exact_def insert_absorb)
qed

lemma ptr_swap_exact:
  assumes "exact refs V x" "u \<in> V" "v \<in> V"
  shows "\<exists>x'. ptr_swap u v x = Done () x' \<and> exact refs V x' \<and> fst x' = (fst x)(u := fst x v, v := fst x u)"
proof -
  from assms obtain p q where p: "fst x u = Some p" "fst x v = Some q" by (auto simp: exact_def)
  have "(fst x)(u \<mapsto> q, v \<mapsto> p) = (fst x)(u := fst x v, v := fst x u)" using p by simp
  then have "exact refs V ((fst x)(u \<mapsto> q, v \<mapsto> p), snd x)" using assms card_pointers_swap[of "fst x" u v]
    by (auto simp: exact_def insert_absorb)
  with p show ?thesis by (simp add: ptr_swap_def ptr_defs)
qed

lemma ptr_dtor_exact:
  assumes "counts_references S refs" "exact refs V x" "v \<in> V"
  shows "\<exists>x'. ptr_dtor S v x = Done () x' \<and> exact refs (V - {v}) x' \<and> fst x' = (fst x)(v := None)"
proof -
  from assms obtain p where p: "fst x v = Some p" "finite (dom (fst x))" by (auto simp: exact_def)
  have same: "card (pointers_to ((fst x)(v := None)) a) = card (pointers_to (fst x) a)" if "p \<noteq> Some a" for a
  proof -
    have "pointers_to ((fst x)(v := None)) a = pointers_to (fst x) a" using p that by (auto simp: pointers_to_def)
    then show ?thesis by simp
  qed
  show ?thesis
  proof (cases p)
    case None
    with p same assms(2) have "exact refs (V - {v}) ((fst x)(v := None), snd x)" by (auto simp: exact_def)
    with None p show ?thesis by (simp add: ptr_dtor_def ptr_defs)
  next
    case (Some b)
    with p have b: "0 < refs (snd x) b" "card (pointers_to ((fst x)(v := None)) b) = refs (snd x) b - 1"
      using assms(2) card_pointers_clear[of "fst x" v b None] by (auto simp: exact_def)
    then obtain s' where s': "removeReference S b (snd x) = Done () s'" "refs s' = (refs (snd x))(b := refs (snd x) b - 1)"
      using assms(1) unfolding counts_references_def by blast
    with Some p same b assms(2) have "exact refs (V - {v}) ((fst x)(v := None), s')" by (auto simp: exact_def)
    with Some s'(1) p show ?thesis by (simp add: ptr_dtor_def ptr_defs)
  qed
qed

text \<open>An assignment leaves \<open>this\<close> pointing to \<open>rhs\<close> and every other pointer as it was; the temporary
  is gone.\<close>

lemma ptr_assign_raw_exact:
  assumes "counts_references S refs" "exact refs V x" "tmp \<notin> V" "v \<in> V"
  shows "\<exists>x'. ptr_assign_raw S tmp v p x = Done () x' \<and> exact refs V x' \<and> fst x' = (fst x)(v \<mapsto> p)"
proof -
  obtain x1 where x1: "ptr_ctor S tmp p x = Done () x1" "exact refs (insert tmp V) x1" "fst x1 = (fst x)(tmp \<mapsto> p)"
    using ptr_ctor_exact[OF assms(1,2,3)] by blast
  obtain x2 where x2: "ptr_swap tmp v x1 = Done () x2" "exact refs (insert tmp V) x2" "fst x2 = (fst x1)(tmp := fst x1 v, v := fst x1 tmp)"
    using ptr_swap_exact[OF x1(2), of tmp v] assms(4) by blast
  obtain x3 where x3: "ptr_dtor S tmp x2 = Done () x3" "exact refs (insert tmp V - {tmp}) x3" "fst x3 = (fst x2)(tmp := None)"
    using ptr_dtor_exact[OF assms(1) x2(2), of tmp] by blast
  have "fst x tmp = None" "tmp \<noteq> v" using assms(2,3,4) by (auto simp: exact_def)
  then have "fst x3 = (fst x)(v \<mapsto> p)" using x1(3) x2(3) x3(3) by (auto simp: fun_eq_iff)
  with x1(1) x2(1) x3 assms(3) show ?thesis by (simp add: ptr_assign_raw_def)
qed

lemma pointee_alive: "exact refs V x \<Longrightarrow> v \<in> V \<Longrightarrow> \<exists>p. pointee v x = Done p x \<and> fst x v = Some p"
  by (auto simp: exact_def pointee_def)

lemma ptr_exec_exact:
  assumes "counts_references S refs" "exact refs V x" "scope_step c V = Some V'"
  shows "\<exists>x'. ptr_exec S c x = Done () x' \<and> exact refs V' x'"
proof (cases c)
  case (MakePtr v p)
  with assms ptr_ctor_exact[OF assms(1,2), of v p] show ?thesis by (auto split: if_splits)
next
  case (CopyPtr v u)
  with assms(3) have "u \<in> V" by (auto split: if_splits)
  then obtain p where "pointee u x = Done p x" using pointee_alive[OF assms(2)] by blast
  then have "ptr_copy_ctor S v u x = ptr_ctor S v p x" by (simp add: ptr_copy_ctor_def ptr_ctor_def)
  with CopyPtr assms ptr_ctor_exact[OF assms(1,2), of v p] show ?thesis by (auto split: if_splits)
next
  case (MovePtr v u)
  with assms ptr_move_ctor_exact[OF assms(2), of v u] show ?thesis by (auto split: if_splits)
next
  case (MoveAssignPtr v u)
  with assms ptr_swap_exact[OF assms(2), of u v] show ?thesis by (auto simp: ptr_move_assign_def split: if_splits)
next
  case (AssignRawPtr tmp v p)
  with assms ptr_assign_raw_exact[OF assms(1,2), of tmp v p] show ?thesis by (auto split: if_splits)
next
  case (AssignPtr tmp v u)
  with assms(3) have "u \<in> V" by (auto split: if_splits)
  then obtain p where "pointee u x = Done p x" using pointee_alive[OF assms(2)] by blast
  with AssignPtr assms ptr_assign_raw_exact[OF assms(1,2), of tmp v p] show ?thesis
    by (auto simp: ptr_assign_def split: if_splits)
next
  case (SwapPtr v u)
  with assms ptr_swap_exact[OF assms(2), of v u] show ?thesis by (auto split: if_splits)
next
  case (DestroyPtr v)
  with assms ptr_dtor_exact[OF assms(1,2), of v] show ?thesis by (auto split: if_splits)
qed

lemma ptr_run_exact:
  "counts_references S refs \<Longrightarrow> exact refs V x \<Longrightarrow> well_scoped ps V
     \<Longrightarrow> \<exists>x' V'. ptr_run S ps x = Done () x' \<and> exact refs V' x'"
proof (induction ps arbitrary: V x)
  case Nil
  then show ?case by auto
next
  case (Cons c ps)
  then obtain V' where V': "scope_step c V = Some V'" "well_scoped ps V'" by (auto split: option.splits)
  from ptr_exec_exact[OF Cons.prems(1,2) V'(1)] obtain x' where "ptr_exec S c x = Done () x'" "exact refs V' x'" by blast
  with Cons.IH[OF Cons.prems(1)] V'(2) show ?case by auto
qed


definition counting_ops :: "(nat \<Rightarrow> nat) shared_ops" where
  "counting_ops = \<lparr>addReference = (\<lambda>a s. Done () (s(a := Suc (s a)))), removeReference = (\<lambda>a s. Done () (s(a := s a - 1)))\<rparr>"

lemma counting_ops_counts: "counts_references counting_ops (\<lambda>s. s)"
  by (simp add: counts_references_def counting_ops_def)


end
