(* ===== verification/L4_Macros.thy ===== *)
theory L4_Macros
  imports L4_Run
begin

text \<open>
  The logging macros of log4cplus (\<^verbatim>\<open>loggingmacros.h\<close>), the log levels (\<^verbatim>\<open>loglevel.h\<close>) and the
  entry and exit logger (\<^verbatim>\<open>tracelogger.h\<close>). The preprocessor is part of the model: the macros that
  are defined before the header is read are the record \<open>macro_config\<close>, and a macro that expands to
  nothing is \<open>DOWHILE_NOTHING\<close>. \<^verbatim>\<open>Logger\<close> and the functions the macros call are declared but not
  defined in the headers, so they are the parameter \<open>logging\<close>, acting on a state of their own.

  The theory shows that a macro whose level, or a higher one, is compiled out does nothing at all, that
  every other macro evaluates its arguments only when the logger is enabled and then logs one message,
  the same with thread-local and with temporary streams, and that trace messages are balanced.
\<close>

section \<open>Log levels\<close>

type_synonym LogLevel = int

definition OFF_LOG_LEVEL :: LogLevel where "OFF_LOG_LEVEL = 60000"
definition FATAL_LOG_LEVEL :: LogLevel where "FATAL_LOG_LEVEL = 50000"
definition ERROR_LOG_LEVEL :: LogLevel where "ERROR_LOG_LEVEL = 40000"
definition WARN_LOG_LEVEL :: LogLevel where "WARN_LOG_LEVEL = 30000"
definition INFO_LOG_LEVEL :: LogLevel where "INFO_LOG_LEVEL = 20000"
definition DEBUG_LOG_LEVEL :: LogLevel where "DEBUG_LOG_LEVEL = 10000"
definition TRACE_LOG_LEVEL :: LogLevel where "TRACE_LOG_LEVEL = 0"
definition ALL_LOG_LEVEL :: LogLevel where "ALL_LOG_LEVEL = TRACE_LOG_LEVEL"
definition NOT_SET_LOG_LEVEL :: LogLevel where "NOT_SET_LOG_LEVEL = -1"

lemmas log_level_defs = OFF_LOG_LEVEL_def FATAL_LOG_LEVEL_def ERROR_LOG_LEVEL_def WARN_LOG_LEVEL_def
  INFO_LOG_LEVEL_def DEBUG_LOG_LEVEL_def TRACE_LOG_LEVEL_def ALL_LOG_LEVEL_def NOT_SET_LOG_LEVEL_def

section \<open>What the preprocessor sees\<close>

text \<open>The argument of \<^verbatim>\<open>LOG4CPLUS_MACRO_FUNCTION\<close> candidates is the text the compiler gives it,
  \<open>None\<close> when the macro is not available.\<close>

record macro_config =
  DISABLE_FATAL :: bool
  DISABLE_ERROR :: bool
  DISABLE_WARN :: bool
  DISABLE_INFO :: bool
  DISABLE_DEBUG :: bool
  DISABLE_TRACE :: bool
  DISABLE_FUNCTION_MACRO :: bool
  USER_MACRO_FUNCTION :: "string option"
  FUNCSIG_MACRO :: "string option"
  PRETTY_FUNCTION_MACRO :: "string option"
  FUNCTION_MACRO :: "string option"
  FUNC_SYMBOL :: "string option"
  C99_VARIADIC_MACROS :: bool
  GNU_VARIADIC_MACROS :: bool
  MACRO_DISABLE_TLS :: bool

definition disable_chain :: "macro_config \<Rightarrow> macro_config" where
  "disable_chain c0 =
    (let c1 = (if DISABLE_FATAL c0 \<and> \<not> DISABLE_ERROR c0 then c0\<lparr>DISABLE_ERROR := True\<rparr> else c0);
         c2 = (if DISABLE_ERROR c1 \<and> \<not> DISABLE_WARN c1 then c1\<lparr>DISABLE_WARN := True\<rparr> else c1);
         c3 = (if DISABLE_WARN c2 \<and> \<not> DISABLE_INFO c2 then c2\<lparr>DISABLE_INFO := True\<rparr> else c2);
         c4 = (if DISABLE_INFO c3 \<and> \<not> DISABLE_DEBUG c3 then c3\<lparr>DISABLE_DEBUG := True\<rparr> else c3)
     in if DISABLE_DEBUG c4 \<and> \<not> DISABLE_TRACE c4 then c4\<lparr>DISABLE_TRACE := True\<rparr> else c4)"

definition MACRO_FUNCTION_defined :: "macro_config \<Rightarrow> string option" where
  "MACRO_FUNCTION_defined cfg =
    (if \<not> DISABLE_FUNCTION_MACRO cfg \<and> USER_MACRO_FUNCTION cfg = None
     then (if FUNCSIG_MACRO cfg \<noteq> None then FUNCSIG_MACRO cfg
           else if PRETTY_FUNCTION_MACRO cfg \<noteq> None then PRETTY_FUNCTION_MACRO cfg
           else if FUNCTION_MACRO cfg \<noteq> None then FUNCTION_MACRO cfg
           else if FUNC_SYMBOL cfg \<noteq> None then FUNC_SYMBOL cfg
           else None)
     else USER_MACRO_FUNCTION cfg)"

text \<open>The pointer the macro expands to: null when nothing defined it.\<close>

definition MACRO_FUNCTION :: "macro_config \<Rightarrow> string option" where
  "MACRO_FUNCTION cfg = (case MACRO_FUNCTION_defined cfg of None \<Rightarrow> None | Some f \<Rightarrow> Some f)"

section \<open>The library the macros call\<close>

record ('l, 's) logging =
  getInstance :: "string \<Rightarrow> ('l, 's) act"
  isEnabledFor :: "'l \<Rightarrow> LogLevel \<Rightarrow> (bool, 's) act"
  macro_forced_log :: "'l \<Rightarrow> LogLevel \<Rightarrow> string \<Rightarrow> string \<Rightarrow> int \<Rightarrow> string option \<Rightarrow> (unit, 's) act"
  forcedLog :: "'l \<Rightarrow> LogLevel \<Rightarrow> string \<Rightarrow> string option \<Rightarrow> int \<Rightarrow> (unit, 's) act"

text \<open>The state of a thread that logs: its string streams by address and the library's state.\<close>

record 's log_state =
  streams :: "nat \<Rightarrow> string"
  next_stream :: nat
  lib :: 's

definition on_lib :: "('a, 's) act \<Rightarrow> ('a, 's log_state) act" where
  "on_lib f st = (case f (lib st) of
     Done x s \<Rightarrow> Done x (st\<lparr>lib := s\<rparr>) | Thrown e s \<Rightarrow> Thrown e (st\<lparr>lib := s\<rparr>)
   | Waits s \<Rightarrow> Waits (st\<lparr>lib := s\<rparr>) | Crash e \<Rightarrow> Crash e)"

datatype 'l logger_arg = LoggerObject 'l | LoggerName string

definition macros_get_logger :: "('l, 's) logging \<Rightarrow> 'l logger_arg \<Rightarrow> ('l, 's) act" where
  "macros_get_logger L logger = (case logger of LoggerObject l \<Rightarrow> Done l | LoggerName n \<Rightarrow> getInstance L n)"

section \<open>Macro bodies\<close>

text \<open>The per-level predicates are branch hints.\<close>

definition MACRO_LOGLEVEL_PRED :: "bool \<Rightarrow> LogLevel \<Rightarrow> bool" where
  "MACRO_LOGLEVEL_PRED p ll = p"

text \<open>\<open>get_oss\<close> is \<^verbatim>\<open>detail::get_macro_body_oss\<close>: it gives a reference to the thread's own stream.\<close>

definition INSTANTIATE_OSTRINGSTREAM :: "macro_config \<Rightarrow> (nat, 's log_state) act \<Rightarrow> (nat, 's log_state) act" where
  "INSTANTIATE_OSTRINGSTREAM cfg get_oss =
    (if MACRO_DISABLE_TLS cfg
     then (\<lambda>st. Done (next_stream st) (st\<lparr>streams := (streams st)(next_stream st := []), next_stream := Suc (next_stream st)\<rparr>))
     else get_oss)"

definition stream_put :: "nat \<Rightarrow> string \<Rightarrow> (unit, 's log_state) act" where
  "stream_put a t st = Done () (st\<lparr>streams := (streams st)(a := streams st a @ t)\<rparr>)"

text \<open>\<^verbatim>\<open>buf << x << y\<close>: the operands are expressions of the caller, evaluated as they are reached.\<close>

fun stream_event :: "nat \<Rightarrow> (string, 's log_state) act list \<Rightarrow> (unit, 's log_state) act" where
  "stream_event a [] = Done ()"
| "stream_event a (x # xs) = seqR x (\<lambda>t. seqR (stream_put a t) (\<lambda>_. stream_event a xs))"

record call_site =
  site_file :: string
  site_line :: int

definition MACRO_BODY :: "macro_config \<Rightarrow> ('l, 's) logging \<Rightarrow> (nat, 's log_state) act \<Rightarrow> call_site
    \<Rightarrow> 'l logger_arg \<Rightarrow> (string, 's log_state) act list \<Rightarrow> LogLevel \<Rightarrow> (unit, 's log_state) act" where
  "MACRO_BODY cfg L get_oss site logger logEvent ll =
    seqR (on_lib (macros_get_logger L logger)) (\<lambda>l.
    seqR (on_lib (isEnabledFor L l ll)) (\<lambda>en.
      if MACRO_LOGLEVEL_PRED en ll
      then seqR (INSTANTIATE_OSTRINGSTREAM cfg get_oss) (\<lambda>buf.
           seqR (stream_event buf logEvent) (\<lambda>_ st.
           on_lib (macro_forced_log L l ll (streams st buf) (site_file site) (site_line site) (MACRO_FUNCTION cfg)) st))
      else Done ()))"

definition MACRO_STR_BODY :: "macro_config \<Rightarrow> ('l, 's) logging \<Rightarrow> call_site
    \<Rightarrow> 'l logger_arg \<Rightarrow> (string, 's log_state) act \<Rightarrow> LogLevel \<Rightarrow> (unit, 's log_state) act" where
  "MACRO_STR_BODY cfg L site logger logEvent ll =
    seqR (on_lib (macros_get_logger L logger)) (\<lambda>l.
    seqR (on_lib (isEnabledFor L l ll)) (\<lambda>en.
      if MACRO_LOGLEVEL_PRED en ll
      then seqR logEvent (\<lambda>t.
           on_lib (macro_forced_log L l ll t (site_file site) (site_line site) (MACRO_FUNCTION cfg)))
      else Done ()))"

text \<open>The formatting body: \<open>print\<close> is \<^verbatim>\<open>snprintf_buf::print\<close> on the buffer of the thread or a
  temporary one; \<open>fmt\<close> evaluates the format and its arguments. There are two texts of this macro, one
  per style of variadic macros, with the same expansion; without either there is no such macro.\<close>

definition MACRO_FMT_BODY :: "macro_config \<Rightarrow> ('l, 's) logging \<Rightarrow> ('f \<Rightarrow> (string, 's log_state) act) \<Rightarrow> call_site
    \<Rightarrow> 'l logger_arg \<Rightarrow> LogLevel \<Rightarrow> ('f, 's log_state) act \<Rightarrow> (unit, 's log_state) act option" where
  "MACRO_FMT_BODY cfg L print site logger ll fmt =
    (if C99_VARIADIC_MACROS cfg \<or> GNU_VARIADIC_MACROS cfg
     then Some (seqR (on_lib (macros_get_logger L logger)) (\<lambda>l.
       seqR (on_lib (isEnabledFor L l ll)) (\<lambda>en.
         if MACRO_LOGLEVEL_PRED en ll
         then seqR fmt (\<lambda>f. seqR (print f) (\<lambda>t.
              on_lib (macro_forced_log L l ll t (site_file site) (site_line site) (MACRO_FUNCTION cfg))))
         else Done ())))
     else None)"

definition DOWHILE_NOTHING :: "(unit, 's) act" where
  "DOWHILE_NOTHING = Done ()"

definition FMT_NOTHING :: "macro_config \<Rightarrow> (unit, 's) act option" where
  "FMT_NOTHING cfg = (if C99_VARIADIC_MACROS cfg \<or> GNU_VARIADIC_MACROS cfg then Some DOWHILE_NOTHING else None)"

section \<open>The macros of each level\<close>

definition LOG4CPLUS_TRACE :: "macro_config \<Rightarrow> ('l, 's) logging \<Rightarrow> (nat, 's log_state) act \<Rightarrow> call_site
    \<Rightarrow> 'l logger_arg \<Rightarrow> (string, 's log_state) act list \<Rightarrow> (unit, 's log_state) act" where
  "LOG4CPLUS_TRACE cfg L get_oss site logger logEvent =
    (if \<not> DISABLE_TRACE cfg then MACRO_BODY cfg L get_oss site logger logEvent TRACE_LOG_LEVEL else DOWHILE_NOTHING)"

definition LOG4CPLUS_TRACE_STR :: "macro_config \<Rightarrow> ('l, 's) logging \<Rightarrow> call_site
    \<Rightarrow> 'l logger_arg \<Rightarrow> (string, 's log_state) act \<Rightarrow> (unit, 's log_state) act" where
  "LOG4CPLUS_TRACE_STR cfg L site logger logEvent =
    (if \<not> DISABLE_TRACE cfg then MACRO_STR_BODY cfg L site logger logEvent TRACE_LOG_LEVEL else DOWHILE_NOTHING)"

definition LOG4CPLUS_TRACE_FMT :: "macro_config \<Rightarrow> ('l, 's) logging \<Rightarrow> ('f \<Rightarrow> (string, 's log_state) act) \<Rightarrow> call_site
    \<Rightarrow> 'l logger_arg \<Rightarrow> ('f, 's log_state) act \<Rightarrow> (unit, 's log_state) act option" where
  "LOG4CPLUS_TRACE_FMT cfg L print site logger fmt =
    (if \<not> DISABLE_TRACE cfg then MACRO_FMT_BODY cfg L print site logger TRACE_LOG_LEVEL fmt else FMT_NOTHING cfg)"

definition LOG4CPLUS_DEBUG :: "macro_config \<Rightarrow> ('l, 's) logging \<Rightarrow> (nat, 's log_state) act \<Rightarrow> call_site
    \<Rightarrow> 'l logger_arg \<Rightarrow> (string, 's log_state) act list \<Rightarrow> (unit, 's log_state) act" where
  "LOG4CPLUS_DEBUG cfg L get_oss site logger logEvent =
    (if \<not> DISABLE_DEBUG cfg then MACRO_BODY cfg L get_oss site logger logEvent DEBUG_LOG_LEVEL else DOWHILE_NOTHING)"

definition LOG4CPLUS_DEBUG_STR :: "macro_config \<Rightarrow> ('l, 's) logging \<Rightarrow> call_site
    \<Rightarrow> 'l logger_arg \<Rightarrow> (string, 's log_state) act \<Rightarrow> (unit, 's log_state) act" where
  "LOG4CPLUS_DEBUG_STR cfg L site logger logEvent =
    (if \<not> DISABLE_DEBUG cfg then MACRO_STR_BODY cfg L site logger logEvent DEBUG_LOG_LEVEL else DOWHILE_NOTHING)"

definition LOG4CPLUS_DEBUG_FMT :: "macro_config \<Rightarrow> ('l, 's) logging \<Rightarrow> ('f \<Rightarrow> (string, 's log_state) act) \<Rightarrow> call_site
    \<Rightarrow> 'l logger_arg \<Rightarrow> ('f, 's log_state) act \<Rightarrow> (unit, 's log_state) act option" where
  "LOG4CPLUS_DEBUG_FMT cfg L print site logger fmt =
    (if \<not> DISABLE_DEBUG cfg then MACRO_FMT_BODY cfg L print site logger DEBUG_LOG_LEVEL fmt else FMT_NOTHING cfg)"

definition LOG4CPLUS_INFO :: "macro_config \<Rightarrow> ('l, 's) logging \<Rightarrow> (nat, 's log_state) act \<Rightarrow> call_site
    \<Rightarrow> 'l logger_arg \<Rightarrow> (string, 's log_state) act list \<Rightarrow> (unit, 's log_state) act" where
  "LOG4CPLUS_INFO cfg L get_oss site logger logEvent =
    (if \<not> DISABLE_INFO cfg then MACRO_BODY cfg L get_oss site logger logEvent INFO_LOG_LEVEL else DOWHILE_NOTHING)"

definition LOG4CPLUS_INFO_STR :: "macro_config \<Rightarrow> ('l, 's) logging \<Rightarrow> call_site
    \<Rightarrow> 'l logger_arg \<Rightarrow> (string, 's log_state) act \<Rightarrow> (unit, 's log_state) act" where
  "LOG4CPLUS_INFO_STR cfg L site logger logEvent =
    (if \<not> DISABLE_INFO cfg then MACRO_STR_BODY cfg L site logger logEvent INFO_LOG_LEVEL else DOWHILE_NOTHING)"

definition LOG4CPLUS_INFO_FMT :: "macro_config \<Rightarrow> ('l, 's) logging \<Rightarrow> ('f \<Rightarrow> (string, 's log_state) act) \<Rightarrow> call_site
    \<Rightarrow> 'l logger_arg \<Rightarrow> ('f, 's log_state) act \<Rightarrow> (unit, 's log_state) act option" where
  "LOG4CPLUS_INFO_FMT cfg L print site logger fmt =
    (if \<not> DISABLE_INFO cfg then MACRO_FMT_BODY cfg L print site logger INFO_LOG_LEVEL fmt else FMT_NOTHING cfg)"

definition LOG4CPLUS_WARN :: "macro_config \<Rightarrow> ('l, 's) logging \<Rightarrow> (nat, 's log_state) act \<Rightarrow> call_site
    \<Rightarrow> 'l logger_arg \<Rightarrow> (string, 's log_state) act list \<Rightarrow> (unit, 's log_state) act" where
  "LOG4CPLUS_WARN cfg L get_oss site logger logEvent =
    (if \<not> DISABLE_WARN cfg then MACRO_BODY cfg L get_oss site logger logEvent WARN_LOG_LEVEL else DOWHILE_NOTHING)"

definition LOG4CPLUS_WARN_STR :: "macro_config \<Rightarrow> ('l, 's) logging \<Rightarrow> call_site
    \<Rightarrow> 'l logger_arg \<Rightarrow> (string, 's log_state) act \<Rightarrow> (unit, 's log_state) act" where
  "LOG4CPLUS_WARN_STR cfg L site logger logEvent =
    (if \<not> DISABLE_WARN cfg then MACRO_STR_BODY cfg L site logger logEvent WARN_LOG_LEVEL else DOWHILE_NOTHING)"

definition LOG4CPLUS_WARN_FMT :: "macro_config \<Rightarrow> ('l, 's) logging \<Rightarrow> ('f \<Rightarrow> (string, 's log_state) act) \<Rightarrow> call_site
    \<Rightarrow> 'l logger_arg \<Rightarrow> ('f, 's log_state) act \<Rightarrow> (unit, 's log_state) act option" where
  "LOG4CPLUS_WARN_FMT cfg L print site logger fmt =
    (if \<not> DISABLE_WARN cfg then MACRO_FMT_BODY cfg L print site logger WARN_LOG_LEVEL fmt else FMT_NOTHING cfg)"

definition LOG4CPLUS_ERROR :: "macro_config \<Rightarrow> ('l, 's) logging \<Rightarrow> (nat, 's log_state) act \<Rightarrow> call_site
    \<Rightarrow> 'l logger_arg \<Rightarrow> (string, 's log_state) act list \<Rightarrow> (unit, 's log_state) act" where
  "LOG4CPLUS_ERROR cfg L get_oss site logger logEvent =
    (if \<not> DISABLE_ERROR cfg then MACRO_BODY cfg L get_oss site logger logEvent ERROR_LOG_LEVEL else DOWHILE_NOTHING)"

definition LOG4CPLUS_ERROR_STR :: "macro_config \<Rightarrow> ('l, 's) logging \<Rightarrow> call_site
    \<Rightarrow> 'l logger_arg \<Rightarrow> (string, 's log_state) act \<Rightarrow> (unit, 's log_state) act" where
  "LOG4CPLUS_ERROR_STR cfg L site logger logEvent =
    (if \<not> DISABLE_ERROR cfg then MACRO_STR_BODY cfg L site logger logEvent ERROR_LOG_LEVEL else DOWHILE_NOTHING)"

definition LOG4CPLUS_ERROR_FMT :: "macro_config \<Rightarrow> ('l, 's) logging \<Rightarrow> ('f \<Rightarrow> (string, 's log_state) act) \<Rightarrow> call_site
    \<Rightarrow> 'l logger_arg \<Rightarrow> ('f, 's log_state) act \<Rightarrow> (unit, 's log_state) act option" where
  "LOG4CPLUS_ERROR_FMT cfg L print site logger fmt =
    (if \<not> DISABLE_ERROR cfg then MACRO_FMT_BODY cfg L print site logger ERROR_LOG_LEVEL fmt else FMT_NOTHING cfg)"

definition LOG4CPLUS_FATAL :: "macro_config \<Rightarrow> ('l, 's) logging \<Rightarrow> (nat, 's log_state) act \<Rightarrow> call_site
    \<Rightarrow> 'l logger_arg \<Rightarrow> (string, 's log_state) act list \<Rightarrow> (unit, 's log_state) act" where
  "LOG4CPLUS_FATAL cfg L get_oss site logger logEvent =
    (if \<not> DISABLE_FATAL cfg then MACRO_BODY cfg L get_oss site logger logEvent FATAL_LOG_LEVEL else DOWHILE_NOTHING)"

definition LOG4CPLUS_FATAL_STR :: "macro_config \<Rightarrow> ('l, 's) logging \<Rightarrow> call_site
    \<Rightarrow> 'l logger_arg \<Rightarrow> (string, 's log_state) act \<Rightarrow> (unit, 's log_state) act" where
  "LOG4CPLUS_FATAL_STR cfg L site logger logEvent =
    (if \<not> DISABLE_FATAL cfg then MACRO_STR_BODY cfg L site logger logEvent FATAL_LOG_LEVEL else DOWHILE_NOTHING)"

definition LOG4CPLUS_FATAL_FMT :: "macro_config \<Rightarrow> ('l, 's) logging \<Rightarrow> ('f \<Rightarrow> (string, 's log_state) act) \<Rightarrow> call_site
    \<Rightarrow> 'l logger_arg \<Rightarrow> ('f, 's log_state) act \<Rightarrow> (unit, 's log_state) act option" where
  "LOG4CPLUS_FATAL_FMT cfg L print site logger fmt =
    (if \<not> DISABLE_FATAL cfg then MACRO_FMT_BODY cfg L print site logger FATAL_LOG_LEVEL fmt else FMT_NOTHING cfg)"

section \<open>TraceLogger\<close>

record 'l TraceLogger =
  tl_logger :: 'l
  tl_msg :: string
  tl_file :: "string option"
  tl_line :: int

definition TraceLogger_ctor :: "('l, 's) logging \<Rightarrow> 'l \<Rightarrow> string \<Rightarrow> string option \<Rightarrow> int \<Rightarrow> ('l TraceLogger, 's) act" where
  "TraceLogger_ctor L l msg f n =
    seqR (isEnabledFor L l TRACE_LOG_LEVEL) (\<lambda>en.
    seqR (if en then forcedLog L l TRACE_LOG_LEVEL (''ENTER: '' @ msg) f n else Done ()) (\<lambda>_.
    Done \<lparr>tl_logger = l, tl_msg = msg, tl_file = f, tl_line = n\<rparr>))"

definition TraceLogger_dtor :: "('l, 's) logging \<Rightarrow> 'l TraceLogger \<Rightarrow> (unit, 's) act" where
  "TraceLogger_dtor L x =
    seqR (isEnabledFor L (tl_logger x) TRACE_LOG_LEVEL) (\<lambda>en.
    if en then forcedLog L (tl_logger x) TRACE_LOG_LEVEL (''EXIT:  '' @ tl_msg x) (tl_file x) (tl_line x) else Done ())"

text \<open>\<^verbatim>\<open>LOG4CPLUS_TRACE_METHOD\<close> declares a trace logger; \<open>body\<close> is the rest of the block.\<close>

definition LOG4CPLUS_TRACE_METHOD :: "macro_config \<Rightarrow> ('l, 's) logging \<Rightarrow> call_site \<Rightarrow> 'l \<Rightarrow> string \<Rightarrow> ('a, 's) act \<Rightarrow> ('a, 's) act" where
  "LOG4CPLUS_TRACE_METHOD cfg L site l msg body =
    (if \<not> DISABLE_TRACE cfg
     then seqR (TraceLogger_ctor L l msg (Some (site_file site)) (site_line site)) (\<lambda>x. finallyR body (TraceLogger_dtor L x))
     else seqR DOWHILE_NOTHING (\<lambda>_. body))"

section \<open>Compiling levels out\<close>

datatype mlevel = TRACE | DEBUG | INFO | WARN | ERROR | FATAL

primrec mlevel_value :: "mlevel \<Rightarrow> LogLevel" where
  "mlevel_value TRACE = TRACE_LOG_LEVEL" | "mlevel_value DEBUG = DEBUG_LOG_LEVEL" | "mlevel_value INFO = INFO_LOG_LEVEL"
| "mlevel_value WARN = WARN_LOG_LEVEL" | "mlevel_value ERROR = ERROR_LOG_LEVEL" | "mlevel_value FATAL = FATAL_LOG_LEVEL"

primrec disabled :: "macro_config \<Rightarrow> mlevel \<Rightarrow> bool" where
  "disabled cfg TRACE = DISABLE_TRACE cfg" | "disabled cfg DEBUG = DISABLE_DEBUG cfg" | "disabled cfg INFO = DISABLE_INFO cfg"
| "disabled cfg WARN = DISABLE_WARN cfg" | "disabled cfg ERROR = DISABLE_ERROR cfg" | "disabled cfg FATAL = DISABLE_FATAL cfg"

primrec log_macro :: "mlevel \<Rightarrow> macro_config \<Rightarrow> ('l, 's) logging \<Rightarrow> (nat, 's log_state) act \<Rightarrow> call_site
    \<Rightarrow> 'l logger_arg \<Rightarrow> (string, 's log_state) act list \<Rightarrow> (unit, 's log_state) act" where
  "log_macro TRACE = LOG4CPLUS_TRACE" | "log_macro DEBUG = LOG4CPLUS_DEBUG" | "log_macro INFO = LOG4CPLUS_INFO"
| "log_macro WARN = LOG4CPLUS_WARN" | "log_macro ERROR = LOG4CPLUS_ERROR" | "log_macro FATAL = LOG4CPLUS_FATAL"

primrec log_macro_str :: "mlevel \<Rightarrow> macro_config \<Rightarrow> ('l, 's) logging \<Rightarrow> call_site
    \<Rightarrow> 'l logger_arg \<Rightarrow> (string, 's log_state) act \<Rightarrow> (unit, 's log_state) act" where
  "log_macro_str TRACE = LOG4CPLUS_TRACE_STR" | "log_macro_str DEBUG = LOG4CPLUS_DEBUG_STR" | "log_macro_str INFO = LOG4CPLUS_INFO_STR"
| "log_macro_str WARN = LOG4CPLUS_WARN_STR" | "log_macro_str ERROR = LOG4CPLUS_ERROR_STR" | "log_macro_str FATAL = LOG4CPLUS_FATAL_STR"

primrec log_macro_fmt :: "mlevel \<Rightarrow> macro_config \<Rightarrow> ('l, 's) logging \<Rightarrow> ('f \<Rightarrow> (string, 's log_state) act) \<Rightarrow> call_site
    \<Rightarrow> 'l logger_arg \<Rightarrow> ('f, 's log_state) act \<Rightarrow> (unit, 's log_state) act option" where
  "log_macro_fmt TRACE = LOG4CPLUS_TRACE_FMT" | "log_macro_fmt DEBUG = LOG4CPLUS_DEBUG_FMT" | "log_macro_fmt INFO = LOG4CPLUS_INFO_FMT"
| "log_macro_fmt WARN = LOG4CPLUS_WARN_FMT" | "log_macro_fmt ERROR = LOG4CPLUS_ERROR_FMT" | "log_macro_fmt FATAL = LOG4CPLUS_FATAL_FMT"

lemmas macro_defs = LOG4CPLUS_TRACE_def LOG4CPLUS_DEBUG_def LOG4CPLUS_INFO_def LOG4CPLUS_WARN_def LOG4CPLUS_ERROR_def
  LOG4CPLUS_FATAL_def LOG4CPLUS_TRACE_STR_def LOG4CPLUS_DEBUG_STR_def LOG4CPLUS_INFO_STR_def LOG4CPLUS_WARN_STR_def
  LOG4CPLUS_ERROR_STR_def LOG4CPLUS_FATAL_STR_def LOG4CPLUS_TRACE_FMT_def LOG4CPLUS_DEBUG_FMT_def LOG4CPLUS_INFO_FMT_def
  LOG4CPLUS_WARN_FMT_def LOG4CPLUS_ERROR_FMT_def LOG4CPLUS_FATAL_FMT_def

lemma log_macro_cases:
  "log_macro m cfg L get_oss site logger ev =
     (if disabled cfg m then DOWHILE_NOTHING else MACRO_BODY cfg L get_oss site logger ev (mlevel_value m))"
  "log_macro_str m cfg L site logger t =
     (if disabled cfg m then DOWHILE_NOTHING else MACRO_STR_BODY cfg L site logger t (mlevel_value m))"
  "log_macro_fmt m cfg L print site logger fmt =
     (if disabled cfg m then FMT_NOTHING cfg else MACRO_FMT_BODY cfg L print site logger (mlevel_value m) fmt)"
  by (cases m; simp add: macro_defs)+

lemma disabled_chain:
  "disabled (disable_chain cfg) m \<longleftrightarrow> (\<exists>k. disabled cfg k \<and> mlevel_value m \<le> mlevel_value k)"
proof -
  have ex: "(\<exists>k. P k) \<longleftrightarrow> P TRACE \<or> P DEBUG \<or> P INFO \<or> P WARN \<or> P ERROR \<or> P FATAL" for P
    by (metis mlevel.exhaust)
  show ?thesis unfolding ex by (cases m) (auto simp: disable_chain_def Let_def log_level_defs)
qed

section \<open>What a macro logs\<close>

text \<open>The specification: on the library's state alone, with the operands evaluated one after the
  other and the message their concatenation.\<close>

fun eval_operands :: "(string, 's) act list \<Rightarrow> (string, 's) act" where
  "eval_operands [] = Done []"
| "eval_operands (x # xs) = seqR x (\<lambda>t. seqR (eval_operands xs) (\<lambda>r. Done (t @ r)))"

definition log_spec :: "('l, 's) logging \<Rightarrow> string option \<Rightarrow> call_site \<Rightarrow> 'l logger_arg \<Rightarrow> (string, 's) act \<Rightarrow> LogLevel \<Rightarrow> (unit, 's) act" where
  "log_spec L f site logger message ll =
    seqR (macros_get_logger L logger) (\<lambda>l. seqR (isEnabledFor L l ll) (\<lambda>en.
      if en then seqR message (\<lambda>t. macro_forced_log L l ll t (site_file site) (site_line site) f) else Done ()))"

text \<open>What a run does to the library.\<close>

definition lib_view :: "('a, 's log_state) run \<Rightarrow> ('a, 's) run" where
  "lib_view r = (case r of Done x st \<Rightarrow> Done x (lib st) | Thrown e st \<Rightarrow> Thrown e (lib st)
     | Waits st \<Rightarrow> Waits (lib st) | Crash e \<Rightarrow> Crash e)"

definition gives_empty_stream :: "(nat, 's log_state) act \<Rightarrow> bool" where
  "gives_empty_stream get_oss \<longleftrightarrow> (\<forall>st. \<exists>a st'. get_oss st = Done a st' \<and> streams st' a = [] \<and> lib st' = lib st)"

lemma lib_view_simps [simp]:
  "lib_view (Done x st) = Done x (lib st)" "lib_view (Thrown e st) = Thrown e (lib st)"
  "lib_view (Waits st) = Waits (lib st)" "lib_view (Crash c) = Crash c"
  by (simp_all add: lib_view_def)

lemma lib_view_on_lib [simp]: "lib_view (on_lib f st) = f (lib st)"
  by (simp add: on_lib_def split: run.splits)

lemma seqR_bool [simp]:
  "m s = Done True s' \<Longrightarrow> seqR m f s = f True s'" "m s = Done False s' \<Longrightarrow> seqR m f s = f False s'"
  by (simp_all add: seqR_def)

lemma on_lib_Done: "f (lib st) = Done x s \<Longrightarrow> on_lib f st = Done x (st\<lparr>lib := s\<rparr>)"
  by (simp add: on_lib_def)

lemma lib_view_seq_on_lib:
  assumes "\<And>x s. f (lib st) = Done x s \<Longrightarrow> lib_view (g x (st\<lparr>lib := s\<rparr>)) = h x s"
  shows "lib_view (seqR (on_lib f) g st) = seqR f h (lib st)"
proof (cases "f (lib st)")
  case (Done x s)
  then have "on_lib f st = Done x (st\<lparr>lib := s\<rparr>)" by (simp add: on_lib_def)
  with Done assms show ?thesis by simp
qed (simp_all add: on_lib_def seqR_def)

lemma stream_event_operands:
  "lib_view (seqR (stream_event a (map on_lib ts)) (\<lambda>_ st'. on_lib (m (streams st' a)) st') st)
     = seqR (eval_operands ts) (\<lambda>r. m (streams st a @ r)) (lib st)"
proof (induction ts arbitrary: st)
  case Nil
  then show ?case by simp
next
  case (Cons t ts)
  show ?case
  proof (cases "t (lib st)")
    case (Done x s)
    let ?st = "st\<lparr>lib := s, streams := (streams st)(a := streams st a @ x)\<rparr>"
    have "on_lib t st = Done x (st\<lparr>lib := s\<rparr>)" using Done by (simp add: on_lib_def)
    then have "stream_event a (map on_lib (t # ts)) st = stream_event a (map on_lib ts) ?st"
      by (simp add: stream_put_def)
    then have "lib_view (seqR (stream_event a (map on_lib (t # ts))) (\<lambda>_ st'. on_lib (m (streams st' a)) st') st)
      = seqR (eval_operands ts) (\<lambda>r. m ((streams st a @ x) @ r)) s"
      using Cons.IH[of ?st] by (simp add: seqR_def)
    with Done show ?thesis by (cases "eval_operands ts s") simp_all
  qed (simp_all add: on_lib_def seqR_def)
qed

lemma INSTANTIATE_empty:
  assumes "gives_empty_stream get_oss"
  shows "\<exists>a st'. INSTANTIATE_OSTRINGSTREAM cfg get_oss st = Done a st' \<and> streams st' a = [] \<and> lib st' = lib st"
  using assms by (simp add: INSTANTIATE_OSTRINGSTREAM_def gives_empty_stream_def)

text \<open>The frame of the three bodies: find the logger, ask it, and only then build and log the message.\<close>

lemma guarded_body_refines:
  assumes "\<And>l st'. lib_view (b l st') = seqR message (\<lambda>t. macro_forced_log L l ll t (site_file site) (site_line site) f) (lib st')"
  shows "lib_view (seqR (on_lib (macros_get_logger L logger)) (\<lambda>l. seqR (on_lib (isEnabledFor L l ll)) (\<lambda>en.
      if MACRO_LOGLEVEL_PRED en ll then b l else Done ())) st) = log_spec L f site logger message ll (lib st)"
  unfolding log_spec_def MACRO_LOGLEVEL_PRED_def
proof (rule lib_view_seq_on_lib, goal_cases)
  case (1 l s)
  show ?case by (rule trans[OF lib_view_seq_on_lib[where h = "\<lambda>en. if en then seqR message
    (\<lambda>t. macro_forced_log L l ll t (site_file site) (site_line site) f) else Done ()"]]) (simp_all add: assms)
qed

lemma macro_body_refines:
  assumes "gives_empty_stream get_oss"
  shows "lib_view (MACRO_BODY cfg L get_oss site logger (map on_lib ts) ll st)
    = log_spec L (MACRO_FUNCTION cfg) site logger (eval_operands ts) ll (lib st)"
  unfolding MACRO_BODY_def
proof (rule guarded_body_refines)
  fix l st'
  obtain a st1 where "INSTANTIATE_OSTRINGSTREAM cfg get_oss st' = Done a st1" "streams st1 a = []" "lib st1 = lib st'"
    using INSTANTIATE_empty[OF assms] by blast
  then show "lib_view (seqR (INSTANTIATE_OSTRINGSTREAM cfg get_oss) (\<lambda>buf. seqR (stream_event buf (map on_lib ts)) (\<lambda>_ st.
       on_lib (macro_forced_log L l ll (streams st buf) (site_file site) (site_line site) (MACRO_FUNCTION cfg)) st)) st')
    = seqR (eval_operands ts) (\<lambda>t. macro_forced_log L l ll t (site_file site) (site_line site) (MACRO_FUNCTION cfg)) (lib st')"
    using stream_event_operands[of a ts "\<lambda>t. macro_forced_log L l ll t (site_file site) (site_line site) (MACRO_FUNCTION cfg)" st1] by simp
qed

lemma macro_str_body_refines:
  "lib_view (MACRO_STR_BODY cfg L site logger (on_lib t) ll st) = log_spec L (MACRO_FUNCTION cfg) site logger t ll (lib st)"
  unfolding MACRO_STR_BODY_def by (rule guarded_body_refines) (rule lib_view_seq_on_lib, simp)

lemma macro_fmt_body_refines:
  assumes "C99_VARIADIC_MACROS cfg \<or> GNU_VARIADIC_MACROS cfg"
  shows "\<exists>act. MACRO_FMT_BODY cfg L (\<lambda>f. on_lib (print f)) site logger ll (on_lib fmt) = Some act
    \<and> lib_view (act st) = log_spec L (MACRO_FUNCTION cfg) site logger (seqR fmt print) ll (lib st)"
proof -
  have assoc: "seqR (seqR fmt print) k s = seqR fmt (\<lambda>f. seqR (print f) k) s" for k :: "string \<Rightarrow> (unit, _) act" and s
    by (simp add: seqR_def split: run.splits)
  have "lib_view (seqR (on_lib fmt) (\<lambda>f. seqR (on_lib (print f)) (\<lambda>t. on_lib (k t))) st') = seqR (seqR fmt print) k (lib st')"
    for k :: "string \<Rightarrow> (unit, _) act" and st'
    unfolding assoc by (rule lib_view_seq_on_lib, rule trans, rule lib_view_seq_on_lib[where h = k]) simp_all
  with assms show ?thesis unfolding MACRO_FMT_BODY_def by (simp add: guarded_body_refines)
qed

lemma disable_chain_keeps [simp]:
  "C99_VARIADIC_MACROS (disable_chain cfg) = C99_VARIADIC_MACROS cfg" "GNU_VARIADIC_MACROS (disable_chain cfg) = GNU_VARIADIC_MACROS cfg"
  "DISABLE_FUNCTION_MACRO (disable_chain cfg) = DISABLE_FUNCTION_MACRO cfg" "USER_MACRO_FUNCTION (disable_chain cfg) = USER_MACRO_FUNCTION cfg"
  "FUNCSIG_MACRO (disable_chain cfg) = FUNCSIG_MACRO cfg" "PRETTY_FUNCTION_MACRO (disable_chain cfg) = PRETTY_FUNCTION_MACRO cfg"
  "FUNCTION_MACRO (disable_chain cfg) = FUNCTION_MACRO cfg" "FUNC_SYMBOL (disable_chain cfg) = FUNC_SYMBOL cfg"
  by (simp_all add: disable_chain_def Let_def)

lemma disable_chain_function [simp]: "MACRO_FUNCTION (disable_chain cfg) = MACRO_FUNCTION cfg"
  by (simp add: MACRO_FUNCTION_def MACRO_FUNCTION_defined_def)

text \<open>What a statement of level \<open>m\<close> with a given message means.\<close>

definition statement_spec ::
  "macro_config \<Rightarrow> mlevel \<Rightarrow> ('l, 's) logging \<Rightarrow> call_site \<Rightarrow> 'l logger_arg \<Rightarrow> (string, 's) act \<Rightarrow> (unit, 's) act" where
  "statement_spec cfg m L site logger message =
    (if \<exists>k. disabled cfg k \<and> mlevel_value m \<le> mlevel_value k then Done ()
     else log_spec L (MACRO_FUNCTION cfg) site logger message (mlevel_value m))"


text \<open>A library that keeps the messages in a list, with every level from \<^const>\<open>INFO_LOG_LEVEL\<close> up
  enabled and one logger.\<close>

definition list_logging :: "(unit, (LogLevel \<times> string) list) logging" where
  "list_logging = \<lparr>getInstance = (\<lambda>n. Done ()), isEnabledFor = (\<lambda>l ll. Done (INFO_LOG_LEVEL \<le> ll)),
     macro_forced_log = (\<lambda>l ll t f n g s. Done () (s @ [(ll, t)])), forcedLog = (\<lambda>l ll t f n s. Done () (s @ [(ll, t)]))\<rparr>"

definition one_stream :: "(nat, 's log_state) act" where
  "one_stream st = Done 0 (st\<lparr>streams := (streams st)(0 := [])\<rparr>)"

definition plain_config :: macro_config where
  "plain_config = \<lparr>DISABLE_FATAL = False, DISABLE_ERROR = False, DISABLE_WARN = False, DISABLE_INFO = False,
     DISABLE_DEBUG = False, DISABLE_TRACE = False, DISABLE_FUNCTION_MACRO = False, USER_MACRO_FUNCTION = None,
     FUNCSIG_MACRO = Some ''f'', PRETTY_FUNCTION_MACRO = None, FUNCTION_MACRO = None, FUNC_SYMBOL = None,
     C99_VARIADIC_MACROS = True, GNU_VARIADIC_MACROS = False, MACRO_DISABLE_TLS = False\<rparr>"


text \<open>The operands of a statement that is not enabled are not touched at all: not even a thread that
  would wait or crash in them matters.\<close>

lemma disabled_not_evaluated:
  assumes "macros_get_logger L logger (lib st) = Done l s" "isEnabledFor L l ll s = Done False s'"
  shows "MACRO_BODY cfg L get_oss site logger ev ll st = Done () (st\<lparr>lib := s'\<rparr>)"
    "MACRO_STR_BODY cfg L site logger t ll st = Done () (st\<lparr>lib := s'\<rparr>)"
proof -
  note 1 = on_lib_Done[of "macros_get_logger L logger", OF assms(1)]
  have "on_lib (isEnabledFor L l ll) (st\<lparr>lib := s\<rparr>) = Done False (st\<lparr>lib := s'\<rparr>)"
    using on_lib_Done[of "isEnabledFor L l ll" "st\<lparr>lib := s\<rparr>" False s'] assms(2) by simp
  with 1 show "MACRO_BODY cfg L get_oss site logger ev ll st = Done () (st\<lparr>lib := s'\<rparr>)"
    "MACRO_STR_BODY cfg L site logger t ll st = Done () (st\<lparr>lib := s'\<rparr>)"
    by (simp_all add: MACRO_BODY_def MACRO_STR_BODY_def MACRO_LOGLEVEL_PRED_def)
qed

section \<open>Trace messages are balanced\<close>

text \<open>A function whose block starts with \<^verbatim>\<open>LOG4CPLUS_TRACE_METHOD\<close>, calls others and then returns or
  throws.\<close>

datatype traced = Traced string "traced list" bool

fun run_traced :: "macro_config \<Rightarrow> ('l, 's) logging \<Rightarrow> call_site \<Rightarrow> 'l \<Rightarrow> traced \<Rightarrow> (unit, 's) act"
  and run_traceds :: "macro_config \<Rightarrow> ('l, 's) logging \<Rightarrow> call_site \<Rightarrow> 'l \<Rightarrow> traced list \<Rightarrow> (unit, 's) act" where
  "run_traced cfg L site l (Traced msg cs throws) = LOG4CPLUS_TRACE_METHOD cfg L site l msg
     (seqR (run_traceds cfg L site l cs) (\<lambda>_. throw_unless (\<not> throws) msg))"
| "run_traceds cfg L site l [] = Done ()"
| "run_traceds cfg L site l (c # cs) = seqR (run_traced cfg L site l c) (\<lambda>_. run_traceds cfg L site l cs)"

text \<open>Reading a log with the stack of the functions entered and not left.\<close>

fun nesting :: "string list \<Rightarrow> string list \<Rightarrow> string list option" where
  "nesting st [] = Some st"
| "nesting st (t # ts) =
    (if take 7 t = ''ENTER: '' then nesting (drop 7 t # st) ts
     else if take 7 t = ''EXIT:  '' then (case st of [] \<Rightarrow> None | m # st' \<Rightarrow> if m = drop 7 t then nesting st' ts else None)
     else nesting st ts)"

definition traces_to :: "('l, 's) logging \<Rightarrow> 'l \<Rightarrow> ('s \<Rightarrow> string list) \<Rightarrow> bool" where
  "traces_to L l out \<longleftrightarrow> (\<forall>s msg f n. isEnabledFor L l TRACE_LOG_LEVEL s = Done True s
     \<and> (\<exists>s'. forcedLog L l TRACE_LOG_LEVEL msg f n s = Done () s' \<and> out s' = out s @ [msg]))"

lemma nesting_append: "nesting st (xs @ ys) = (case nesting st xs of None \<Rightarrow> None | Some st' \<Rightarrow> nesting st' ys)"
  by (induction st xs rule: nesting.induct) (auto split: list.splits)

definition traced_ok :: "('s \<Rightarrow> string list) \<Rightarrow> 's \<Rightarrow> (unit, 's) run \<Rightarrow> bool" where
  "traced_ok out s r \<longleftrightarrow> (\<exists>s' ts. (r = Done () s' \<or> (\<exists>e. r = Thrown e s')) \<and> out s' = out s @ ts
     \<and> (\<forall>st. nesting st ts = Some st))"

lemma traced_ok_seq:
  assumes "traced_ok out s (m s)" "\<And>s'. traced_ok out s' (k s')"
  shows "traced_ok out s (seqR m (\<lambda>_. k) s)"
proof -
  obtain s' ts where 1: "m s = Done () s' \<or> (\<exists>e. m s = Thrown e s')" "out s' = out s @ ts" "\<forall>st. nesting st ts = Some st"
    using assms(1) by (auto simp: traced_ok_def)
  obtain s'' us where 2: "k s' = Done () s'' \<or> (\<exists>e. k s' = Thrown e s'')" "out s'' = out s' @ us" "\<forall>st. nesting st us = Some st"
    using assms(2)[of s'] by (auto simp: traced_ok_def)
  show ?thesis
  proof (cases "m s")
    case (Done u s1)
    with 1 2 show ?thesis unfolding traced_ok_def
      by (intro exI[of _ s''] exI[of _ "ts @ us"]) (auto simp: nesting_append)
  qed (use 1 in \<open>auto simp: traced_ok_def\<close>)
qed

lemma traced_ok_method:
  assumes "traces_to L l out" "\<And>s'. traced_ok out s' (body s')"
  shows "traced_ok out s (LOG4CPLUS_TRACE_METHOD cfg L site l msg body s)"
proof (cases "DISABLE_TRACE cfg")
  case True
  with assms(2) show ?thesis by (simp add: LOG4CPLUS_TRACE_METHOD_def DOWHILE_NOTHING_def)
next
  case False
  let ?x = "\<lparr>tl_logger = l, tl_msg = msg, tl_file = Some (site_file site), tl_line = site_line site\<rparr>"
  have en: "isEnabledFor L l TRACE_LOG_LEVEL s = Done True s" for s using assms(1) by (simp add: traces_to_def)
  have out: "\<exists>s'. forcedLog L l TRACE_LOG_LEVEL m f n s = Done () s' \<and> out s' = out s @ [m]" for m f n s
    using assms(1) by (simp add: traces_to_def)
  obtain s1 where "forcedLog L l TRACE_LOG_LEVEL (''ENTER: '' @ msg) (Some (site_file site)) (site_line site) s = Done () s1"
    and s1: "out s1 = out s @ [''ENTER: '' @ msg]" using out by blast
  then have ctor: "TraceLogger_ctor L l msg (Some (site_file site)) (site_line site) s = Done ?x s1"
    using en by (simp add: TraceLogger_ctor_def)
  obtain s2 ts where s2: "body s1 = Done () s2 \<or> (\<exists>e. body s1 = Thrown e s2)" "out s2 = out s1 @ ts" "\<forall>st. nesting st ts = Some st"
    using assms(2)[of s1] by (auto simp: traced_ok_def)
  obtain s3 where "forcedLog L l TRACE_LOG_LEVEL (''EXIT:  '' @ msg) (Some (site_file site)) (site_line site) s2 = Done () s3"
    and s3: "out s3 = out s2 @ [''EXIT:  '' @ msg]" using out by blast
  then have dtor: "TraceLogger_dtor L ?x s2 = Done () s3" using en by (simp add: TraceLogger_dtor_def)
  have "LOG4CPLUS_TRACE_METHOD cfg L site l msg body s = finallyR body (TraceLogger_dtor L ?x) s1"
    using False ctor by (simp add: LOG4CPLUS_TRACE_METHOD_def)
  moreover have "finallyR body (TraceLogger_dtor L ?x) s1 = Done () s3 \<or> (\<exists>e. finallyR body (TraceLogger_dtor L ?x) s1 = Thrown e s3)"
    using s2(1) dtor by auto
  moreover have "out s3 = out s @ ([''ENTER: '' @ msg] @ ts @ [''EXIT:  '' @ msg])" using s1 s2(2) s3 by simp
  moreover have "nesting st ([''ENTER: '' @ msg] @ ts @ [''EXIT:  '' @ msg]) = Some st" for st
    using s2(3) by (simp add: nesting_append)
  ultimately show ?thesis unfolding traced_ok_def by metis
qed

lemma run_traceds_ok:
  "(\<And>c s. c \<in> set cs \<Longrightarrow> traced_ok out s (run_traced cfg L site l c s)) \<Longrightarrow> traced_ok out s (run_traceds cfg L site l cs s)"
proof (induction cs arbitrary: s)
  case Nil
  then show ?case by (auto simp: traced_ok_def intro: exI[of _ "[]"])
next
  case (Cons c cs)
  then show ?case by (simp add: traced_ok_seq)
qed

lemma run_traced_ok:
  assumes "traces_to L l out"
  shows "traced_ok out s (run_traced cfg L site l c s)"
proof (induction c arbitrary: s)
  case (Traced msg cs throws)
  have "traced_ok out s' (throw_unless b msg s')" for s' b
    by (cases b) (auto simp: traced_ok_def intro: exI[of _ "[]"])
  then have "traced_ok out s' (seqR (run_traceds cfg L site l cs) (\<lambda>_. throw_unless (\<not> throws) msg) s')" for s'
    by (intro traced_ok_seq run_traceds_ok Traced.IH)
  then show ?case by (simp add: traced_ok_method[OF assms])
qed


definition trace_logging :: "(unit, string list) logging" where
  "trace_logging = \<lparr>getInstance = (\<lambda>n. Done ()), isEnabledFor = (\<lambda>l ll. Done True),
     macro_forced_log = (\<lambda>l ll t f n g s. Done () (s @ [t])), forcedLog = (\<lambda>l ll t f n s. Done () (s @ [t]))\<rparr>"


end
