(* ===== verification/L4_Events.thy ===== *)
theory L4_Events
  imports L4_Macros
begin

text \<open>
  The logging event of log4cplus, \<^verbatim>\<open>spi/loggingevent.h\<close>, with the time of
  \<^verbatim>\<open>helpers/timehelper.h\<close>. The context of the thread that asks (\<^verbatim>\<open>getNDC\<close>, \<^verbatim>\<open>getMDC\<close> and the
  thread names) is implemented outside the headers: it is the parameter \<open>thread_context\<close>, what those
  functions return at the time of the call. The getters are \<^verbatim>\<open>const\<close> but fill \<^verbatim>\<open>mutable\<close> caches, so
  they return the event as well. The theory shows that every lazily filled field is fixed by the first
  call that asks for it.
\<close>

section \<open>Time\<close>

record Time =
  tv_sec :: int
  tv_usec :: int

definition Time_sec :: "Time \<Rightarrow> int" where
  "Time_sec x = tv_sec x"

definition Time_usec :: "Time \<Rightarrow> int" where
  "Time_usec x = tv_usec x"

definition Time_set_sec :: "int \<Rightarrow> Time \<Rightarrow> Time" where
  "Time_set_sec s x = x\<lparr>tv_sec := s\<rparr>"

definition Time_set_usec :: "int \<Rightarrow> Time \<Rightarrow> Time" where
  "Time_set_usec us x = x\<lparr>tv_usec := us\<rparr>"

section \<open>InternalLoggingEvent\<close>

record thread_context =
  ctx_ndc :: string
  ctx_mdc :: "string \<rightharpoonup> string"
  ctx_thread :: string
  ctx_thread2 :: string

record InternalLoggingEvent =
  ev_message :: string
  ev_loggerName :: string
  ev_ll :: LogLevel
  ev_ndc :: string
  ev_mdc :: "string \<rightharpoonup> string"
  ev_thread :: string
  ev_thread2 :: string
  ev_timestamp :: Time
  ev_file :: string
  ev_function :: string
  ev_line :: int
  threadCached :: bool
  thread2Cached :: bool
  ndcCached :: bool
  mdcCached :: bool

definition getLoggerName :: "InternalLoggingEvent \<Rightarrow> string" where
  "getLoggerName e = ev_loggerName e"

definition getLogLevel :: "InternalLoggingEvent \<Rightarrow> LogLevel" where
  "getLogLevel e = ev_ll e"

definition getNDC :: "thread_context \<Rightarrow> InternalLoggingEvent \<Rightarrow> string \<times> InternalLoggingEvent" where
  "getNDC ctx e = (let e' = (if \<not> ndcCached e then e\<lparr>ev_ndc := ctx_ndc ctx, ndcCached := True\<rparr> else e) in (ev_ndc e', e'))"

definition getMDCCopy :: "thread_context \<Rightarrow> InternalLoggingEvent \<Rightarrow> (string \<rightharpoonup> string) \<times> InternalLoggingEvent" where
  "getMDCCopy ctx e = (let e' = (if \<not> mdcCached e then e\<lparr>ev_mdc := ctx_mdc ctx, mdcCached := True\<rparr> else e) in (ev_mdc e', e'))"

definition getThread :: "thread_context \<Rightarrow> InternalLoggingEvent \<Rightarrow> string \<times> InternalLoggingEvent" where
  "getThread ctx e = (let e' = (if \<not> threadCached e then e\<lparr>ev_thread := ctx_thread ctx, threadCached := True\<rparr> else e) in (ev_thread e', e'))"

definition getThread2 :: "thread_context \<Rightarrow> InternalLoggingEvent \<Rightarrow> string \<times> InternalLoggingEvent" where
  "getThread2 ctx e = (let e' = (if \<not> thread2Cached e then e\<lparr>ev_thread2 := ctx_thread2 ctx, thread2Cached := True\<rparr> else e) in (ev_thread2 e', e'))"

definition getTimestamp :: "InternalLoggingEvent \<Rightarrow> Time" where
  "getTimestamp e = ev_timestamp e"

definition getFile :: "InternalLoggingEvent \<Rightarrow> string" where
  "getFile e = ev_file e"

definition getLine :: "InternalLoggingEvent \<Rightarrow> int" where
  "getLine e = ev_line e"

definition getFunction :: "InternalLoggingEvent \<Rightarrow> string" where
  "getFunction e = ev_function e"

section \<open>Asking an event in changing contexts\<close>

datatype ev_field = NDC_field | MDC_field | Thread_field | Thread2_field

datatype ev_value = Text string | Context "string \<rightharpoonup> string"

fun ask :: "ev_field \<Rightarrow> thread_context \<Rightarrow> InternalLoggingEvent \<Rightarrow> ev_value \<times> InternalLoggingEvent" where
  "ask NDC_field ctx e = (let (x, e') = getNDC ctx e in (Text x, e'))"
| "ask MDC_field ctx e = (let (x, e') = getMDCCopy ctx e in (Context x, e'))"
| "ask Thread_field ctx e = (let (x, e') = getThread ctx e in (Text x, e'))"
| "ask Thread2_field ctx e = (let (x, e') = getThread2 ctx e in (Text x, e'))"

fun ask_all :: "(ev_field \<times> thread_context) list \<Rightarrow> InternalLoggingEvent \<Rightarrow> ev_value list \<times> InternalLoggingEvent" where
  "ask_all [] e = ([], e)"
| "ask_all ((g, ctx) # qs) e = (let (x, e1) = ask g ctx e; (xs, e2) = ask_all qs e1 in (x # xs, e2))"

text \<open>What a field holds once it is filled, and what a context would fill it with.\<close>

fun filled :: "InternalLoggingEvent \<Rightarrow> ev_field \<Rightarrow> ev_value option" where
  "filled e NDC_field = (if ndcCached e then Some (Text (ev_ndc e)) else None)"
| "filled e MDC_field = (if mdcCached e then Some (Context (ev_mdc e)) else None)"
| "filled e Thread_field = (if threadCached e then Some (Text (ev_thread e)) else None)"
| "filled e Thread2_field = (if thread2Cached e then Some (Text (ev_thread2 e)) else None)"

fun ctx_value :: "thread_context \<Rightarrow> ev_field \<Rightarrow> ev_value" where
  "ctx_value ctx NDC_field = Text (ctx_ndc ctx)"
| "ctx_value ctx MDC_field = Context (ctx_mdc ctx)"
| "ctx_value ctx Thread_field = Text (ctx_thread ctx)"
| "ctx_value ctx Thread2_field = Text (ctx_thread2 ctx)"

text \<open>The fields no getter touches.\<close>

definition ev_fixed :: "InternalLoggingEvent \<Rightarrow> string \<times> string \<times> LogLevel \<times> Time \<times> string \<times> string \<times> int" where
  "ev_fixed e = (ev_message e, ev_loggerName e, ev_ll e, ev_timestamp e, ev_file e, ev_function e, ev_line e)"

lemma ask_spec:
  assumes "ask g ctx e = (x, e')"
  shows "x = (case filled e g of Some y \<Rightarrow> y | None \<Rightarrow> ctx_value ctx g)" "filled e' = (filled e)(g := Some x)"
    "ev_fixed e' = ev_fixed e"
proof -
  show "x = (case filled e g of Some y \<Rightarrow> y | None \<Rightarrow> ctx_value ctx g)" "ev_fixed e' = ev_fixed e"
    using assms by (cases g; auto simp: getNDC_def getMDCCopy_def getThread_def getThread2_def ev_fixed_def Let_def split: if_splits)+
  have "filled e' h = ((filled e)(g := Some x)) h" for h
    using assms by (cases g; cases h; auto simp: getNDC_def getMDCCopy_def getThread_def getThread2_def Let_def split: if_splits)
  then show "filled e' = (filled e)(g := Some x)" by blast
qed

text \<open>The value that a field answers with in a series of calls: what it holds already, or the value
  of the context of the first call that asks for it.\<close>

definition first_answer :: "InternalLoggingEvent \<Rightarrow> (ev_field \<times> thread_context) list \<Rightarrow> ev_field \<Rightarrow> ev_value" where
  "first_answer e qs g = (case filled e g of Some y \<Rightarrow> y | None \<Rightarrow> ctx_value (the (map_of qs g)) g)"

text \<open>C37. The context of an event does not change under its readers: in any series of calls of the
  lazy getters, made in any contexts, every call for a field returns what the first call for it
  returned, which is the context at that time unless the field was filled before; the fields do not
  influence each other, and the message, logger, level, time and place of the event stay as they were.\<close>

theorem event_context_stable:
  "fst (ask_all qs e) = map (\<lambda>(g, ctx). first_answer e qs g) qs \<and> ev_fixed (snd (ask_all qs e)) = ev_fixed e"
proof (induction qs arbitrary: e)
  case Nil
  then show ?case by simp
next
  case (Cons q qs)
  obtain g ctx where q: "q = (g, ctx)" by (cases q)
  obtain x e1 where a: "ask g ctx e = (x, e1)" by (cases "ask g ctx e")
  have "first_answer e (q # qs) g = x" using ask_spec(1)[OF a] by (auto simp: q first_answer_def split: option.splits)
  moreover have "first_answer e1 qs h = first_answer e (q # qs) h" for h
    using ask_spec(1,2)[OF a] by (auto simp: q first_answer_def split: option.splits)
  ultimately show ?case using Cons.IH[of e1] ask_spec(3)[OF a] a by (cases "ask_all qs e1") (simp add: q)
qed

end
