(* ===== verification/L4_Appender.thy ===== *)
theory L4_Appender
  imports L4_Pointer L4_Events
begin

text \<open>
  The appender that writes to a Boost device, \<^verbatim>\<open>boost/deviceappender.hxx\<close>, on the inline part of its base
  class \<^verbatim>\<open>Appender\<close> (\<^verbatim>\<open>appender.h\<close>) and of \<^verbatim>\<open>Properties\<close> (\<^verbatim>\<open>helpers/property.h\<close>). What the headers only
  declare, and the two functions of Boost, are the parameter \<open>app_lib\<close>. Devices and appenders live in
  one store. The theory shows that the appender hands its device the formatted events in order, and
  when it closes the device: by \<^verbatim>\<open>close\<close>, never by its destructor.
\<close>

section \<open>Properties and the base class\<close>

text \<open>\<^verbatim>\<open>data\<close> is a \<^verbatim>\<open>std::map\<close>: its entries in the order of their keys, each key once. Members of the base class
  that point to other objects are addresses.\<close>

record Properties =
  prop_data :: "(string \<times> string) list"
  prop_flags :: "32 word"

definition Properties_size :: "Properties \<Rightarrow> nat" where
  "Properties_size p = length (prop_data p)"

record Appender =
  app_layout :: "nat option"
  app_name :: string
  threshold :: LogLevel
  app_filter :: "nat option"
  app_errorHandler :: "nat option"
  app_lockFile :: "nat option"
  useLockFile :: bool
  app_closed :: bool

definition setFilter :: "nat option \<Rightarrow> Appender \<Rightarrow> Appender" where
  "setFilter f a = a\<lparr>app_filter := f\<rparr>"

definition getFilter :: "Appender \<Rightarrow> nat option" where
  "getFilter a = app_filter a"

definition getThreshold :: "Appender \<Rightarrow> LogLevel" where
  "getThreshold a = threshold a"

definition setThreshold :: "LogLevel \<Rightarrow> Appender \<Rightarrow> Appender" where
  "setThreshold th a = a\<lparr>threshold := th\<rparr>"

definition isAsSevereAsThreshold :: "Appender \<Rightarrow> LogLevel \<Rightarrow> bool" where
  "isAsSevereAsThreshold a ll \<longleftrightarrow> ll \<noteq> NOT_SET_LOG_LEVEL \<and> threshold a \<le> ll"

section \<open>The device appender\<close>

text \<open>\<^verbatim>\<open>device_type\<close>: a reference to a device, or a \<^verbatim>\<open>boost::shared_ptr\<close>, which may be null.\<close>

datatype device_type = DeviceRef nat | DeviceSp "nat option"

record DeviceAppender =
  app_base :: Appender
  device :: device_type
  close_flag :: bool

text \<open>The code outside the repository: the constructors of the base class, \<^verbatim>\<open>Properties::exists\<close>,
  \<^verbatim>\<open>Appender::formatEvent\<close>, and \<^verbatim>\<open>boost::iostreams::write\<close> (which returns how many characters it wrote) and
  \<^verbatim>\<open>close\<close>.\<close>

record 'd app_lib =
  lib_Appender :: Appender
  lib_Appender_props :: "Properties \<Rightarrow> Appender"
  lib_exists :: "Properties \<Rightarrow> string \<Rightarrow> bool"
  lib_formatEvent :: "Appender \<Rightarrow> InternalLoggingEvent \<Rightarrow> string"
  ios_write :: "string \<Rightarrow> (int, 'd) act"
  ios_close :: "(unit, 'd) act"

text \<open>The devices, the appenders, and the reference count each appender has from \<^verbatim>\<open>SharedObject\<close>.\<close>

record 'd device_store =
  devices :: "nat \<rightharpoonup> 'd"
  appenders :: "nat \<rightharpoonup> DeviceAppender"
  ref_counts :: "nat \<Rightarrow> nat"

definition unwrap :: "device_type \<Rightarrow> (nat, 's) act" where
  "unwrap dt s = (case dt of DeviceRef a \<Rightarrow> Done a s | DeviceSp None \<Rightarrow> Crash NullDeref | DeviceSp (Some a) \<Rightarrow> Done a s)"

definition on_device :: "nat \<Rightarrow> ('a, 'd) act \<Rightarrow> ('a, 'd device_store) act" where
  "on_device a f s = (case devices s a of
     None \<Rightarrow> Crash DanglingPtr
   | Some d \<Rightarrow> (case f d of
       Done x d' \<Rightarrow> Done x (s\<lparr>devices := (devices s)(a \<mapsto> d')\<rparr>)
     | Thrown e d' \<Rightarrow> Thrown e (s\<lparr>devices := (devices s)(a \<mapsto> d')\<rparr>)
     | Waits d' \<Rightarrow> Waits (s\<lparr>devices := (devices s)(a \<mapsto> d')\<rparr>)
     | Crash e \<Rightarrow> Crash e))"

definition this_appender :: "nat \<Rightarrow> (DeviceAppender, 'd device_store) act" where
  "this_appender p s = (case appenders s p of None \<Rightarrow> Crash DanglingPtr | Some x \<Rightarrow> Done x s)"

definition DeviceAppender_ctor :: "'d app_lib \<Rightarrow> nat \<Rightarrow> device_type \<Rightarrow> bool \<Rightarrow> (unit, 'd device_store) act" where
  "DeviceAppender_ctor L p d close_device s = Done () (s\<lparr>appenders := (appenders s)(p \<mapsto>
     \<lparr>app_base = lib_Appender L, device = d, close_flag = close_device\<rparr>), ref_counts := (ref_counts s)(p := 0)\<rparr>)"

definition DeviceAppender_ctor_props :: "'d app_lib \<Rightarrow> nat \<Rightarrow> device_type \<Rightarrow> Properties \<Rightarrow> (unit, 'd device_store) act" where
  "DeviceAppender_ctor_props L p d props s = Done () (s\<lparr>appenders := (appenders s)(p \<mapsto>
     \<lparr>app_base = lib_Appender_props L props, device = d,
      close_flag = (if lib_exists L props ''CloseDevice'' then True else False)\<rparr>), ref_counts := (ref_counts s)(p := 0)\<rparr>)"

text \<open>The destructor has an empty body: the members go, then the base class, which knows no device.\<close>

definition DeviceAppender_dtor :: "nat \<Rightarrow> (unit, 'd device_store) act" where
  "DeviceAppender_dtor p = seqR (this_appender p) (\<lambda>_ s. Done () (s\<lparr>appenders := (appenders s)(p := None)\<rparr>))"

definition DeviceAppender_close :: "'d app_lib \<Rightarrow> nat \<Rightarrow> (unit, 'd device_store) act" where
  "DeviceAppender_close L p = seqR (this_appender p) (\<lambda>x.
     if close_flag x then seqR (unwrap (device x)) (\<lambda>a. on_device a (ios_close L)) else Done ())"

definition DeviceAppender_append :: "'d app_lib \<Rightarrow> nat \<Rightarrow> InternalLoggingEvent \<Rightarrow> (unit, 'd device_store) act" where
  "DeviceAppender_append L p event = seqR (this_appender p) (\<lambda>x.
     let str = lib_formatEvent L (app_base x) event
     in seqR (unwrap (device x)) (\<lambda>a. seqR (on_device a (ios_write L str)) (\<lambda>_. Done ())))"

text \<open>\<^verbatim>\<open>make_device_appender\<close> and its three variants: a new appender at the fresh address \<open>p\<close>, and a shared
  pointer to it at \<open>v\<close>.\<close>

definition make_device_appender :: "'d device_store shared_ops \<Rightarrow> 'd app_lib \<Rightarrow> nat \<Rightarrow> nat \<Rightarrow> nat \<Rightarrow> bool \<Rightarrow> (unit, 'd device_store ptr_state) act" where
  "make_device_appender S L v p d close_device =
     seqR (on_object (DeviceAppender_ctor L p (DeviceRef d) close_device)) (\<lambda>_. ptr_ctor S v (Some p))"

definition make_device_appender_props :: "'d device_store shared_ops \<Rightarrow> 'd app_lib \<Rightarrow> nat \<Rightarrow> nat \<Rightarrow> nat \<Rightarrow> Properties \<Rightarrow> (unit, 'd device_store ptr_state) act" where
  "make_device_appender_props S L v p d props =
     seqR (on_object (DeviceAppender_ctor_props L p (DeviceRef d) props)) (\<lambda>_. ptr_ctor S v (Some p))"

definition make_device_appender_sp :: "'d device_store shared_ops \<Rightarrow> 'd app_lib \<Rightarrow> nat \<Rightarrow> nat \<Rightarrow> nat option \<Rightarrow> bool \<Rightarrow> (unit, 'd device_store ptr_state) act" where
  "make_device_appender_sp S L v p d close_device =
     seqR (on_object (DeviceAppender_ctor L p (DeviceSp d) close_device)) (\<lambda>_. ptr_ctor S v (Some p))"

definition make_device_appender_sp_props :: "'d device_store shared_ops \<Rightarrow> 'd app_lib \<Rightarrow> nat \<Rightarrow> nat \<Rightarrow> nat option \<Rightarrow> Properties \<Rightarrow> (unit, 'd device_store ptr_state) act" where
  "make_device_appender_sp_props S L v p d props =
     seqR (on_object (DeviceAppender_ctor_props L p (DeviceSp d) props)) (\<lambda>_. ptr_ctor S v (Some p))"

text \<open>The life of an appender: calls of \<^verbatim>\<open>append\<close> and \<^verbatim>\<open>close\<close>, then the destructor.\<close>

datatype app_call = CallAppend InternalLoggingEvent | CallClose

fun app_exec :: "'d app_lib \<Rightarrow> nat \<Rightarrow> app_call \<Rightarrow> (unit, 'd device_store) act" where
  "app_exec L p (CallAppend e) = DeviceAppender_append L p e"
| "app_exec L p CallClose = DeviceAppender_close L p"

fun app_calls :: "'d app_lib \<Rightarrow> nat \<Rightarrow> app_call list \<Rightarrow> (unit, 'd device_store) act" where
  "app_calls L p [] = Done ()"
| "app_calls L p (c # cs) = seqR (app_exec L p c) (\<lambda>_. app_calls L p cs)"

section \<open>What reaches the device\<close>

text \<open>A device as Boost documents a blocking sink: a write takes all characters and appends them; closing
  keeps what was written. \<open>content\<close> and \<open>is_open\<close> say what can be observed of it.\<close>

definition blocking_sink :: "'d app_lib \<Rightarrow> ('d \<Rightarrow> string) \<Rightarrow> ('d \<Rightarrow> bool) \<Rightarrow> bool" where
  "blocking_sink L content is_open \<longleftrightarrow>
     (\<forall>str d. \<exists>d'. ios_write L str d = Done (int (length str)) d' \<and> content d' = content d @ str \<and> is_open d' = is_open d)
   \<and> (\<forall>d. \<exists>d'. ios_close L d = Done () d' \<and> content d' = content d \<and> \<not> is_open d')"

definition reaches :: "device_type \<Rightarrow> nat \<Rightarrow> bool" where
  "reaches dt a \<longleftrightarrow> dt = DeviceRef a \<or> dt = DeviceSp (Some a)"

fun appended :: "(InternalLoggingEvent \<Rightarrow> string) \<Rightarrow> app_call list \<Rightarrow> string" where
  "appended fmt [] = []"
| "appended fmt (CallAppend e # cs) = fmt e @ appended fmt cs"
| "appended fmt (CallClose # cs) = appended fmt cs"


lemma reaches_unwrap: "reaches dt a \<Longrightarrow> unwrap dt s = Done a s"
  by (auto simp: reaches_def unwrap_def)

lemma on_device_Done: "devices s a = Some d \<Longrightarrow> f d = Done x d' \<Longrightarrow> on_device a f s = Done x (s\<lparr>devices := (devices s)(a \<mapsto> d')\<rparr>)"
  by (simp add: on_device_def)

text \<open>One call leaves every other device and the appenders alone.\<close>

lemma app_exec_step:
  assumes "blocking_sink L content is_open" "devices s a = Some d" "appenders s p = Some x" "reaches (device x) a"
  shows "\<exists>d'. app_exec L p c s = Done () (s\<lparr>devices := (devices s)(a \<mapsto> d')\<rparr>)
    \<and> content d' = content d @ appended (lib_formatEvent L (app_base x)) [c]
    \<and> is_open d' = (is_open d \<and> \<not> (c = CallClose \<and> close_flag x))"
proof (cases c)
  case (CallAppend e)
  let ?str = "lib_formatEvent L (app_base x) e"
  obtain d' where d': "ios_write L ?str d = Done (int (length ?str)) d'" "content d' = content d @ ?str" "is_open d' = is_open d"
    using assms(1) unfolding blocking_sink_def by metis
  have "DeviceAppender_append L p e s = Done () (s\<lparr>devices := (devices s)(a \<mapsto> d')\<rparr>)"
    using assms(3) on_device_Done[OF assms(2), of "ios_write L ?str", OF d'(1)]
    by (simp add: DeviceAppender_append_def this_appender_def seqR_def Let_def reaches_unwrap[OF assms(4)])
  with CallAppend d' show ?thesis by auto
next
  case CallClose
  obtain d' where d': "ios_close L d = Done () d'" "content d' = content d" "\<not> is_open d'"
    using assms(1) unfolding blocking_sink_def by metis
  have same: "s\<lparr>devices := (devices s)(a \<mapsto> d)\<rparr> = s" using assms(2) by (simp add: fun_upd_idem)
  have "DeviceAppender_close L p s = Done () (s\<lparr>devices := (devices s)(a \<mapsto> if close_flag x then d' else d)\<rparr>)"
    using assms(3) on_device_Done[OF assms(2), of "ios_close L", OF d'(1)] same
    by (simp add: DeviceAppender_close_def this_appender_def seqR_def reaches_unwrap[OF assms(4)])
  with CallClose d' show ?thesis by (intro exI[of _ "if close_flag x then d' else d"]) auto
qed

lemma appended_Cons: "appended fmt (c # cs) = appended fmt [c] @ appended fmt cs"
  by (cases c) simp_all

lemma app_calls_step:
  assumes "blocking_sink L content is_open" "devices s a = Some d" "appenders s p = Some x" "reaches (device x) a"
  shows "\<exists>d'. app_calls L p cs s = Done () (s\<lparr>devices := (devices s)(a \<mapsto> d')\<rparr>)
    \<and> content d' = content d @ appended (lib_formatEvent L (app_base x)) cs
    \<and> is_open d' = (is_open d \<and> \<not> (CallClose \<in> set cs \<and> close_flag x))"
  using assms(2,3)
proof (induction cs arbitrary: s d)
  case Nil
  then show ?case by (intro exI[of _ d]) (simp add: fun_upd_idem)
next
  case (Cons c cs)
  obtain d1 where d1: "app_exec L p c s = Done () (s\<lparr>devices := (devices s)(a \<mapsto> d1)\<rparr>)"
    "content d1 = content d @ appended (lib_formatEvent L (app_base x)) [c]"
    "is_open d1 = (is_open d \<and> \<not> (c = CallClose \<and> close_flag x))"
    using app_exec_step[OF assms(1) Cons.prems assms(4)] by blast
  obtain d2 where "app_calls L p cs (s\<lparr>devices := (devices s)(a \<mapsto> d1)\<rparr>) = Done () (s\<lparr>devices := (devices s)(a \<mapsto> d2)\<rparr>)"
    "content d2 = content d1 @ appended (lib_formatEvent L (app_base x)) cs"
    "is_open d2 = (is_open d1 \<and> \<not> (CallClose \<in> set cs \<and> close_flag x))"
    using Cons.IH[of "s\<lparr>devices := (devices s)(a \<mapsto> d1)\<rparr>" d1] Cons.prems(2)
    by (simp del: fun_upd_apply add: fun_upd_same) blast
  with d1 show ?case
    by (intro exI[of _ d2]) (auto simp: appended_Cons[of _ c cs] simp del: appended.simps fun_upd_apply)
qed

lemma null_device_crashes:
  assumes "appenders s p = Some x" "device x = DeviceSp None"
  shows "DeviceAppender_append L p e s = Crash NullDeref"
    "DeviceAppender_close L p s = (if close_flag x then Crash NullDeref else Done () s)"
  using assms by (simp_all add: DeviceAppender_append_def DeviceAppender_close_def this_appender_def unwrap_def seqR_def Let_def)

text \<open>All four factories give the caller the only reference to the new appender.\<close>

lemma make_counts:
  assumes "counts_references S ref_counts"
    and "factory \<in> {make_device_appender S L v p d flag, make_device_appender_props S L v p d props,
      make_device_appender_sp S L v p ds flag, make_device_appender_sp_props S L v p ds props}"
  shows "\<exists>s'. factory (vars, s) = Done () (vars(v \<mapsto> Some p), s') \<and> ref_counts s' p = 1"
proof -
  have add: "\<exists>s'. addReference S p s1 = Done () s' \<and> ref_counts s' p = Suc (ref_counts s1 p)" for s1
    using assms(1) unfolding counts_references_def by fastforce
  let ?made = "\<lambda>x. s\<lparr>appenders := (appenders s)(p \<mapsto> x), ref_counts := (ref_counts s)(p := 0)\<rparr>"
  have "\<exists>x. factory (vars, s) = ptr_ctor S v (Some p) (vars, ?made x)"
    using assms(2) by (auto simp: make_device_appender_def make_device_appender_props_def make_device_appender_sp_def
        make_device_appender_sp_props_def on_object_def DeviceAppender_ctor_def DeviceAppender_ctor_props_def seqR_def)
  then obtain x where "factory (vars, s) = ptr_ctor S v (Some p) (vars, ?made x)" by blast
  with add[of "?made x"] show ?thesis by (auto simp: ptr_ctor_def ptr_defs)
qed


text \<open>A device in memory: its text and whether it is open.\<close>

definition memory_lib :: "(string \<times> bool) app_lib" where
  "memory_lib =
    (let base = \<lparr>app_layout = None, app_name = [], threshold = NOT_SET_LOG_LEVEL, app_filter = None, app_errorHandler = Some 0,
       app_lockFile = None, useLockFile = False, app_closed = False\<rparr>
     in \<lparr>lib_Appender = base, lib_Appender_props = (\<lambda>_. base), lib_exists = (\<lambda>p k. k \<in> fst ` set (prop_data p)),
       lib_formatEvent = (\<lambda>_ e. ev_message e @ ''!''),
       ios_write = (\<lambda>str (txt, ok). Done (int (length str)) (txt @ str, ok)), ios_close = (\<lambda>(txt, ok). Done () (txt, False))\<rparr>)"

lemma memory_lib_sink: "blocking_sink memory_lib fst snd"
  by (auto simp: blocking_sink_def memory_lib_def Let_def)

definition hello_event :: InternalLoggingEvent where
  "hello_event = \<lparr>ev_message = ''hello'', ev_loggerName = ''root'', ev_ll = INFO_LOG_LEVEL, ev_ndc = [], ev_mdc = Map.empty,
     ev_thread = [], ev_thread2 = [], ev_timestamp = \<lparr>tv_sec = 0, tv_usec = 0\<rparr>, ev_file = [], ev_function = [], ev_line = 1,
     threadCached = False, thread2Cached = False, ndcCached = False, mdcCached = False\<rparr>"


end
