(* ===== verification/L4_Factory.thy ===== *)
theory L4_Factory
  imports L4_Appender
begin

text \<open>
  The factories of log4cplus, \<^verbatim>\<open>spi/factory.h\<close>: the template \<^verbatim>\<open>FactoryRegistry\<close> over the untyped
  \<^verbatim>\<open>ObjectRegistryBase\<close> of \<^verbatim>\<open>spi/objectregistry.h\<close>, the templates that make a factory of a product class, and the
  macros that register one. The registry stores \<^verbatim>\<open>void *\<close> and casts back without a check, so the heap
  keeps the class of every factory object and a use through a pointer to another class is the error
  \<open>BadCast\<close>.

  The three functions that \<^verbatim>\<open>objectregistry.h\<close> only declares are the parameter \<open>registry_ops\<close>; the law
  \<open>owns_objects\<close> says what the header says of them. The theory shows that the casts are right.
\<close>

section \<open>Factory objects\<close>

datatype factory_class = AppenderFactory | LayoutFactory | FilterFactory | LocaleFactory

text \<open>An object of \<^verbatim>\<open>FactoryTempl<LocalProduct, ProductFactoryBase>\<close>: its base class, the class of its products
  and the member \<^verbatim>\<open>name\<close> of \<^verbatim>\<open>LocalFactoryBase\<close>.\<close>

record factory =
  factory_base :: factory_class
  local_product :: string
  factory_name :: string

text \<open>\<open>reg\<close> is the base part of the registry object, known through the parameters only.\<close>

record 'r factory_state =
  factories :: "nat \<rightharpoonup> factory"
  next_factory :: nat
  reg :: 'r

definition LocalFactoryBase_ctor :: "factory_class \<Rightarrow> string \<Rightarrow> string \<Rightarrow> factory" where
  "LocalFactoryBase_ctor K product n = \<lparr>factory_base = K, local_product = product, factory_name = n\<rparr>"

definition FactoryTempl_new :: "factory_class \<Rightarrow> string \<Rightarrow> string \<Rightarrow> (nat, 'r factory_state) act" where
  "FactoryTempl_new K product n s = Done (next_factory s)
     (s\<lparr>factories := (factories s)(next_factory s \<mapsto> LocalFactoryBase_ctor K product n), next_factory := Suc (next_factory s)\<rparr>)"

text \<open>A member access through a pointer of type \<open>K *\<close>.\<close>

definition as_factory :: "factory_class \<Rightarrow> nat option \<Rightarrow> (factory, 'r factory_state) act" where
  "as_factory K p s = (case p of None \<Rightarrow> Crash NullDeref
     | Some a \<Rightarrow> (case factories s a of None \<Rightarrow> Crash DanglingPtr
         | Some f \<Rightarrow> if factory_base f = K then Done f s else Crash BadCast))"

definition getTypeName :: "factory_class \<Rightarrow> nat option \<Rightarrow> (string, 'r factory_state) act" where
  "getTypeName K p = seqR (as_factory K p) (\<lambda>f. Done (factory_name f))"

text \<open>\<^verbatim>\<open>new LocalProduct (props)\<close> is the constructor of a class of the library: a parameter.\<close>

definition createObject ::
  "(string \<Rightarrow> Properties \<Rightarrow> ('p, 'r factory_state) act) \<Rightarrow> factory_class \<Rightarrow> nat option \<Rightarrow> Properties \<Rightarrow> ('p, 'r factory_state) act" where
  "createObject new_product K p props = seqR (as_factory K p) (\<lambda>f. new_product (local_product f) props)"

section \<open>FactoryRegistry\<close>

text \<open>\<^verbatim>\<open>putVal\<close> and \<^verbatim>\<open>clear\<close> call the virtual \<^verbatim>\<open>deleteObject\<close>, so they take it as an argument.\<close>

record 'r registry_ops =
  putVal :: "(nat \<Rightarrow> (unit, 'r factory_state) act) \<Rightarrow> string \<Rightarrow> nat \<Rightarrow> (bool, 'r factory_state) act"
  getVal :: "string \<Rightarrow> (nat option, 'r factory_state) act"
  reg_clear :: "(nat \<Rightarrow> (unit, 'r factory_state) act) \<Rightarrow> (unit, 'r factory_state) act"

definition deleteObject :: "factory_class \<Rightarrow> nat \<Rightarrow> (unit, 'r factory_state) act" where
  "deleteObject K object = seqR (as_factory K (Some object)) (\<lambda>_ s. Done () (s\<lparr>factories := (factories s)(object := None)\<rparr>))"

text \<open>The argument is an \<^verbatim>\<open>auto_ptr\<close>: when \<^verbatim>\<open>putVal\<close> throws it deletes the object, otherwise it has released it.\<close>

definition FactoryRegistry_put :: "'r registry_ops \<Rightarrow> factory_class \<Rightarrow> nat option \<Rightarrow> (bool, 'r factory_state) act" where
  "FactoryRegistry_put R K object = seqR (getTypeName K object) (\<lambda>n s.
     case object of None \<Rightarrow> Crash NullDeref
     | Some a \<Rightarrow> (case putVal R (deleteObject K) n a s of
         Done putValResult s' \<Rightarrow> Done putValResult s'
       | Thrown e s' \<Rightarrow> (case deleteObject K a s' of Done _ s'' \<Rightarrow> Thrown e s'' | Thrown _ _ \<Rightarrow> Crash Terminate
           | Waits s'' \<Rightarrow> Waits s'' | Crash c \<Rightarrow> Crash c)
       | Waits s' \<Rightarrow> Waits s' | Crash c \<Rightarrow> Crash c))"

definition FactoryRegistry_get :: "'r registry_ops \<Rightarrow> string \<Rightarrow> (nat option, 'r factory_state) act" where
  "FactoryRegistry_get R name = getVal R name"

definition FactoryRegistry_dtor :: "'r registry_ops \<Rightarrow> factory_class \<Rightarrow> (unit, 'r factory_state) act" where
  "FactoryRegistry_dtor R K = reg_clear R (deleteObject K)"

section \<open>Registration macros\<close>

definition REG_PRODUCT :: "'r registry_ops \<Rightarrow> string \<Rightarrow> string \<Rightarrow> string \<Rightarrow> factory_class \<Rightarrow> (bool, 'r factory_state) act" where
  "REG_PRODUCT R productprefix productname productns productfact =
     seqR (FactoryTempl_new productfact (productns @ productname) (productprefix @ productname))
       (\<lambda>a. FactoryRegistry_put R productfact (Some a))"

definition REG_APPENDER :: "'r registry_ops \<Rightarrow> string \<Rightarrow> (bool, 'r factory_state) act" where
  "REG_APPENDER R appendername = REG_PRODUCT R ''log4cplus::'' appendername ''log4cplus::'' AppenderFactory"

definition REG_LAYOUT :: "'r registry_ops \<Rightarrow> string \<Rightarrow> (bool, 'r factory_state) act" where
  "REG_LAYOUT R layoutname = REG_PRODUCT R ''log4cplus::'' layoutname ''log4cplus::'' LayoutFactory"

definition REG_FILTER :: "'r registry_ops \<Rightarrow> string \<Rightarrow> (bool, 'r factory_state) act" where
  "REG_FILTER R filtername = REG_PRODUCT R ''log4cplus::spi::'' filtername ''log4cplus::spi::'' FilterFactory"

definition REG_LOCALE :: "'r registry_ops \<Rightarrow> string \<Rightarrow> string \<Rightarrow> (bool, 'r factory_state) act" where
  "REG_LOCALE R n cls = seqR (FactoryTempl_new LocaleFactory cls n) (\<lambda>a. FactoryRegistry_put R LocaleFactory (Some a))"

section \<open>What the registry promises\<close>

text \<open>The registry owns what is put into it: each object it has been given is in its map or has been
  deleted, once, through \<^verbatim>\<open>deleteObject\<close>. \<open>ents\<close> is the map. It is left open whether a second object of
  the same name is refused or replaces the first.\<close>

fun delete_all :: "(nat \<Rightarrow> (unit, 's) act) \<Rightarrow> nat list \<Rightarrow> (unit, 's) act" where
  "delete_all del [] = Done ()"
| "delete_all del (a # as) = seqR (del a) (\<lambda>_. delete_all del as)"

definition put_outcome ::
  "'r registry_ops \<Rightarrow> ('r \<Rightarrow> string \<rightharpoonup> nat) \<Rightarrow> (nat \<Rightarrow> (unit, 'r factory_state) act) \<Rightarrow> string \<Rightarrow> nat \<Rightarrow> 'r factory_state
    \<Rightarrow> (string \<rightharpoonup> nat) \<Rightarrow> nat list \<Rightarrow> bool" where
  "put_outcome R ents del n a s e gone \<longleftrightarrow> e \<in> {ents (reg s), (ents (reg s))(n \<mapsto> a)}
     \<and> (ents (reg s) n = None \<longrightarrow> e = (ents (reg s))(n \<mapsto> a))
     \<and> distinct gone \<and> set gone = insert a (ran (ents (reg s))) - ran e
     \<and> (\<forall>s1. delete_all del gone s = Done () s1 \<longrightarrow> (\<exists>b s'. putVal R del n a s = Done b s'
          \<and> ents (reg s') = e \<and> factories s' = factories s1))"

definition put_law :: "'r registry_ops \<Rightarrow> ('r \<Rightarrow> string \<rightharpoonup> nat) \<Rightarrow> bool" where
  "put_law R ents \<longleftrightarrow>
     (\<forall>del n a s. a \<notin> ran (ents (reg s)) \<longrightarrow> (\<exists>e gone. put_outcome R ents del n a s e gone))"

definition clear_outcome ::
  "'r registry_ops \<Rightarrow> ('r \<Rightarrow> string \<rightharpoonup> nat) \<Rightarrow> (nat \<Rightarrow> (unit, 'r factory_state) act) \<Rightarrow> 'r factory_state \<Rightarrow> nat list \<Rightarrow> bool" where
  "clear_outcome R ents del s gone \<longleftrightarrow> distinct gone \<and> set gone = ran (ents (reg s))
     \<and> (\<forall>s1. delete_all del gone s = Done () s1 \<longrightarrow> (\<exists>s'. reg_clear R del s = Done () s'
          \<and> ents (reg s') = Map.empty \<and> factories s' = factories s1))"

definition clear_law :: "'r registry_ops \<Rightarrow> ('r \<Rightarrow> string \<rightharpoonup> nat) \<Rightarrow> bool" where
  "clear_law R ents \<longleftrightarrow> (\<forall>del s. inj_on (ents (reg s)) (dom (ents (reg s))) \<and> finite (dom (ents (reg s))) \<longrightarrow>
     (\<exists>gone. clear_outcome R ents del s gone))"

definition owns_objects :: "'r registry_ops \<Rightarrow> ('r \<Rightarrow> string \<rightharpoonup> nat) \<Rightarrow> bool" where
  "owns_objects R ents \<longleftrightarrow> put_law R ents \<and> clear_law R ents \<and> (\<forall>n s. getVal R n s = Done (ents (reg s) n) s)"

section \<open>The casts are right\<close>

definition reg_typed :: "factory_class \<Rightarrow> ('r \<Rightarrow> string \<rightharpoonup> nat) \<Rightarrow> 'r factory_state \<Rightarrow> bool" where
  "reg_typed K ents s \<longleftrightarrow> finite (dom (ents (reg s)))
     \<and> (\<forall>n a. ents (reg s) n = Some a \<longrightarrow> (\<exists>f. factories s a = Some f \<and> factory_base f = K \<and> factory_name f = n))"

lemma reg_typed_inj: "reg_typed K ents s \<Longrightarrow> inj_on (ents (reg s)) (dom (ents (reg s)))"
  unfolding reg_typed_def inj_on_def by (metis domD option.inject)

lemma reg_typed_live: "reg_typed K ents s \<Longrightarrow> a \<in> ran (ents (reg s)) \<Longrightarrow> \<exists>f. factories s a = Some f \<and> factory_base f = K"
  by (fastforce simp: reg_typed_def ran_def)

lemma deleteObject_live:
  "factories s a = Some f \<Longrightarrow> factory_base f = K \<Longrightarrow> deleteObject K a s = Done () (s\<lparr>factories := (factories s)(a := None)\<rparr>)"
  by (simp add: deleteObject_def as_factory_def)

lemma delete_all_live:
  assumes "distinct as" "\<forall>a\<in>set as. \<exists>f. factories s a = Some f \<and> factory_base f = K"
  shows "delete_all (deleteObject K) as s = Done () (s\<lparr>factories := factories s |` (- set as)\<rparr>)"
  using assms
proof (induction as arbitrary: s)
  case Nil
  then show ?case by simp
next
  case (Cons a as)
  obtain f where "factories s a = Some f" "factory_base f = K" using Cons.prems(2) by auto
  note d = deleteObject_live[OF this]
  let ?s = "s\<lparr>factories := (factories s)(a := None)\<rparr>"
  have "\<forall>b\<in>set as. \<exists>f. factories ?s b = Some f \<and> factory_base f = K" using Cons.prems by auto
  with Cons.IH[of ?s] Cons.prems(1) d show ?case
    by (simp add: restrict_map_def fun_eq_iff if_distrib cong: if_cong)
qed

text \<open>Putting a live object of the right class keeps the map typed, and the object is in the map or deleted.\<close>

lemma FactoryRegistry_put_typed:
  assumes law: "put_law R ents" and typed: "reg_typed K ents s"
    and f: "factories s a = Some f" "factory_base f = K" "a \<notin> ran (ents (reg s))"
  shows "\<exists>b s'. FactoryRegistry_put R K (Some a) s = Done b s' \<and> reg_typed K ents s'
    \<and> ran (ents (reg s')) \<subseteq> insert a (ran (ents (reg s)))
    \<and> factories s' = factories s |` (- (insert a (ran (ents (reg s))) - ran (ents (reg s'))))
    \<and> dom (ents (reg s')) = insert (factory_name f) (dom (ents (reg s)))"
proof -
  let ?E = "ents (reg s)" and ?n = "factory_name f"
  obtain e gone where "put_outcome R ents (deleteObject K) ?n a s e gone" using law f(3) unfolding put_law_def by blast
  then have e: "e \<in> {?E, ?E(?n \<mapsto> a)}" "?E ?n = None \<longrightarrow> e = ?E(?n \<mapsto> a)" "distinct gone" "set gone = insert a (ran ?E) - ran e"
    "\<And>s1. delete_all (deleteObject K) gone s = Done () s1 \<Longrightarrow> \<exists>b s'. putVal R (deleteObject K) ?n a s = Done b s'
       \<and> ents (reg s') = e \<and> factories s' = factories s1"
    unfolding put_outcome_def by blast+
  have live: "\<forall>b\<in>insert a (ran ?E). \<exists>g. factories s b = Some g \<and> factory_base g = K"
    using reg_typed_live[OF typed] f(1,2) by blast
  obtain b s' where s': "putVal R (deleteObject K) ?n a s = Done b s'" "ents (reg s') = e"
    "factories s' = factories s |` (- set gone)"
    using e(5)[OF delete_all_live[OF e(3)]] live e(4) by auto
  have "FactoryRegistry_put R K (Some a) s = Done b s'"
    using f s'(1) by (simp add: FactoryRegistry_put_def getTypeName_def as_factory_def)
  moreover have "reg_typed K ents s'"
  proof -
    have "factories s' x = factories s x" if "e n = Some x" for n x
      using that s'(3) e(4) by (auto simp: restrict_map_def ranI)
    moreover have "\<exists>g. factories s x = Some g \<and> factory_base g = K \<and> factory_name g = n" if "e n = Some x" for n x
      using that e(1) typed f(1,2) by (auto simp: reg_typed_def split: if_splits)
    moreover have "finite (dom e)" using e(1) typed by (auto simp: reg_typed_def)
    ultimately show ?thesis using s'(2) by (simp add: reg_typed_def)
  qed
  moreover have "ran e \<subseteq> insert a (ran ?E)" using e(1) by (auto simp: ran_def split: if_splits)
  moreover have "dom e = insert ?n (dom ?E)" using e(1,2) by (cases "?E ?n") auto
  ultimately show ?thesis using s'(2,3) e(4) by auto
qed

text \<open>A product that is registered under a free name can be made by name.\<close>

lemma REG_PRODUCT_creates:
  assumes "owns_objects R ents" "reg_typed K ents s" "ents (reg s) (prefix @ name) = None" "factories s (next_factory s) = None"
  shows "\<exists>b p s'. REG_PRODUCT R prefix name ns K s = Done b s' \<and> reg_typed K ents s'
    \<and> FactoryRegistry_get R (prefix @ name) s' = Done p s' \<and> createObject new_product K p props s' = new_product (ns @ name) props s'"
proof -
  let ?a = "next_factory s" and ?f = "LocalFactoryBase_ctor K (ns @ name) (prefix @ name)"
  let ?s = "s\<lparr>factories := (factories s)(?a \<mapsto> ?f), next_factory := Suc ?a\<rparr>"
  have law: "put_law R ents" "\<And>n s. getVal R n s = Done (ents (reg s) n) s" using assms(1) by (auto simp: owns_objects_def)
  have fresh: "?a \<notin> ran (ents (reg s))" using reg_typed_live[OF assms(2)] assms(4) by force
  then have "reg_typed K ents ?s" using assms(2) by (auto simp: reg_typed_def ranI)
  from FactoryRegistry_put_typed[OF law(1) this, of ?a ?f] fresh obtain b s' where s': "FactoryRegistry_put R K (Some ?a) ?s = Done b s'"
    "reg_typed K ents s'" "ran (ents (reg s')) \<subseteq> insert ?a (ran (ents (reg s)))" "prefix @ name \<in> dom (ents (reg s'))"
    "factories s' = factories ?s |` (- (insert ?a (ran (ents (reg s))) - ran (ents (reg s'))))"
    by (auto simp: LocalFactoryBase_ctor_def)
  obtain x g where x: "ents (reg s') (prefix @ name) = Some x" "factories s' x = Some g" "factory_name g = prefix @ name" "factory_base g = K"
    using s'(2,4) unfolding reg_typed_def by blast
  have "x = ?a"
  proof (rule ccontr)
    assume "x \<noteq> ?a"
    then obtain m where m: "ents (reg s) m = Some x" using s'(3) x(1) by (auto simp: ran_def)
    have "factories s x = Some g" using x(2) s'(5) \<open>x \<noteq> ?a\<close> by (auto simp: restrict_map_def split: if_splits)
    with m x(3) assms(2) have "m = prefix @ name" unfolding reg_typed_def by (metis option.inject)
    with m assms(3) show False by simp
  qed
  moreover have "factories s' ?a = Some ?f" using x(1,2) s'(5) \<open>x = ?a\<close> by (auto simp: restrict_map_def split: if_splits)
  ultimately show ?thesis using s'(1,2) x(1) law(2)
    by (simp add: REG_PRODUCT_def FactoryTempl_new_def FactoryRegistry_get_def createObject_def as_factory_def LocalFactoryBase_ctor_def)
qed

fun put_all :: "'r registry_ops \<Rightarrow> factory_class \<Rightarrow> nat list \<Rightarrow> (unit, 'r factory_state) act" where
  "put_all R K [] = Done ()"
| "put_all R K (a # as) = seqR (FactoryRegistry_put R K (Some a)) (\<lambda>_. put_all R K as)"

lemma put_all_typed:
  assumes "put_law R ents"
  shows "reg_typed K ents s \<Longrightarrow> distinct as \<Longrightarrow> set as \<inter> ran (ents (reg s)) = {}
    \<Longrightarrow> \<forall>a\<in>set as. \<exists>f. factories s a = Some f \<and> factory_base f = K
    \<Longrightarrow> \<exists>s'. put_all R K as s = Done () s' \<and> reg_typed K ents s' \<and> ran (ents (reg s')) \<subseteq> set as \<union> ran (ents (reg s))
      \<and> factories s' = factories s |` (- ((set as \<union> ran (ents (reg s))) - ran (ents (reg s'))))
      \<and> dom (ents (reg s')) = {n. \<exists>a\<in>set as. \<exists>f. factories s a = Some f \<and> factory_name f = n} \<union> dom (ents (reg s))"
proof (induction as arbitrary: s)
  case Nil
  then show ?case by auto
next
  case (Cons a as)
  obtain f where f: "factories s a = Some f" "factory_base f = K" using Cons.prems(4) by auto
  have "a \<notin> ran (ents (reg s))" using Cons.prems(3) by auto
  from FactoryRegistry_put_typed[OF assms Cons.prems(1) f this] obtain b s1 where s1:
    "FactoryRegistry_put R K (Some a) s = Done b s1" "reg_typed K ents s1"
    "ran (ents (reg s1)) \<subseteq> insert a (ran (ents (reg s)))"
    "factories s1 = factories s |` (- (insert a (ran (ents (reg s))) - ran (ents (reg s1))))"
    "dom (ents (reg s1)) = insert (factory_name f) (dom (ents (reg s)))" by blast
  have same: "factories s1 x = factories s x" if "x \<in> set as" for x
    using that Cons.prems(2,3) s1(4) by (auto simp: restrict_map_def)
  have "set as \<inter> ran (ents (reg s1)) = {}" using Cons.prems(2,3) s1(3) by auto
  moreover have "\<forall>a\<in>set as. \<exists>f. factories s1 a = Some f \<and> factory_base f = K" using Cons.prems(4) same by auto
  ultimately obtain s' where s': "put_all R K as s1 = Done () s'" "reg_typed K ents s'"
    "ran (ents (reg s')) \<subseteq> set as \<union> ran (ents (reg s1))"
    "factories s' = factories s1 |` (- ((set as \<union> ran (ents (reg s1))) - ran (ents (reg s'))))"
    "dom (ents (reg s')) = {n. \<exists>a\<in>set as. \<exists>f. factories s1 a = Some f \<and> factory_name f = n} \<union> dom (ents (reg s1))"
    using Cons.IH[OF s1(2)] Cons.prems(2) by auto
  have "factories s' = factories s |` (- ((set (a # as) \<union> ran (ents (reg s))) - ran (ents (reg s'))))"
    using s'(3,4) s1(3,4) Cons.prems(2,3) by (auto simp: restrict_map_def fun_eq_iff)
  moreover have "dom (ents (reg s')) = {n. \<exists>a\<in>set (a # as). \<exists>f. factories s a = Some f \<and> factory_name f = n} \<union> dom (ents (reg s))"
    using s'(5) s1(5) same f(1) by auto
  ultimately show ?case using s1(1,3) s'(1,2,3) by auto
qed

text \<open>C40. The casts of a factory registry are right. Whatever factories of its class are put into an empty registry,
  under whatever names, nothing fails; a pointer that \<^verbatim>\<open>get\<close> casts back is null or points to a live
  factory of that class with the name asked for, and is not null for the name of any factory put in; and
  when the registry is destroyed every factory it was given has been deleted exactly once and no other
  object was touched.\<close>

theorem registry_well_typed:
  assumes "owns_objects R ents" "ents (reg s) = Map.empty" "distinct as"
    and "\<forall>a\<in>set as. \<exists>f. factories s a = Some f \<and> factory_base f = K"
  shows "\<exists>s1 s2. put_all R K as s = Done () s1
    \<and> (\<forall>n. \<exists>p. FactoryRegistry_get R n s1 = Done p s1
        \<and> (p = None \<or> (\<exists>f. as_factory K p s1 = Done f s1 \<and> getTypeName K p s1 = Done n s1 \<and> the p \<in> set as))
        \<and> (p = None \<longleftrightarrow> \<not> (\<exists>a\<in>set as. \<exists>f. factories s a = Some f \<and> factory_name f = n)))
    \<and> FactoryRegistry_dtor R K s1 = Done () s2 \<and> factories s2 = factories s |` (- set as)"
proof -
  have law: "put_law R ents" "clear_law R ents" "\<And>n s. getVal R n s = Done (ents (reg s) n) s"
    using assms(1) by (auto simp: owns_objects_def)
  have "reg_typed K ents s" using assms(2) by (simp add: reg_typed_def)
  from put_all_typed[OF law(1) this assms(3) _ assms(4)] assms(2) obtain s1 where s1:
    "put_all R K as s = Done () s1" "reg_typed K ents s1" "ran (ents (reg s1)) \<subseteq> set as"
    "factories s1 = factories s |` (- (set as - ran (ents (reg s1))))"
    "dom (ents (reg s1)) = {n. \<exists>a\<in>set as. \<exists>f. factories s a = Some f \<and> factory_name f = n}"
    by auto
  have get: "\<exists>f. as_factory K (Some a) s1 = Done f s1 \<and> getTypeName K (Some a) s1 = Done n s1 \<and> a \<in> set as"
    if "ents (reg s1) n = Some a" for n a
    using that s1(2,3) by (fastforce simp: reg_typed_def as_factory_def getTypeName_def ranI)
  have "inj_on (ents (reg s1)) (dom (ents (reg s1)))" "finite (dom (ents (reg s1)))"
    using reg_typed_inj[OF s1(2)] s1(2) by (simp_all add: reg_typed_def)
  then obtain gone where "clear_outcome R ents (deleteObject K) s1 gone" using law(2) unfolding clear_law_def by blast
  then have gone: "distinct gone" "set gone = ran (ents (reg s1))"
    "\<And>s2. delete_all (deleteObject K) gone s1 = Done () s2 \<Longrightarrow> \<exists>s'. reg_clear R (deleteObject K) s1 = Done () s' \<and> factories s' = factories s2"
    unfolding clear_outcome_def by blast+
  have "\<forall>a\<in>set gone. \<exists>f. factories s1 a = Some f \<and> factory_base f = K"
    using reg_typed_live[OF s1(2)] gone(2) by blast
  from gone(3)[OF delete_all_live[OF gone(1) this]] obtain s2 where s2: "FactoryRegistry_dtor R K s1 = Done () s2"
    "factories s2 = factories s1 |` (- set gone)" by (auto simp: FactoryRegistry_dtor_def)
  have "factories s2 = factories s |` (- set as)"
    using s2(2) s1(3,4) gone(2) by (auto simp: restrict_map_def fun_eq_iff)
  moreover have "\<exists>p. FactoryRegistry_get R n s1 = Done p s1
        \<and> (p = None \<or> (\<exists>f. as_factory K p s1 = Done f s1 \<and> getTypeName K p s1 = Done n s1 \<and> the p \<in> set as))
        \<and> (p = None \<longleftrightarrow> \<not> (\<exists>a\<in>set as. \<exists>f. factories s a = Some f \<and> factory_name f = n))" for n
  proof -
    have "n \<notin> dom (ents (reg s1)) \<longleftrightarrow> \<not> (\<exists>a\<in>set as. \<exists>f. factories s a = Some f \<and> factory_name f = n)"
      unfolding s1(5) by simp
    with get[of n] law(3)[of n s1] show ?thesis unfolding domIff
      by (cases "ents (reg s1) n") (auto simp: FactoryRegistry_get_def)
  qed
  ultimately show ?thesis using s1(1) s2(1) by blast
qed

text \<open>A registry as an association list that refuses a name it has.\<close>

definition list_registry :: "(string \<times> nat) list registry_ops" where
  "list_registry = \<lparr>
     putVal = (\<lambda>del n a s. if map_of (reg s) n = None then Done True (s\<lparr>reg := (n, a) # reg s\<rparr>) else seqR (del a) (\<lambda>_ s'. Done False (s'\<lparr>reg := reg s\<rparr>)) s),
     getVal = (\<lambda>n s. Done (map_of (reg s) n) s),
     reg_clear = (\<lambda>del s. seqR (delete_all del (map (the \<circ> map_of (reg s)) (remdups (map fst (reg s))))) (\<lambda>_ s'. Done () (s'\<lparr>reg := []\<rparr>)) s)\<rparr>"

lemma list_registry_put: "put_law list_registry map_of"
  unfolding put_law_def
proof (intro allI impI)
  fix del n a and s :: "(string \<times> nat) list factory_state"
  assume a: "a \<notin> ran (map_of (reg s))"
  show "\<exists>e gone. put_outcome list_registry map_of del n a s e gone"
  proof (cases "map_of (reg s) n")
    case None
    then have "put_outcome list_registry map_of del n a s ((map_of (reg s))(n \<mapsto> a)) []"
      by (auto simp: put_outcome_def list_registry_def)
    then show ?thesis by blast
  next
    case (Some b)
    with a have "put_outcome list_registry map_of del n a s (map_of (reg s)) [a]"
      by (auto simp: put_outcome_def list_registry_def seqR_eq_Done)
    then show ?thesis by blast
  qed
qed

lemma list_registry_clear: "clear_law list_registry map_of"
  unfolding clear_law_def
proof (intro allI impI)
  fix del and s :: "(string \<times> nat) list factory_state"
  let ?gone = "map (the \<circ> map_of (reg s)) (remdups (map fst (reg s)))"
  assume inj: "inj_on (map_of (reg s)) (dom (map_of (reg s))) \<and> finite (dom (map_of (reg s)))"
  then have "inj_on (the \<circ> map_of (reg s)) (set (map fst (reg s)))"
    by (auto simp: inj_on_def dom_map_of_conv_image_fst) (metis domIff dom_map_of_conv_image_fst fst_conv image_eqI option.expand)
  then have "distinct ?gone" by (simp add: distinct_map)
  moreover have "set ?gone = ran (map_of (reg s))"
    by (auto simp: ran_def image_iff) (metis domIff dom_map_of_conv_image_fst fst_conv image_eqI option.collapse, metis fst_conv map_of_SomeD option.sel)
  ultimately have "clear_outcome list_registry map_of del s ?gone"
    by (auto simp: clear_outcome_def list_registry_def)
  then show "\<exists>gone. clear_outcome list_registry map_of del s gone" by blast
qed

lemma list_registry_owns: "owns_objects list_registry map_of"
  by (simp add: owns_objects_def list_registry_put list_registry_clear) (simp add: list_registry_def)

definition two_factories :: "(string \<times> nat) list factory_state" where
  "two_factories = \<lparr>factories = [0 \<mapsto> LocalFactoryBase_ctor AppenderFactory ''log4cplus::NullAppender'' ''log4cplus::NullAppender'',
     1 \<mapsto> LocalFactoryBase_ctor AppenderFactory ''my::Appender'' ''log4cplus::NullAppender'',
     2 \<mapsto> LocalFactoryBase_ctor LayoutFactory ''log4cplus::TTCCLayout'' ''log4cplus::TTCCLayout''], next_factory = 3, reg = []\<rparr>"

theorem registry_well_typed_witness:
  "\<exists>s1 s2. put_all list_registry AppenderFactory [0, 1] two_factories = Done () s1
    \<and> FactoryRegistry_dtor list_registry AppenderFactory s1 = Done () s2 \<and> factories s2 = factories two_factories |` (- {0, 1})"
proof -
  have "\<forall>a\<in>set [0, 1]. \<exists>f. factories two_factories a = Some f \<and> factory_base f = AppenderFactory"
    by (simp add: two_factories_def LocalFactoryBase_ctor_def)
  from registry_well_typed[OF list_registry_owns _ _ this] show ?thesis by (fastforce simp: two_factories_def)
qed

end
