(* ===== verification/L4_Tls.thy ===== *)
theory L4_Tls
  imports L4_Events
begin

text \<open>
  Thread-local storage of log4cplus: the three implementations of \<^verbatim>\<open>thread/impl/tls.h\<close> (POSIX keys,
  Win32 indices, a vector when there are no threads), and the per-thread data of
  \<^verbatim>\<open>internal/internal.h\<close> on top of it. The storage calls of the operating system are written out
  after their documentation; \<^verbatim>\<open>alloc_ptd\<close> is only declared, so it is a parameter. The locale
  \<open>tls_storage\<close> is the contract all three implementations meet; in it, per-thread data is shown to
  be made once per thread and never shared.
\<close>

section \<open>POSIX\<close>

text \<open>The state of the keys: the memory of the \<^verbatim>\<open>new pthread_key_t\<close> cells (\<open>Some None\<close> is a cell
  that was never written), the live keys, and the value of each thread. \<open>keys_left\<close> is how many
  keys the system still gives out.\<close>

record px_tls =
  key_cells :: "nat \<rightharpoonup> nat option"
  next_cell :: nat
  live_keys :: "nat set"
  next_key :: nat
  keys_left :: nat
  specific :: "tid \<Rightarrow> nat \<Rightarrow> nat option"

definition pthread_key_create :: "nat \<Rightarrow> (int, px_tls) act" where
  "pthread_key_create c s =
    (if keys_left s = 0 then Done 11 s
     else Done 0 (s\<lparr>key_cells := (key_cells s)(c \<mapsto> Some (next_key s)), live_keys := insert (next_key s) (live_keys s),
       next_key := Suc (next_key s), keys_left := keys_left s - 1, specific := (\<lambda>t. (specific s t)(next_key s := None))\<rparr>))"

definition key_of_cell :: "nat \<Rightarrow> (nat, px_tls) act" where
  "key_of_cell c s = (case key_cells s c of
     None \<Rightarrow> Crash DanglingPtr | Some None \<Rightarrow> Crash DanglingPtr
   | Some (Some k) \<Rightarrow> if k \<in> live_keys s then Done k s else Crash DanglingPtr)"

definition px_tls_init :: "(nat, px_tls) act" where
  "px_tls_init = seqR (\<lambda>s. Done (next_cell s) (s\<lparr>key_cells := (key_cells s)(next_cell s \<mapsto> None), next_cell := Suc (next_cell s)\<rparr>))
     (\<lambda>key. seqR (pthread_key_create key) (\<lambda>_. Done key))"

definition px_tls_get_value :: "tid \<Rightarrow> nat \<Rightarrow> (nat option, px_tls) act" where
  "px_tls_get_value t key = seqR (key_of_cell key) (\<lambda>k s. Done (specific s t k) s)"

definition px_tls_set_value :: "tid \<Rightarrow> nat \<Rightarrow> nat option \<Rightarrow> (unit, px_tls) act" where
  "px_tls_set_value t key v = seqR (key_of_cell key) (\<lambda>k s. Done () (s\<lparr>specific := (specific s)(t := (specific s t)(k := v))\<rparr>))"

definition px_tls_cleanup :: "nat \<Rightarrow> (unit, px_tls) act" where
  "px_tls_cleanup key = seqR (key_of_cell key) (\<lambda>k s. Done () (s\<lparr>live_keys := live_keys s - {k}, keys_left := Suc (keys_left s),
     key_cells := (key_cells s)(key := None)\<rparr>))"

section \<open>Win32\<close>

text \<open>An index that is not allocated reads as null, and writing or freeing it fails; the code looks
  at no result. \<^verbatim>\<open>TlsAlloc\<close> gives an index that is free (\<open>free_index\<close>, a choice of the system) or
  \<^verbatim>\<open>TLS_OUT_OF_INDEXES\<close>.\<close>

definition TLS_OUT_OF_INDEXES :: nat where "TLS_OUT_OF_INDEXES = 0xFFFFFFFF"

record w32_tls =
  used_indices :: "nat set"
  slots :: "tid \<Rightarrow> nat \<Rightarrow> nat option"

definition w32_tls_init :: "(nat set \<Rightarrow> nat option) \<Rightarrow> (nat, w32_tls) act" where
  "w32_tls_init free_index s = (case free_index (used_indices s) of
     None \<Rightarrow> Done TLS_OUT_OF_INDEXES s
   | Some k \<Rightarrow> Done k (s\<lparr>used_indices := insert k (used_indices s), slots := (\<lambda>t. (slots s t)(k := None))\<rparr>))"

definition w32_tls_get_value :: "tid \<Rightarrow> nat \<Rightarrow> (nat option, w32_tls) act" where
  "w32_tls_get_value t k s = Done (if k \<in> used_indices s then slots s t k else None) s"

definition w32_tls_set_value :: "tid \<Rightarrow> nat \<Rightarrow> nat option \<Rightarrow> (unit, w32_tls) act" where
  "w32_tls_set_value t k v s = Done () (if k \<in> used_indices s then s\<lparr>slots := (slots s)(t := (slots s t)(k := v))\<rparr> else s)"

definition w32_tls_cleanup :: "nat \<Rightarrow> (unit, w32_tls) act" where
  "w32_tls_cleanup k s = Done () (s\<lparr>used_indices := used_indices s - {k}\<rparr>)"

section \<open>No threads\<close>

text \<open>\<^verbatim>\<open>tls_single_threaded_values\<close>: a null pointer or a vector.\<close>

type_synonym st_tls = "nat option list option"

definition st_tls_init :: "(nat, st_tls) act" where
  "st_tls_init s =
    (let vs = (case s of None \<Rightarrow> [] | Some vs \<Rightarrow> vs) in Done (length vs) (Some (vs @ [None])))"

definition st_tls_get_value :: "nat \<Rightarrow> (nat option, st_tls) act" where
  "st_tls_get_value k s = (case s of None \<Rightarrow> Crash NullDeref
     | Some vs \<Rightarrow> if k < length vs then Done (vs ! k) s else Crash AssertFailure)"

definition st_tls_set_value :: "nat \<Rightarrow> nat option \<Rightarrow> (unit, st_tls) act" where
  "st_tls_set_value k v s = (case s of None \<Rightarrow> Crash NullDeref
     | Some vs \<Rightarrow> if k < length vs then Done () (Some (vs[k := v])) else Crash AssertFailure)"

definition st_tls_cleanup :: "nat \<Rightarrow> (unit, st_tls) act" where
  "st_tls_cleanup k s = (case s of None \<Rightarrow> Crash NullDeref
     | Some vs \<Rightarrow> if k < length vs then Done () (Some (vs[k := None])) else Crash AssertFailure)"

section \<open>Per-thread data\<close>

record gft_scratch_pad =
  q_str :: string
  uc_q_str :: string
  s_str :: string
  gft_ret :: string
  gft_fmt :: string
  gft_tmp :: string
  gft_buffer :: string
  uc_q_str_valid :: bool
  q_str_valid :: bool
  s_str_valid :: bool

definition gft_reset :: "gft_scratch_pad \<Rightarrow> gft_scratch_pad" where
  "gft_reset p = p\<lparr>uc_q_str_valid := False, q_str_valid := False, s_str_valid := False, gft_ret := []\<rparr>"

record appender_sratch_pad =
  sp_oss :: string
  sp_str :: string
  sp_chstr :: string

record DiagnosticContext =
  dc_message :: string
  dc_fullMessage :: string

record per_thread_data =
  macros_oss :: string
  layout_oss :: string
  ndc_dcs :: "DiagnosticContext list"
  mdc_map :: "string \<rightharpoonup> string"
  thread_name :: string
  thread_name2 :: string
  gft_sp :: gft_scratch_pad
  appender_sp :: appender_sratch_pad
  faa_str :: string
  ll_str :: string
  forced_log_ev :: InternalLoggingEvent
  fnull :: "nat option"
  snprintf_buf :: string

text \<open>The objects \<^verbatim>\<open>alloc_ptd\<close> makes, beside the thread-local storage.\<close>

record 's ptd_state =
  ptds :: "nat \<rightharpoonup> per_thread_data"
  storage :: 's

definition on_storage :: "('a, 's) act \<Rightarrow> ('a, 's ptd_state) act" where
  "on_storage f st = (case f (storage st) of
     Done x s \<Rightarrow> Done x (st\<lparr>storage := s\<rparr>) | Thrown e s \<Rightarrow> Thrown e (st\<lparr>storage := s\<rparr>)
   | Waits s \<Rightarrow> Waits (st\<lparr>storage := s\<rparr>) | Crash e \<Rightarrow> Crash e)"

text \<open>With \<^verbatim>\<open>LOG4CPLUS_THREAD_LOCAL_VAR\<close>: \<^verbatim>\<open>ptd\<close> is a variable of each thread.\<close>

definition tlv_set_ptd :: "tid \<Rightarrow> nat option \<Rightarrow> (unit, (tid \<Rightarrow> nat option) ptd_state) act" where
  "tlv_set_ptd t p = on_storage (\<lambda>ptd. Done () (ptd(t := p)))"

definition tlv_get_ptd :: "(tid \<Rightarrow> (nat option, (tid \<Rightarrow> nat option) ptd_state) act) \<Rightarrow> tid \<Rightarrow> bool
    \<Rightarrow> (nat option, (tid \<Rightarrow> nat option) ptd_state) act" where
  "tlv_get_ptd alloc_ptd t alloc st =
    (if storage st t = None \<and> alloc then alloc_ptd t st else Done (storage st t) st)"

text \<open>Otherwise: the value of \<open>tls_storage_key\<close> in the thread-local storage.\<close>

definition set_ptd :: "(tid \<Rightarrow> 'k \<Rightarrow> nat option \<Rightarrow> (unit, 's) act) \<Rightarrow> 'k \<Rightarrow> tid \<Rightarrow> nat option \<Rightarrow> (unit, 's ptd_state) act" where
  "set_ptd tls_set_value tls_storage_key t p = on_storage (tls_set_value t tls_storage_key p)"

definition get_ptd :: "(tid \<Rightarrow> 'k \<Rightarrow> (nat option, 's) act) \<Rightarrow> 'k \<Rightarrow> (tid \<Rightarrow> (nat option, 's ptd_state) act) \<Rightarrow> tid \<Rightarrow> bool
    \<Rightarrow> (nat option, 's ptd_state) act" where
  "get_ptd tls_get_value tls_storage_key alloc_ptd t alloc =
    seqR (on_storage (tls_get_value t tls_storage_key)) (\<lambda>ptd.
      if ptd = None \<and> alloc then alloc_ptd t else Done ptd)"

text \<open>\<^verbatim>\<open>get_ptd ()->member\<close>, a reference into the thread's own data.\<close>

definition ptd_member :: "(nat option, 's ptd_state) act \<Rightarrow> (per_thread_data \<Rightarrow> 'b) \<Rightarrow> ('b, 's ptd_state) act" where
  "ptd_member get sel = seqR get (\<lambda>p st. case p of None \<Rightarrow> Crash NullDeref
     | Some a \<Rightarrow> (case ptds st a of None \<Rightarrow> Crash DanglingPtr | Some d \<Rightarrow> Done (sel d) st))"

definition get_thread_name_str :: "(tid \<Rightarrow> bool \<Rightarrow> (nat option, 's ptd_state) act) \<Rightarrow> tid \<Rightarrow> (string, 's ptd_state) act" where
  "get_thread_name_str gp t = ptd_member (gp t True) thread_name"

definition get_thread_name2_str :: "(tid \<Rightarrow> bool \<Rightarrow> (nat option, 's ptd_state) act) \<Rightarrow> tid \<Rightarrow> (string, 's ptd_state) act" where
  "get_thread_name2_str gp t = ptd_member (gp t True) thread_name2"

definition get_gft_scratch_pad :: "(tid \<Rightarrow> bool \<Rightarrow> (nat option, 's ptd_state) act) \<Rightarrow> tid \<Rightarrow> (gft_scratch_pad, 's ptd_state) act" where
  "get_gft_scratch_pad gp t = ptd_member (gp t True) gft_sp"

definition get_appender_sp :: "(tid \<Rightarrow> bool \<Rightarrow> (nat option, 's ptd_state) act) \<Rightarrow> tid \<Rightarrow> (appender_sratch_pad, 's ptd_state) act" where
  "get_appender_sp gp t = ptd_member (gp t True) appender_sp"

section \<open>Programs that use per-thread data\<close>

text \<open>A series of calls of \<^verbatim>\<open>get_ptd\<close> by threads, and their results.\<close>

fun ptd_calls :: "(tid \<Rightarrow> bool \<Rightarrow> (nat option, 's ptd_state) act) \<Rightarrow> (tid \<times> bool) list \<Rightarrow> (nat option list, 's ptd_state) act" where
  "ptd_calls gp [] = Done []"
| "ptd_calls gp ((t, alloc) # cs) = seqR (gp t alloc) (\<lambda>p. seqR (ptd_calls gp cs) (\<lambda>ps. Done (p # ps)))"

text \<open>What is expected of \<^verbatim>\<open>alloc_ptd\<close>: a new object, made the data of the calling thread.\<close>

definition allocates :: "(tid \<Rightarrow> 'k \<Rightarrow> nat option \<Rightarrow> (unit, 's) act) \<Rightarrow> 'k \<Rightarrow> (tid \<Rightarrow> (nat option, 's ptd_state) act) \<Rightarrow> bool" where
  "allocates tls_set key alloc_ptd \<longleftrightarrow> (\<forall>t st. finite (dom (ptds st)) \<longrightarrow> (\<exists>p d. ptds st p = None
     \<and> alloc_ptd t st = seqR (set_ptd tls_set key t (Some p)) (\<lambda>_. Done (Some p)) (st\<lparr>ptds := (ptds st)(p \<mapsto> d)\<rparr>)))"

text \<open>Every thread has its own pointer, the same whenever it asks, and gets one when it may allocate.\<close>

definition private_ptds :: "(tid \<times> bool) list \<Rightarrow> nat option list \<Rightarrow> bool" where
  "private_ptds cs ps \<longleftrightarrow> length ps = length cs
     \<and> (\<forall>i<length cs. snd (cs ! i) \<longrightarrow> ps ! i \<noteq> None)
     \<and> (\<forall>i<length cs. \<forall>j<length cs. ps ! i \<noteq> None \<and> ps ! j \<noteq> None \<longrightarrow> (ps ! i = ps ! j \<longleftrightarrow> fst (cs ! i) = fst (cs ! j)))"

section \<open>The contract of thread-local storage\<close>

locale tls_storage =
  fixes init :: "('k, 's) act"
    and get :: "tid \<Rightarrow> 'k \<Rightarrow> (nat option, 's) act"
    and set_value :: "tid \<Rightarrow> 'k \<Rightarrow> nat option \<Rightarrow> (unit, 's) act"
    and cleanup :: "'k \<Rightarrow> (unit, 's) act"
    and inv :: "'s \<Rightarrow> bool"
    and alive :: "'s \<Rightarrow> 'k set"
    and room :: "'s \<Rightarrow> bool"
    and view :: "'s \<Rightarrow> tid \<Rightarrow> 'k \<Rightarrow> nat option"
    and threads :: "tid set"
  assumes init_law: "inv s \<Longrightarrow> room s \<Longrightarrow> \<exists>k s'. init s = Done k s' \<and> inv s' \<and> k \<notin> alive s \<and> alive s' = insert k (alive s)
      \<and> (\<forall>t. view s' t k = None) \<and> (\<forall>t. \<forall>k'\<in>alive s. view s' t k' = view s t k')"
    and get_law: "inv s \<Longrightarrow> k \<in> alive s \<Longrightarrow> t \<in> threads \<Longrightarrow> get t k s = Done (view s t k) s"
    and set_law: "inv s \<Longrightarrow> k \<in> alive s \<Longrightarrow> t \<in> threads \<Longrightarrow> \<exists>s'. set_value t k v s = Done () s' \<and> inv s' \<and> alive s' = alive s
      \<and> (\<forall>u\<in>threads. \<forall>k'\<in>alive s. view s' u k' = (if u = t \<and> k' = k then v else view s u k'))"
    and cleanup_law: "inv s \<Longrightarrow> k \<in> alive s \<Longrightarrow> \<exists>s'. cleanup k s = Done () s' \<and> inv s' \<and> alive s - {k} \<subseteq> alive s'
      \<and> (\<forall>t. \<forall>k'\<in>alive s - {k}. view s' t k' = view s t k')"
begin

definition ptd_inv :: "'k \<Rightarrow> 's ptd_state \<Rightarrow> bool" where
  "ptd_inv k st \<longleftrightarrow> inv (storage st) \<and> k \<in> alive (storage st) \<and> finite (dom (ptds st))
     \<and> (\<forall>t\<in>threads. \<forall>p. view (storage st) t k = Some p \<longrightarrow> p \<in> dom (ptds st))
     \<and> (\<forall>t\<in>threads. \<forall>u\<in>threads. \<forall>p. view (storage st) t k = Some p \<and> view (storage st) u k = Some p \<longrightarrow> t = u)"

text \<open>One call: the invariant is kept, the result is the thread's value afterwards, a value that is set
  stays, and a call that may allocate sets it.\<close>

lemma get_ptd_step:
  assumes "allocates set_value k alloc_ptd" "ptd_inv k st" "t \<in> threads"
  shows "\<exists>p st'. get_ptd get k alloc_ptd t alloc st = Done p st' \<and> ptd_inv k st' \<and> p = view (storage st') t k
    \<and> (\<forall>u\<in>threads. \<forall>q. view (storage st) u k = Some q \<longrightarrow> view (storage st') u k = Some q) \<and> (alloc \<longrightarrow> p \<noteq> None)"
proof -
  have inv: "inv (storage st)" "k \<in> alive (storage st)" "finite (dom (ptds st))" using assms(2) by (auto simp: ptd_inv_def)
  have g: "on_storage (get t k) st = Done (view (storage st) t k) st"
    using get_law[OF inv(1,2) assms(3)] by (simp add: on_storage_def)
  show ?thesis
  proof (cases "view (storage st) t k = None \<and> alloc")
    case False
    then show ?thesis using g assms(2) by (auto simp: get_ptd_def)
  next
    case True
    obtain p d where p: "ptds st p = None"
      "alloc_ptd t st = seqR (set_ptd set_value k t (Some p)) (\<lambda>_. Done (Some p)) (st\<lparr>ptds := (ptds st)(p \<mapsto> d)\<rparr>)"
      using assms(1) inv(3) unfolding allocates_def by blast
    obtain s' where s': "set_value t k (Some p) (storage st) = Done () s'" "inv s'" "alive s' = alive (storage st)"
      "\<forall>u\<in>threads. \<forall>k'\<in>alive (storage st). view s' u k' = (if u = t \<and> k' = k then Some p else view (storage st) u k')"
      using set_law[OF inv(1,2) assms(3)] by blast
    let ?st = "st\<lparr>ptds := (ptds st)(p \<mapsto> d), storage := s'\<rparr>"
    have "get_ptd get k alloc_ptd t alloc st = Done (Some p) ?st"
      using g True p(2) s'(1) by (simp add: get_ptd_def set_ptd_def on_storage_def)
    moreover have "ptd_inv k ?st"
      using assms(2,3) p(1) s'(2-4) inv by (auto simp: ptd_inv_def)
    ultimately show ?thesis using s'(4) inv(2) assms(3) True by (intro exI[of _ "Some p"] exI[of _ ?st]) auto
  qed
qed

lemma ptd_calls_run:
  assumes "allocates set_value k alloc_ptd" "fst ` set cs \<subseteq> threads"
  shows "ptd_inv k st \<Longrightarrow> \<exists>ps st'. ptd_calls (get_ptd get k alloc_ptd) cs st = Done ps st' \<and> ptd_inv k st' \<and> length ps = length cs
    \<and> (\<forall>u\<in>threads. \<forall>q. view (storage st) u k = Some q \<longrightarrow> view (storage st') u k = Some q)
    \<and> (\<forall>i<length cs. (snd (cs ! i) \<longrightarrow> ps ! i \<noteq> None) \<and> (ps ! i \<noteq> None \<longrightarrow> ps ! i = view (storage st') (fst (cs ! i)) k))"
  using assms(2)
proof (induction cs arbitrary: st)
  case Nil
  then show ?case by simp
next
  case (Cons c cs)
  obtain t alloc where c: "c = (t, alloc)" by (cases c)
  obtain p st1 where 1: "get_ptd get k alloc_ptd t alloc st = Done p st1" "ptd_inv k st1" "p = view (storage st1) t k"
    "\<forall>u\<in>threads. \<forall>q. view (storage st) u k = Some q \<longrightarrow> view (storage st1) u k = Some q" "alloc \<longrightarrow> p \<noteq> None"
    using get_ptd_step[OF assms(1) Cons.prems(1), of t alloc] Cons.prems(2) c by auto
  obtain ps st' where 2: "ptd_calls (get_ptd get k alloc_ptd) cs st1 = Done ps st'" "ptd_inv k st'" "length ps = length cs"
    "\<forall>u\<in>threads. \<forall>q. view (storage st1) u k = Some q \<longrightarrow> view (storage st') u k = Some q"
    "\<forall>i<length cs. (snd (cs ! i) \<longrightarrow> ps ! i \<noteq> None) \<and> (ps ! i \<noteq> None \<longrightarrow> ps ! i = view (storage st') (fst (cs ! i)) k)"
    using Cons.IH[OF 1(2)] Cons.prems(2) by auto
  have "p \<noteq> None \<Longrightarrow> p = view (storage st') t k" using 1(3) 2(4) Cons.prems(2) c by auto
  moreover have "ptd_calls (get_ptd get k alloc_ptd) (c # cs) st = Done (p # ps) st'" using 1(1) 2(1) c by (simp add: seqR_def)
  ultimately show ?case using 1(4,5) 2(2-5) c by (auto simp: nth_Cons split: nat.splits)
qed

text \<open>From a fresh key and no data yet.\<close>

lemma ptd_private:
  assumes "allocates set_value k alloc_ptd" "fst ` set cs \<subseteq> threads" "inv s" "k \<in> alive s" "\<forall>t\<in>threads. view s t k = None"
  shows "\<exists>ps st'. ptd_calls (get_ptd get k alloc_ptd) cs \<lparr>ptds = Map.empty, storage = s\<rparr> = Done ps st' \<and> private_ptds cs ps"
proof -
  have "ptd_inv k \<lparr>ptds = Map.empty, storage = s\<rparr>" using assms(3-5) by (simp add: ptd_inv_def)
  from ptd_calls_run[OF assms(1,2) this] obtain ps st' where
    r: "ptd_calls (get_ptd get k alloc_ptd) cs \<lparr>ptds = Map.empty, storage = s\<rparr> = Done ps st'" "ptd_inv k st'" "length ps = length cs"
    "\<forall>i<length cs. (snd (cs ! i) \<longrightarrow> ps ! i \<noteq> None) \<and> (ps ! i \<noteq> None \<longrightarrow> ps ! i = view (storage st') (fst (cs ! i)) k)"
    by blast
  have thr: "fst (cs ! i) \<in> threads" if "i < length cs" for i using that assms(2) nth_mem[OF that] by blast
  have uniq: "t = u" if "view (storage st') t k = Some p" "view (storage st') u k = Some p" "t \<in> threads" "u \<in> threads" for t u p
    using r(2) that unfolding ptd_inv_def by blast
  have "ps ! i = ps ! j \<longleftrightarrow> fst (cs ! i) = fst (cs ! j)"
    if "i < length cs" "j < length cs" "ps ! i \<noteq> None" "ps ! j \<noteq> None" for i j
  proof -
    have e: "ps ! i = view (storage st') (fst (cs ! i)) k" "ps ! j = view (storage st') (fst (cs ! j)) k" using r(4) that by auto
    with that(3) obtain p where "view (storage st') (fst (cs ! i)) k = Some p" by (metis not_None_eq)
    then show ?thesis using uniq[OF _ _ thr[OF that(1)] thr[OF that(2)]] e by auto
  qed
  with r show ?thesis unfolding private_ptds_def by blast
qed

end

section \<open>The three implementations meet the contract\<close>

definition px_view :: "px_tls \<Rightarrow> tid \<Rightarrow> nat \<Rightarrow> nat option" where
  "px_view s t c = (case key_cells s c of Some (Some k) \<Rightarrow> specific s t k | _ \<Rightarrow> None)"

definition px_alive :: "px_tls \<Rightarrow> nat set" where
  "px_alive s = {c. \<exists>k. key_cells s c = Some (Some k) \<and> k \<in> live_keys s}"

definition px_tls_ok :: "px_tls \<Rightarrow> bool" where
  "px_tls_ok s \<longleftrightarrow> (\<forall>c\<in>dom (key_cells s). c < next_cell s) \<and> (\<forall>k\<in>live_keys s. k < next_key s)
     \<and> (\<forall>c c' k. key_cells s c = Some (Some k) \<and> key_cells s c' = Some (Some k) \<longrightarrow> c = c')
     \<and> (\<forall>c k. key_cells s c = Some (Some k) \<longrightarrow> k < next_key s)"

lemma key_of_cell_alive: "c \<in> px_alive s \<Longrightarrow> \<exists>k. key_cells s c = Some (Some k) \<and> key_of_cell c s = Done k s"
  by (auto simp: px_alive_def key_of_cell_def)

lemma px_tls_okD:
  assumes "px_tls_ok s"
  shows "key_cells s c = Some x \<Longrightarrow> c < next_cell s" "key_cells s c = Some (Some k) \<Longrightarrow> k < next_key s"
    "k \<in> live_keys s \<Longrightarrow> k < next_key s"
    "key_cells s c = Some (Some k) \<Longrightarrow> key_cells s c' = Some (Some k) \<Longrightarrow> c = c'"
  using assms unfolding px_tls_ok_def by blast+

lemma px_tls_okI:
  assumes "\<And>c x. key_cells s c = Some x \<Longrightarrow> c < next_cell s" "\<And>c k. key_cells s c = Some (Some k) \<Longrightarrow> k < next_key s"
    "\<And>k. k \<in> live_keys s \<Longrightarrow> k < next_key s"
    "\<And>c c' k. key_cells s c = Some (Some k) \<Longrightarrow> key_cells s c' = Some (Some k) \<Longrightarrow> c = c'"
  shows "px_tls_ok s"
  using assms unfolding px_tls_ok_def by blast

lemma px_tls_ok_new:
  assumes "px_tls_ok s"
  shows "px_tls_ok (s\<lparr>key_cells := (key_cells s)(next_cell s \<mapsto> Some (next_key s)), next_cell := Suc (next_cell s),
    live_keys := insert (next_key s) (live_keys s), next_key := Suc (next_key s), keys_left := keys_left s - 1,
    specific := (\<lambda>t. (specific s t)(next_key s := None))\<rparr>)"
proof (rule px_tls_okI, goal_cases)
  case (1 c x)
  then show ?case using px_tls_okD(1)[OF assms, of c x] by (auto split: if_splits)
next
  case (2 c k)
  then show ?case using px_tls_okD(2)[OF assms, of c k] by (auto split: if_splits)
next
  case (3 k)
  then show ?case using px_tls_okD(3)[OF assms, of k] by auto
next
  case (4 c c' k)
  then show ?case using px_tls_okD(2)[OF assms, of c k] px_tls_okD(2)[OF assms, of c' k] px_tls_okD(4)[OF assms, of c k c']
    by (auto split: if_splits)
qed

interpretation px_slots: tls_storage px_tls_init px_tls_get_value px_tls_set_value px_tls_cleanup px_tls_ok px_alive
  "\<lambda>s. 0 < keys_left s" px_view UNIV
proof
  fix s
  assume ok: "px_tls_ok s" and room: "0 < keys_left s"
  let ?s = "s\<lparr>key_cells := (key_cells s)(next_cell s \<mapsto> Some (next_key s)), next_cell := Suc (next_cell s),
    live_keys := insert (next_key s) (live_keys s), next_key := Suc (next_key s), keys_left := keys_left s - 1,
    specific := (\<lambda>t. (specific s t)(next_key s := None))\<rparr>"
  have "px_tls_init s = Done (next_cell s) ?s" using room by (simp add: px_tls_init_def pthread_key_create_def)
  moreover have "px_tls_ok ?s" using ok by (rule px_tls_ok_new)
  moreover have "next_cell s \<notin> px_alive s" using ok by (auto simp: px_alive_def px_tls_ok_def)
  moreover have "px_alive ?s = insert (next_cell s) (px_alive s)" using ok by (auto simp: px_alive_def px_tls_ok_def)
  moreover have "px_view ?s t (next_cell s) = None" for t by (simp add: px_view_def)
  moreover have "px_view ?s t c = px_view s t c" if "c \<in> px_alive s" for t c
    using ok that by (auto simp: px_view_def px_alive_def px_tls_ok_def)
  ultimately show "\<exists>k s'. px_tls_init s = Done k s' \<and> px_tls_ok s' \<and> k \<notin> px_alive s \<and> px_alive s' = insert k (px_alive s)
      \<and> (\<forall>t. px_view s' t k = None) \<and> (\<forall>t. \<forall>k'\<in>px_alive s. px_view s' t k' = px_view s t k')" by blast
next
  fix s c t
  assume "px_tls_ok s" "c \<in> px_alive s"
  then show "px_tls_get_value t c s = Done (px_view s t c) s"
    using key_of_cell_alive[of c s] by (auto simp: px_tls_get_value_def px_view_def)
next
  fix s c t v
  assume ok: "px_tls_ok s" "c \<in> px_alive s"
  then obtain k where k: "key_cells s c = Some (Some k)" "key_of_cell c s = Done k s" using key_of_cell_alive by blast
  let ?s = "s\<lparr>specific := (specific s)(t := (specific s t)(k := v))\<rparr>"
  have "px_view ?s u c' = (if u = t \<and> c' = c then v else px_view s u c')" if "c' \<in> px_alive s" for u c'
    using ok(1) that k(1) by (auto simp: px_view_def px_alive_def px_tls_ok_def)
  moreover have "px_tls_set_value t c v s = Done () ?s" using k(2) by (simp add: px_tls_set_value_def)
  moreover have "px_tls_ok ?s" "px_alive ?s = px_alive s" using ok(1) by (simp_all add: px_tls_ok_def px_alive_def)
  ultimately show "\<exists>s'. px_tls_set_value t c v s = Done () s' \<and> px_tls_ok s' \<and> px_alive s' = px_alive s
      \<and> (\<forall>u\<in>UNIV. \<forall>k'\<in>px_alive s. px_view s' u k' = (if u = t \<and> k' = c then v else px_view s u k'))" by blast
next
  fix s c
  assume ok: "px_tls_ok s" "c \<in> px_alive s"
  then obtain k where k: "key_cells s c = Some (Some k)" "key_of_cell c s = Done k s" using key_of_cell_alive by blast
  let ?s = "s\<lparr>live_keys := live_keys s - {k}, keys_left := Suc (keys_left s), key_cells := (key_cells s)(c := None)\<rparr>"
  have "px_tls_cleanup c s = Done () ?s" using k(2) by (simp add: px_tls_cleanup_def)
  moreover have "px_tls_ok ?s"
    by (rule px_tls_okI) (auto split: if_splits dest: px_tls_okD(1-3)[OF ok(1)] intro: px_tls_okD(4)[OF ok(1)])
  moreover have "px_alive s - {c} \<subseteq> px_alive ?s" using px_tls_okD(4)[OF ok(1) k(1)] by (auto simp: px_alive_def)
  moreover have "px_view ?s t c' = px_view s t c'" if "c' \<in> px_alive s - {c}" for t c' using that by (simp add: px_view_def split: option.splits)
  ultimately show "\<exists>s'. px_tls_cleanup c s = Done () s' \<and> px_tls_ok s' \<and> px_alive s - {c} \<subseteq> px_alive s'
      \<and> (\<forall>t. \<forall>k'\<in>px_alive s - {c}. px_view s' t k' = px_view s t k')" by blast
qed

definition w32_view :: "w32_tls \<Rightarrow> tid \<Rightarrow> nat \<Rightarrow> nat option" where
  "w32_view s t k = slots s t k"

text \<open>The system's choice is a free index.\<close>

definition picks_free :: "(nat set \<Rightarrow> nat option) \<Rightarrow> bool" where
  "picks_free free_index \<longleftrightarrow> (\<forall>U k. free_index U = Some k \<longrightarrow> k \<notin> U)"

lemma w32_slots_law:
  assumes "picks_free free_index"
  shows "tls_storage (w32_tls_init free_index) w32_tls_get_value w32_tls_set_value w32_tls_cleanup (\<lambda>_. True) used_indices
    (\<lambda>s. free_index (used_indices s) \<noteq> None) w32_view UNIV"
proof
  fix s :: w32_tls
  assume "free_index (used_indices s) \<noteq> None"
  then obtain k where k: "free_index (used_indices s) = Some k" by blast
  with assms have "k \<notin> used_indices s" by (simp add: picks_free_def)
  with k show "\<exists>k s'. w32_tls_init free_index s = Done k s' \<and> True \<and> k \<notin> used_indices s \<and> used_indices s' = insert k (used_indices s)
      \<and> (\<forall>t. w32_view s' t k = None) \<and> (\<forall>t. \<forall>k'\<in>used_indices s. w32_view s' t k' = w32_view s t k')"
    by (auto simp: w32_tls_init_def w32_view_def)
qed (simp_all add: w32_tls_get_value_def w32_tls_set_value_def w32_tls_cleanup_def w32_view_def)

text \<open>The lowest of the 64 indices every process has.\<close>

definition lowest_index :: "nat set \<Rightarrow> nat option" where
  "lowest_index U = List.find (\<lambda>k. k \<notin> U) [0..<64]"

lemma lowest_index_free: "picks_free lowest_index"
  by (auto simp: picks_free_def lowest_index_def find_Some_iff)

interpretation w32_slots: tls_storage "w32_tls_init lowest_index" w32_tls_get_value w32_tls_set_value w32_tls_cleanup "\<lambda>_. True"
  used_indices "\<lambda>s. lowest_index (used_indices s) \<noteq> None" w32_view UNIV
  by (rule w32_slots_law[OF lowest_index_free])

definition st_alive :: "st_tls \<Rightarrow> nat set" where
  "st_alive s = {k. \<exists>vs. s = Some vs \<and> k < length vs}"

definition st_view :: "st_tls \<Rightarrow> tid \<Rightarrow> nat \<Rightarrow> nat option" where
  "st_view s t k = (case s of None \<Rightarrow> None | Some vs \<Rightarrow> vs ! k)"

interpretation st_slots: tls_storage st_tls_init "\<lambda>_. st_tls_get_value" "\<lambda>_. st_tls_set_value" st_tls_cleanup "\<lambda>_. True"
  st_alive "\<lambda>_. True" st_view "{1}"
proof
  fix s :: st_tls
  show "\<exists>k s'. st_tls_init s = Done k s' \<and> True \<and> k \<notin> st_alive s \<and> st_alive s' = insert k (st_alive s)
      \<and> (\<forall>t. st_view s' t k = None) \<and> (\<forall>t. \<forall>k'\<in>st_alive s. st_view s' t k' = st_view s t k')"
    by (cases s) (auto simp: st_tls_init_def st_alive_def st_view_def nth_append)
qed (auto simp: st_tls_get_value_def st_tls_set_value_def st_tls_cleanup_def st_alive_def st_view_def nth_list_update)

section \<open>Per-thread data is private\<close>

text \<open>C38. With POSIX keys, once the storage key was made, in any series of calls of \<^verbatim>\<open>get_ptd\<close> by any
  threads every call returns, a thread that may allocate always gets its data, always the same, and
  no two threads ever get the same data.\<close>

theorem per_thread_data_private:
  assumes "px_tls_ok s" "0 < keys_left s" "px_tls_init s = Done k s'" "allocates px_tls_set_value k alloc_ptd"
  shows "\<exists>ps st'. ptd_calls (get_ptd px_tls_get_value k alloc_ptd) cs \<lparr>ptds = Map.empty, storage = s'\<rparr> = Done ps st'
    \<and> private_ptds cs ps"
proof -
  have "px_tls_ok s'" "k \<in> px_alive s'" "\<forall>t. px_view s' t k = None"
    using px_slots.init_law[OF assms(1,2)] assms(3) by auto
  then show ?thesis using px_slots.ptd_private[OF assms(4)] by simp
qed

text \<open>An allocator that takes the next free address.\<close>

definition blank_event :: InternalLoggingEvent where
  "blank_event = \<lparr>ev_message = [], ev_loggerName = [], ev_ll = NOT_SET_LOG_LEVEL, ev_ndc = [], ev_mdc = Map.empty, ev_thread = [],
     ev_thread2 = [], ev_timestamp = \<lparr>tv_sec = 0, tv_usec = 0\<rparr>, ev_file = [], ev_function = [], ev_line = 0, threadCached = False,
     thread2Cached = False, ndcCached = False, mdcCached = False\<rparr>"

definition blank_data :: per_thread_data where
  "blank_data = \<lparr>macros_oss = [], layout_oss = [], ndc_dcs = [], mdc_map = Map.empty, thread_name = [], thread_name2 = [],
     gft_sp = \<lparr>q_str = [], uc_q_str = [], s_str = [], gft_ret = [], gft_fmt = [], gft_tmp = [], gft_buffer = [],
       uc_q_str_valid = False, q_str_valid = False, s_str_valid = False\<rparr>,
     appender_sp = \<lparr>sp_oss = [], sp_str = [], sp_chstr = []\<rparr>, faa_str = [], ll_str = [], forced_log_ev = blank_event,
     fnull = None, snprintf_buf = []\<rparr>"

definition next_alloc :: "(tid \<Rightarrow> 'k \<Rightarrow> nat option \<Rightarrow> (unit, 's) act) \<Rightarrow> 'k \<Rightarrow> tid \<Rightarrow> (nat option, 's ptd_state) act" where
  "next_alloc tls_set k t st = (let p = Suc (Max (insert 0 (dom (ptds st)))) in
     seqR (set_ptd tls_set k t (Some p)) (\<lambda>_. Done (Some p)) (st\<lparr>ptds := (ptds st)(p \<mapsto> blank_data)\<rparr>))"

lemma next_alloc_allocates: "allocates tls_set k (next_alloc tls_set k)"
  unfolding allocates_def
proof (intro allI impI)
  fix t and st :: "'b ptd_state"
  assume fin: "finite (dom (ptds st))"
  let ?p = "Suc (Max (insert 0 (dom (ptds st))))"
  have "ptds st ?p = None"
  proof (rule ccontr)
    assume "ptds st ?p \<noteq> None"
    then have "?p \<le> Max (insert 0 (dom (ptds st)))" using fin by (intro Max_ge) (auto simp: domIff)
    then show False by simp
  qed
  then show "\<exists>p d. ptds st p = None \<and> next_alloc tls_set k t st
      = seqR (set_ptd tls_set k t (Some p)) (\<lambda>_. Done (Some p)) (st\<lparr>ptds := (ptds st)(p \<mapsto> d)\<rparr>)"
    by (intro exI[of _ ?p] exI[of _ blank_data]) (simp add: next_alloc_def Let_def)
qed

definition tls_start :: px_tls where
  "tls_start = \<lparr>key_cells = Map.empty, next_cell = 0, live_keys = {}, next_key = 0, keys_left = 128, specific = (\<lambda>_ _. None)\<rparr>"

theorem per_thread_data_private_witness:
  "\<exists>s' ps st'. px_tls_init tls_start = Done 0 s'
    \<and> ptd_calls (get_ptd px_tls_get_value 0 (next_alloc px_tls_set_value 0)) [(1, False), (1, True), (2, True), (1, True)]
        \<lparr>ptds = Map.empty, storage = s'\<rparr> = Done ps st'
    \<and> private_ptds [(1, False), (1, True), (2, True), (1, True)] ps"
proof -
  have "px_tls_ok tls_start" "0 < keys_left tls_start" by (simp_all add: px_tls_ok_def tls_start_def)
  moreover obtain s' where s': "px_tls_init tls_start = Done 0 s'"
    by (simp add: px_tls_init_def pthread_key_create_def tls_start_def)
  ultimately show ?thesis using per_thread_data_private[OF _ _ s' next_alloc_allocates] by blast
qed

end
