(* ===== verification/L4_Os.thy ===== *)
theory L4_Os
  imports L4_Run "HOL-Library.Word"
begin

text \<open>
  The small adapters to the operating system in the internal headers of log4cplus: the two socket types and
  the last error of \<^verbatim>\<open>internal/socket.h\<close>, process ids of \<^verbatim>\<open>internal/env.h\<close> and thread ids of
  \<^verbatim>\<open>thread/impl/threads-impl.h\<close>. \<^verbatim>\<open>SOCKET_TYPE\<close> is \<^verbatim>\<open>std::ptrdiff_t\<close>, a word of the width of a pointer. The
  lemmas show which sockets survive the conversions.
\<close>

section \<open>Sockets\<close>

text \<open>On Win32 a socket of the system is an unsigned word of the same width, elsewhere an \<^verbatim>\<open>int\<close>.\<close>

definition w32_INVALID_OS_SOCKET_VALUE :: "'p::len word" where
  "w32_INVALID_OS_SOCKET_VALUE = - 1"

definition px_INVALID_OS_SOCKET_VALUE :: "32 word" where
  "px_INVALID_OS_SOCKET_VALUE = - 1"

definition w32_to_os_socket :: "'p::len word \<Rightarrow> 'p word" where
  "w32_to_os_socket x = x"

definition w32_to_log4cplus_socket :: "'p::len word \<Rightarrow> 'p word" where
  "w32_to_log4cplus_socket x = x"

definition px_to_os_socket :: "'p::len word \<Rightarrow> 32 word" where
  "px_to_os_socket x = ucast x"

definition px_to_log4cplus_socket :: "32 word \<Rightarrow> 'p::len word" where
  "px_to_log4cplus_socket x = scast x"

text \<open>\<^verbatim>\<open>errno\<close> is the whole state.\<close>

definition set_last_socket_error :: "int \<Rightarrow> (unit, int) act" where
  "set_last_socket_error err e = Done () err"

definition get_last_socket_error :: "(int, int) act" where
  "get_last_socket_error e = Done e e"

section \<open>Processes and threads\<close>

text \<open>What the system calls return is a parameter; a build without threads or process ids has constants.\<close>

definition get_process_id :: "nat option \<Rightarrow> nat" where
  "get_process_id pid = (case pid of None \<Rightarrow> 0 | Some p \<Rightarrow> p)"

definition getCurrentThreadId :: "nat option \<Rightarrow> nat" where
  "getCurrentThreadId self = (case self of None \<Rightarrow> 1 | Some t \<Rightarrow> t)"

section \<open>Conversions\<close>

text \<open>A socket of the system always survives the way through the library's type, the invalid one too. The
  library's own values survive the way back on Win32; elsewhere exactly those of the range of \<^verbatim>\<open>int\<close> do.\<close>

lemma os_socket_round_trip:
  "w32_to_os_socket (w32_to_log4cplus_socket x) = x"
  "px_to_os_socket (px_to_log4cplus_socket y :: 64 word) = y"
  "px_to_os_socket (px_to_log4cplus_socket y :: 32 word) = y"
  "w32_to_log4cplus_socket (w32_to_os_socket x) = x"
  by (simp_all add: w32_to_os_socket_def w32_to_log4cplus_socket_def px_to_os_socket_def px_to_log4cplus_socket_def)
    (rule bit_word_eqI, simp add: bit_simps)+

lemma px_socket_survives:
  "px_to_log4cplus_socket (px_to_os_socket x) = (x :: 64 word) \<longleftrightarrow> - (2 ^ 31) \<le> sint x \<and> sint x < 2 ^ 31"
proof -
  have "sint (px_to_log4cplus_socket (px_to_os_socket x) :: 64 word) = signed_take_bit 31 (sint x)"
    unfolding px_to_os_socket_def px_to_log4cplus_socket_def by (rule bit_eqI) (auto simp: bit_simps min_def)
  then have "px_to_log4cplus_socket (px_to_os_socket x) = x \<longleftrightarrow> signed_take_bit 31 (sint x) = sint x"
    by (metis signed_word_eqI)
  then show ?thesis by (simp add: signed_take_bit_int_eq_self_iff)
qed

lemma invalid_socket_preserved:
  "px_to_log4cplus_socket px_INVALID_OS_SOCKET_VALUE = (- 1 :: 64 word)"
  "px_to_os_socket (- 1 :: 64 word) = px_INVALID_OS_SOCKET_VALUE"
  unfolding px_to_log4cplus_socket_def px_to_os_socket_def px_INVALID_OS_SOCKET_VALUE_def
  by (rule bit_word_eqI, simp add: bit_simps)+

end
