(* ===== verification/Spec2Isabelle.thy ===== *)
theory Spec2Isabelle
  imports Worked_Examples Echo_Wire Spare_Sources Gl_Registry Gl_Threads Sample_Client
    L4_Win32 L4_Shared_Mutex L4_Public L4_Strings L4_Factory L4_Tls L4_Os
begin

text \<open>
  Verification of SigHolic, a TCP game server in C++ on Windows I/O completion ports.

  \<^bold>\<open>The program.\<close> The repository has two servers, a console client and a logging library.
  \<^item> \<^verbatim>\<open>gordonlee_iocp/IocpServer/src\<close>, the first server. \<^verbatim>\<open>Network\<close> (\<^verbatim>\<open>network/network.cpp\<close>) starts the
    completion port (\<^verbatim>\<open>iocp/Iocp.cpp\<close>) and the listener (\<^verbatim>\<open>socket/TcpServer.cpp\<close>), accepts connections
    and makes a \<^verbatim>\<open>TcpClient\<close> (\<^verbatim>\<open>socket/TcpClient.cpp\<close>) for each. A session takes an overlapped
    structure for each direction from two pools (\<^verbatim>\<open>iocp/iocp_structure.h\<close>), buffers bytes in two
    \<^verbatim>\<open>PulledBuffer\<close>s (\<^verbatim>\<open>utility/Buffer.h\<close>), cuts them into packets (\<^verbatim>\<open>packet/Packet.h\<close>) and echoes or
    broadcasts them through the session list (\<^verbatim>\<open>socket/TcpSessionManager.h\<close>). Worker threads take
    completions from the port and call the session; shared state is guarded by \<^verbatim>\<open>utility/AutoLock.h\<close>.
  \<^item> \<^verbatim>\<open>gordonlee/src\<close>, the rewrite: \<^verbatim>\<open>Network\<close>, \<^verbatim>\<open>IocpBinder\<close>, \<^verbatim>\<open>TcpServer\<close>, \<^verbatim>\<open>TcpClient\<close> and the session pool
    under \<^verbatim>\<open>network/\<close>, a job processor and a scheduler under \<^verbatim>\<open>utility/\<close>.
  \<^item> \<^verbatim>\<open>gordonlee_iocp/SampleClient\<close>, an echo client.
  \<^item> \<^verbatim>\<open>gordonlee_iocp/Libraries/log4cplus\<close>, the headers of the logging library the server is linked
    with. The bodies that are in headers are modelled; the rest is a prebuilt library.

  \<^bold>\<open>How code becomes definitions.\<close> A class is a \<^theory_text>\<open>record\<close>, an object reached by pointer is an entry of a
  heap (a partial map from addresses), a null pointer is \<open>None\<close>. \<^verbatim>\<open>int\<close> and \<^verbatim>\<open>DWORD\<close> arithmetic is written
  with its wrap-around (\<open>i32\<close>, \<open>i64\<close>, or a \<open>word\<close>). In the servers an operation returns
  \<open>cpp_error + result\<close>: the left values are null and dangling pointers, accesses out of bounds, the
  invalid-parameter handler, a failed assertion, \<^verbatim>\<open>std::terminate\<close> and a lock that is not available.
  In log4cplus, which uses exceptions, it returns a \<open>run\<close>: returned, thrown, waiting or crashed, with
  the state left behind. The operating system is a parameter: \<open>winsock\<close> answers each socket call from
  the trace of earlier calls, \<open>px_os\<close> and \<open>w32_os\<close> say which calls of the thread libraries fail. Threads
  that run for ever are step relations, or functions of the list of events they see.

  \<^bold>\<open>The theories, in the order they build on each other.\<close>
  \<^item> \<open>Sig_Prelude\<close>: errors, sequencing, integer widths, memory copies, lemmas on lists and maps, the
    collections of rewrite rules. \<open>Win_Api\<close>: sockets and the operating system parameter.
    \<open>Auto_Lock\<close>: critical sections, guards, \<^verbatim>\<open>SCOPED_LOCK\<close>. \<open>Resource_Pool\<close>: the contract of a pool that
    hands out exclusive resources (locale \<open>fifo_pool\<close>).
  \<^item> \<open>Pulled_Buffer\<close> (contract \<open>byte_fifo\<close>), \<open>Packet_Format\<close>, \<open>Stream_Framing\<close> (the specification of
    packets in a byte stream), \<open>Io_Pool\<close>, \<open>Session_Manager\<close>, \<open>Listen_Iocp\<close>.
  \<^item> \<open>Tcp_Client\<close> and \<open>Tcp_Send\<close>: every method of a session that touches one session only.
    \<open>Network_Core\<close>: the server state and access to sessions; \<open>Packet_Dispatch\<close> and \<open>Packet_Effects\<close>:
    \<^verbatim>\<open>ProcessPacket\<close>, \<^verbatim>\<open>TryProcessPacket\<close> and what they do to all sessions.
    \<open>Session_Ownership\<close> and \<open>Session_Lifecycle\<close>: opening and closing, the worker and accept loops as the
    relation \<open>server_step\<close>, and the ownership invariant \<open>net_inv\<close>. \<open>Echo_Wire\<close>: what a turn of a worker
    hands to the operating system. \<open>Worked_Examples\<close>: concrete servers. \<open>Spare_Sources\<close>: classes
    of the first server that its \<^verbatim>\<open>main\<close> does not use.
  \<^item> \<open>Gl_Job_Processor\<close> (contract \<open>job_sink\<close>), \<open>Gl_Scheduler\<close>, \<open>Gl_Session\<close>, \<open>Gl_Registry\<close> (meets
    \<open>session_registry\<close> again), \<open>Gl_Network\<close>: the rewrite;
    \<open>Gl_Threads\<close>: how its threads and the objects they run on begin and end.
    \<open>Sample_Client\<close>: the client.
  \<^item> \<open>L4_Run\<close>: exceptions; \<open>L4_Guards\<close>: \<^verbatim>\<open>SyncGuard\<close> (contract \<open>lockable\<close>); \<open>L4_Pthreads\<close> and \<open>L4_Win32\<close>: the
    two implementations of mutexes, semaphores, events and read-write locks; \<open>L4_Shared_Mutex\<close>: the
    portable read-write lock and its interleavings; \<open>L4_Public\<close>: the classes that own an
    implementation; \<open>L4_Pointer\<close>: the intrusive shared pointer; \<open>L4_Strings\<close>: tokens and numerals;
    \<open>L4_Macros\<close>: the logging macros and the trace logger; \<open>L4_Events\<close>: the logging event; \<open>L4_Tls\<close>:
    thread-local storage (contract \<open>tls_storage\<close>, met by three implementations) and per-thread data.
    \<open>L4_Appender\<close>: the appender on a Boost device; \<open>L4_Factory\<close>: factories and their registry;
    \<open>L4_Os\<close>: sockets, process and thread ids.

  \<^bold>\<open>What is shown.\<close>
  \<^item> Bytes: buffers lose and invent nothing and stay in their array; packets survive being laid out in
    memory and being cut by the network; a completed receive dispatches exactly the complete packets;
    a stream of echo packets comes back unchanged, and goes out on the wire as one send of the bytes
    received; sends never overlap and never reorder.
  \<^item> Sessions and pools: on every reachable server no two sessions share an overlapped structure and
    every structure is either held or waiting; opening, closing, an accept turn and a worker turn
    return and keep this; the entry point starts a server and serves every connection it is given.
    Broadcasts reach every session that can take them.
  \<^item> Locks: guards exclude each other; the two uses of \<^verbatim>\<open>SCOPED_LOCK\<close> on the session list do not.
  \<^item> The rewrite: scheduled jobs run once and in order; its defects (dropped jobs, a session that deletes
    itself twice, a single accept, threads that outlive their objects) are stated as theorems of what
    the code does. The client shows what
    was echoed, and spins when the server closes.
  \<^item> log4cplus: the read-write lock excludes writers; the two semaphores agree; events wake their
    waiters; reference counts are exact; numerals are right for every value of every type; logging
    statements do what they should and nothing when disabled; trace messages are balanced; the context of
    an event is fixed by its first reader; per-thread data is private; a device appender hands on every
    event, and closes its device only when told to. A factory registry casts its untyped
    pointers to the right class and deletes every factory once.

  \<^bold>\<open>Bounds and fuel.\<close> The packet loop of \<^verbatim>\<open>TryProcessPacket\<close> is given one more than the number of stored
  bytes as fuel, which is enough because each turn takes some; the theorems show that it returns. The loops of the
  event classes take the number of wake-ups as fuel, the client's receive loop the number of calls; that
  they return, or never do, is proved for every sufficient amount. The nested destructors of the rewrite
  need four levels. Counters of the read-write lock are 32 bits wide, so its theorem is for fewer than
  \<open>2 ^ 32\<close> threads.

  \<^bold>\<open>Not modelled.\<close> Of log4cplus, the other appenders, layouts, filters, configuration, hierarchy, event queue
  and sockets are declarations whose bodies are in a prebuilt library; the accessors of \<^verbatim>\<open>LoggerImpl\<close>
  have no operation beside them to relate to. \<^verbatim>\<open>OverlappedStructure.h\<close> and the sources of two headers are empty.
  The style checker under \<^verbatim>\<open>Script\<close> is a third-party tool. Weak memory is not modelled: the steps of threads
  are atomic at the level of lock operations.
\<close>

section \<open>The byte stream: packets in, packets out\<close>

text \<open>C1. Echo, end to end. However the network cuts the stream of well-formed echo packets into
  receives, the session's send buffer gains exactly those packets, in order, and nothing is left
  unread.\<close>

theorem echo_stream:
  assumes "sessions_ok t w" "bound_client w i" "clients w i = Some c" "recv_bytes c = []"
    and "\<forall>p\<in>set ps. sendable p \<and> flag p = 0x01 \<and> checkSum p = 0x55"
    and "concat bss = concat (map wire_frame ps)"
    and "length (send_bytes c) + length (concat bss) \<le> nat BUFFER_SIZE"
  shows "\<exists>w' c'. receive_all os t i bss w = Inr w' \<and> sessions_ok t w' \<and> clients w' i = Some c'
    \<and> recv_bytes c' = [] \<and> send_bytes c' = send_bytes c @ concat (map wire_frame ps)"
proof -
  have stuck: "\<not> frame_ready []" by (simp add: frame_ready_def)
  have fr: "frames (recv_bytes c @ concat bss) = (map wire_frame ps, [])"
    using frames_wire_frames[of ps "[]"] assms(4-6) stuck by simp
  have echo: "\<forall>f\<in>set (map wire_frame ps). echo_packet f"
    using assms(5) wire_frame_echo by simp
  show ?thesis
    using receive_all_echo[OF assms(1-3) _ fr echo] assms(4,6,7) stuck by fastforce
qed

theorem echo_stream_witness:
  "\<exists>w' c'. receive_all calm_winsock 1 0 [[2], [0, 1, 0x55, 7, 8, 2, 0, 1], [0x55, 7, 8]] demo_server = Inr w'
    \<and> sessions_ok 1 w' \<and> clients w' 0 = Some c' \<and> recv_bytes c' = []
    \<and> send_bytes c' = [2, 0, 1, 0x55, 7, 8, 2, 0, 1, 0x55, 7, 8]"
  using echo_stream[OF demo_sessions_ok(1)[of 1] demo_sessions_ok(2) demo_server_fields(1), where os = calm_winsock
      and ps = "[demo_packet, demo_packet]" and bss = "[[2], [0, 1, 0x55, 7, 8, 2, 0, 1], [0x55, 7, 8]]"]
  by (simp add: BUFFER_SIZE_val)



text \<open>C3. A completed receive of \<open>bs\<close> hands to \<open>ProcessPacket\<close> exactly the complete frames of the
  unread bytes followed by \<open>bs\<close>, in order, flushes once, and keeps exactly the incomplete rest; the
  packet loop always ends.\<close>

theorem received_frames_dispatched:
  assumes "sessions_ok t w" "bound_client w i" "clients w i = Some c" "received c bs"
    and "frames (recv_bytes c @ bs) = (fs, rest)" "2 \<le> length (recv_bytes c @ bs)"
  shows "\<exists>w1 w' c'. on_client i (add_received (int (length bs))) w = Inr ((), w1)
    \<and> bindE (dispatch os t i fs w1) (\<lambda>w2. bindE (on_client i (FlushSendBuffer os t) w2) (\<lambda>(_, w3). Inr w3)) = Inr w'
    \<and> OnReceived os t (int (length bs)) i w = Inr w'
    \<and> sessions_ok t w' \<and> clients w' i = Some c' \<and> recv_bytes c' = rest"
proof -
  obtain w1 c1 w' c' where w1: "on_client i (add_received (int (length bs))) w = Inr ((), w1)"
    "clients w1 i = Some c1" "sessions_ok t w1" "bound_client w1 i" "recv_bytes c1 = recv_bytes c @ bs"
    "OnReceived os t (int (length bs)) i w = TryProcessPacket os t i w1"
    "OnReceived os t (int (length bs)) i w = Inr w'" "sessions_ok t w'" "clients w' i = Some c'" "recv_bytes c' = rest"
    using OnReceived_dispatch[OF assms(1-5), of os] by blast
  have "frames (recv_bytes c1) = (fs, rest)" using w1(5) assms(5) by simp
  from TryProcessPacket_dispatch(1)[OF w1(3,4,2) this, of os] assms(6) w1 show ?thesis
    by (intro exI[of _ w1] exI[of _ w'] exI[of _ c']) simp
qed

theorem received_frames_dispatched_witness:
  "\<exists>w1 w' c'. on_client 0 (add_received 3) demo_server = Inr ((), w1)
    \<and> bindE (dispatch calm_winsock 1 0 [] w1)
        (\<lambda>w2. bindE (on_client 0 (FlushSendBuffer calm_winsock 1) w2) (\<lambda>(_, w3). Inr w3)) = Inr w'
    \<and> OnReceived calm_winsock 1 3 0 demo_server = Inr w'
    \<and> sessions_ok 1 w' \<and> clients w' 0 = Some c' \<and> recv_bytes c' = [0, 0, 0]"
proof -
  have "received (demo_client 200 0 2) [0, 0, 0]"
    by (simp add: received_def demo_client_def TcpClient_new_def CreateBuffers_def CreateBuffer_def
        PulledBuffer_new_def GetEmptyLength_def GetEmptyPtr_def mem_read_def BUFFER_SIZE_val)
  moreover have "frames [0, 0, 0] = ([], [0, 0, 0])"
    by (rule frames_not_ready) (simp add: frame_ready_def frame_data_size_def bytes_word16_def)
  ultimately show ?thesis
    using received_frames_dispatched[OF demo_sessions_ok(1)[of 1] demo_sessions_ok(2) demo_server_fields(1),
        where bs = "[0, 0, 0]" and fs = "[]" and rest = "[0, 0, 0]" and os = calm_winsock]
    by simp
qed

section \<open>Sessions and the structures they own\<close>

text \<open>What the invariant says of two sessions and of the structures nobody holds.\<close>

lemma net_inv_exclusive:
  assumes "net_inv t w"
  shows "(\<forall>i j c d. listed w i \<and> listed w j \<and> i \<noteq> j \<and> clients w i = Some c \<and> clients w j = Some d \<longrightarrow>
      {m_pRecvOverlapped c, m_pSendOverlapped c} \<inter> {m_pRecvOverlapped d, m_pSendOverlapped d} = {})
    \<and> pool_owned (heap w, g_recvIoPool w) - held m_pRecvOverlapped w = set (m_waitingQueue (g_recvIoPool w))
    \<and> pool_owned (heap w, g_sendIoPool w) - held m_pSendOverlapped w = set (m_waitingQueue (g_sendIoPool w))"
proof (intro conjI allI impI, elim conjE)
  fix i j c d
  assume i: "listed w i" "clients w i = Some c" and j: "listed w j" "clients w j = Some d" and ne: "i \<noteq> j"
  show "{m_pRecvOverlapped c, m_pSendOverlapped c} \<inter> {m_pRecvOverlapped d, m_pSendOverlapped d} = {}"
    using net_invD(7)[OF assms i(1)] net_invD(7)[OF assms j(1)] i(2) j(2) ne
    by (auto simp: session_bound_def)
next
  have "pool_ok t (heap w, g_recvIoPool w)" "pool_ok t (heap w, g_sendIoPool w)"
    using net_invD(1)[OF assms] by (simp_all add: pools_inv_def)
  then show "pool_owned (heap w, g_recvIoPool w) - held m_pRecvOverlapped w = set (m_waitingQueue (g_recvIoPool w))"
    "pool_owned (heap w, g_sendIoPool w) - held m_pSendOverlapped w = set (m_waitingQueue (g_sendIoPool w))"
    using net_invD(1)[OF assms] by (auto simp: pools_inv_def used_def pool_ok_def)
qed





text \<open>C6. Closing a session puts its structures back into the pools while operations on them may still
  be pending. A failed completion that arrives afterwards dereferences the null session pointer: the
  worker tests for expired sessions only after it has tested for failure.\<close>

theorem late_completion_crashes:
  assumes "net_inv t w" "hc (heap w) a = Some i"
  shows "\<exists>c r s w'. clients w i = Some c \<and> m_pRecvOverlapped c = Some r \<and> m_pSendOverlapped c = Some s
    \<and> CloseSession t a w = Inr w'
    \<and> WorkerThread_step os u \<lparr>retval = 0, cbTransferred = n, ov_data = Some r\<rparr> w' = Inl NullDeref
    \<and> WorkerThread_step os u \<lparr>retval = 0, cbTransferred = n, ov_data = Some s\<rparr> w' = Inl NullDeref"
proof -
  obtain c r s w' where c: "clients w i = Some c" "m_pRecvOverlapped c = Some r" "m_pSendOverlapped c = Some s"
    "CloseSession t a w = Inr w'" "closed_session i r s w w'"
    using CloseSession_step[OF assms] by blast
  note crash = closed_session_late_crash[OF c(5), of _ os u n]
  show ?thesis
    by (intro exI[of _ c] exI[of _ r] exI[of _ s] exI[of _ w']) (use c crash in simp)
qed

theorem late_completion_crashes_witness:
  "\<exists>w'. CloseSession 1 0 demo_server = Inr w'
    \<and> WorkerThread_step calm_winsock 2 \<lparr>retval = 0, cbTransferred = 0, ov_data = Some 2\<rparr> w' = Inl NullDeref"
  using late_completion_crashes[OF demo_net_inv[of 1], of 0 0 calm_winsock 2 0] by (auto simp: hc_demo)

text \<open>C7. Opening a session takes one structure from each pool that nobody holds, ties both to a fresh
  session object for the accepted socket, appends the session to the manager's list and keeps the
  invariant.\<close>

theorem open_session:
  assumes "net_inv t w"
  shows "\<exists>r s w' c. MakeClientSessionEx os t sock addr w = Inr (r, w') \<and> net_inv t w'
    \<and> r \<notin> held m_pRecvOverlapped w \<and> s \<notin> held m_pSendOverlapped w
    \<and> clients w (next_client w) = None \<and> clients w' = (clients w)(next_client w \<mapsto> c)
    \<and> m_Socket c = sock \<and> m_pRecvOverlapped c = Some r \<and> m_pSendOverlapped c = Some s
    \<and> recv_bytes c = [] \<and> send_bytes c = [] \<and> \<not> m_isClosing c
    \<and> hc (heap w') r = Some (next_client w)
    \<and> m_clients (manager w') = m_clients (manager w) @ [Some (next_client w)]"
proof -
  have "clients w (next_client w) = None"
    using net_invD(6)[OF assms] by (metis less_irrefl option.exhaust)
  with MakeClientSessionEx_step[OF assms, of os sock addr] show ?thesis by fastforce
qed

theorem open_session_witness:
  "\<exists>r w'. MakeClientSessionEx calm_winsock 1 300 zero_addr demo_server = Inr (r, w') \<and> net_inv 1 w'
    \<and> r \<notin> {0, 1} \<and> hc (heap w') r = Some 2 \<and> m_clients (manager w') = [Some 0, Some 1, Some 2]"
  using open_session[OF demo_net_inv[of 1], of calm_winsock 300 zero_addr] by (auto simp: demo_held)

text \<open>C8. Closing a session through either of its structures removes it from the list, detaches and
  returns both structures, marks the object as closing, closes its socket, and leaves every other
  session and structure as it was.\<close>

theorem close_session:
  assumes "net_inv t w" "hc (heap w) a = Some i"
  shows "\<exists>c r s w'. clients w i = Some c \<and> m_pRecvOverlapped c = Some r \<and> m_pSendOverlapped c = Some s
    \<and> CloseSession t a w = Inr w' \<and> net_inv t w'
    \<and> m_clients (manager w') = removeAll (Some i) (m_clients (manager w))
    \<and> (\<forall>b. hc (heap w') b = (if b = r \<or> b = s then None else hc (heap w) b))
    \<and> clients w' = (clients w)(i \<mapsto> c\<lparr>m_isClosing := True\<rparr>)
    \<and> calls w' = calls w @ [closesocket_call (m_Socket c)]"
proof -
  obtain c r s w' where c: "clients w i = Some c" "m_pRecvOverlapped c = Some r" "m_pSendOverlapped c = Some s"
    "CloseSession t a w = Inr w'" "net_inv t w'" "closed_session i r s w w'"
    using CloseSession_step[OF assms] by blast
  then have "clients w' = (clients w)(i \<mapsto> c\<lparr>m_isClosing := True\<rparr>)"
    by (intro ext) (auto simp: closed_session_def)
  with c show ?thesis by (auto simp: closed_session_def)
qed

theorem close_session_witness:
  "\<exists>w'. CloseSession 1 3 demo_server = Inr w' \<and> net_inv 1 w' \<and> m_clients (manager w') = [Some 0]
    \<and> hc (heap w') 1 = None \<and> hc (heap w') 3 = None \<and> hc (heap w') 2 = Some 0
    \<and> calls w' = [closesocket_call 201]"
  using close_session[OF demo_net_inv[of 1], of 3 1] by (auto simp: hc_demo)

text \<open>The accept loop: one turn accepts a connection, opens its session, and leaves it listed last
  with a receive posted and empty buffers.\<close>

lemma accept_turn:
  assumes "net_inv t (srv net)"
  shows "\<exists>net' c. Run_step os t net = Inr net' \<and> net_inv t (srv net')
    \<and> m_clients (manager (srv net')) = m_clients (manager (srv net)) @ [Some (next_client (srv net))]
    \<and> clients (srv net') (next_client (srv net)) = Some c \<and> m_RecvIoState c = IO_PENDING
    \<and> recv_bytes c = [] \<and> send_bytes c = [] \<and> \<not> m_isClosing c
    \<and> m_Socket c = fst (accept_ret os (calls (srv net)) (ls_Socket (m_ListenSocket net)))"
  using Run_step_ok[OF assms, of os] by blast

text \<open>Start-up: when the socket library starts, both pools get 2048 structures, no session is
  listed, and the invariant holds; when it does not, nothing is done.\<close>

lemma initialize_server:
  "if WSAStartup_ret os [] = 0
   then \<exists>net'. Network_Initialize os t \<lparr>m_ListenSocket = l, m_Iocp = io, srv = server_new\<rparr> = Inr net' \<and> net_inv t (srv net')
     \<and> m_clients (manager (srv net')) = [] \<and> length (m_waitingQueue (g_recvIoPool (srv net'))) = 2048
     \<and> length (m_waitingQueue (g_sendIoPool (srv net'))) = 2048
   else Network_Initialize os t \<lparr>m_ListenSocket = l, m_Iocp = io, srv = server_new\<rparr> = 
     Inr \<lparr>m_ListenSocket = l, m_Iocp = io, srv = server_new\<lparr>calls := [WSAStartup_call]\<rparr>\<rparr>"
proof (cases "WSAStartup_ret os [] = 0")
  case True
  have "m_waitingQueue (g_recvIoPool server_new) = []" "m_waitingQueue (g_sendIoPool server_new) = []"
    by (simp_all add: server_new_def OverlappedIoPool_new_def)
  with True Network_Initialize_ok[of t "\<lparr>m_ListenSocket = l, m_Iocp = io, srv = server_new\<rparr>" os] show ?thesis by auto
next
  case False
  then show ?thesis by (simp add: Network_Initialize_def StartNetwork_def)
qed



section \<open>Sending\<close>

text \<open>C10. Stream integrity of a session. Whatever the order in which packets are written, the buffer is
  flushed and posted sends complete (fully or in part), the bytes that left followed by the bytes
  still buffered are exactly the bytes that were accepted; at most one send is outstanding, it is
  the front of the buffer, and while it is, a flush posts nothing.\<close>

theorem send_stream_integrity:
  assumes "client_ok t c" "send_bytes c = []" "send_reach os t (send_start c h tr) S"
  shows "on_wire S @ send_bytes (fst (sess S)) = accepted S \<and> prefix (posted S) (send_bytes (fst (sess S)))
    \<and> (posted S = [] \<or> FlushSendBuffer os t (sess S) = Inr (0, sess S))"
proof -
  have inv: "send_inv t S" by (rule send_inv_reach[OF assms(3) send_inv_start[OF assms(1,2)]])
  obtain c' h' tr' where S: "sess S = (c', h', tr')" by (cases "sess S") auto
  with inv have "client_ok t c'" "posted S \<noteq> [] \<longrightarrow> m_SendIoState c' = IO_PENDING" by (simp_all add: send_inv_def)
  then have "posted S = [] \<or> FlushSendBuffer os t (sess S) = Inr (0, sess S)"
    unfolding S FlushSendBuffer_client_ok[OF \<open>client_ok t c'\<close>] by auto
  with inv show ?thesis by (simp add: send_inv_def)
qed

theorem send_stream_integrity_witness:
  "\<exists>S. send_reach calm_winsock 1 (send_start (demo_client 200 0 2) demo_heap []) S
    \<and> accepted S = [2, 0, 1, 0x55, 7, 8] \<and> on_wire S @ send_bytes (fst (sess S)) = accepted S"
proof -
  let ?p = "[2, 0, 1, 0x55, 7, 8] :: byte list" and ?c = "demo_client 200 0 2"
  have ds: "packet_dataSize ?p = Inr 2" by (simp add: packet_dataSize_def bytes_word16_def)
  obtain sb where w: "WriteSendBuffer 1 (Some ?p) (?c, demo_heap, []) = Inr (6, (?c\<lparr>m_pSendBuffer := Some sb\<rparr>, demo_heap, []))"
    using WriteSendBuffer_fits[OF demo_client_ok[of 1 200 0 2] ds, of demo_heap "[]"] by (auto simp: BUFFER_SIZE_val)
  let ?start = "send_start ?c demo_heap []"
  let ?S = "?start\<lparr>sess := (?c\<lparr>m_pSendBuffer := Some sb\<rparr>, demo_heap, []), accepted := accepted ?start @ take (nat 6) ?p\<rparr>"
  have "send_step calm_winsock 1 ?start ?S"
    using send_step.accept[of 1 ?p ?start 6] w by (simp add: send_start_def)
  then have r: "send_reach calm_winsock 1 ?start ?S" by (rule send_reach.more[OF send_reach.none])
  with send_stream_integrity[OF demo_client_ok _ r] show ?thesis
    by (intro exI[of _ ?S]) (simp add: send_start_def)
qed

text \<open>Writing a packet to a session is all or nothing: it is appended whole when it fits, and otherwise
  the result is \<open>-1\<close> and nothing changes.\<close>

lemma write_all_or_nothing:
  assumes "client_ok t c" "packet_dataSize pkt = Inr n" "unat n + 4 \<le> length pkt"
  shows "\<exists>r c'. WriteSendBuffer t (Some pkt) (c, h, tr) = Inr (r, (c', h, tr)) \<and> client_ok t c'
    \<and> (if length (send_bytes c) + unat n + 4 \<le> nat BUFFER_SIZE
       then r = int (unat n) + 4 \<and> send_bytes c' = send_bytes c @ take (unat n + 4) pkt
       else r = -1 \<and> c' = c)"
proof (cases "length (send_bytes c) + unat n + 4 \<le> nat BUFFER_SIZE")
  case True
  obtain sb where sb: "WriteSendBuffer t (Some pkt) (c, h, tr)
      = Inr (int (unat n) + 4, (c\<lparr>m_pSendBuffer := Some sb\<rparr>, h, tr))"
    "buf_ok sb" "contents sb = send_bytes c @ take (unat n + 4) pkt"
    using WriteSendBuffer_fits[OF assms True] by blast
  with True client_ok_upd_send(1)[OF assms(1) sb(2)] show ?thesis
    by (intro exI[of _ "int (unat n) + 4"] exI[of _ "c\<lparr>m_pSendBuffer := Some sb\<rparr>"]) simp
next
  case False
  with WriteSendBuffer_full[OF assms(1,2)] assms(1) show ?thesis by simp
qed

section \<open>Broadcast and bad packets\<close>





text \<open>C13. A packet with a wrong check sum closes its session, and is echoed all the same.\<close>

theorem bad_checksum_echoed:
  assumes "sessions_ok t w" "clients w i = Some c" "packet_mem pkt" "has_room c pkt"
    and "packet_checkSum pkt \<noteq> Inr 0x55" "packet_flag pkt = Inr 0x01"
  shows "\<exists>w' c'. ProcessPacket os t i pkt w = Inr w' \<and> clients w' i = Some c' \<and> m_isClosing c'
    \<and> send_bytes c' = send_bytes c @ frame_of pkt \<and> calls w' = calls w @ [closesocket_call (m_Socket c)]"
proof -
  obtain cs where cs: "packet_checkSum pkt = Inr cs" "cs \<noteq> 0x55"
    using packet_fields_ok(3)[OF assms(3)] assms(5) by auto
  let ?c = "c\<lparr>m_isClosing := True\<rparr>"
  obtain w1 where w1: "on_client i (Close True) w = Inr ((), w1)" "sessions_ok t w1"
    "clients w1 i = Some ?c" "calls w1 = calls w @ [closesocket_call (m_Socket c)]"
    using Close_step[OF assms(1,2), of True] by blast
  have sb: "send_bytes ?c = send_bytes c" by (simp add: send_bytes_def)
  then have "has_room ?c pkt" using assms(4) by (simp add: has_room_def)
  then obtain n w2 c2 where "on_client i (WriteSendBuffer t (Some pkt)) w1 = Inr (n, w2)" "0 \<le> n"
    "clients w2 i = Some c2" "calls w2 = calls w1" "send_bytes c2 = send_bytes ?c @ frame_of pkt"
    "m_isClosing c2 = m_isClosing ?c"
    using write_room_step[OF w1(2,3) assms(3)] by blast
  with cs w1 assms(6) sb show ?thesis by (simp add: ProcessPacket_def)
qed

theorem bad_checksum_echoed_witness:
  "\<exists>w' c'. ProcessPacket calm_winsock 1 0 (pad [2, 0, 1, 0x54, 7, 8]) demo_server = Inr w' \<and> clients w' 0 = Some c'
    \<and> m_isClosing c' \<and> send_bytes c' = [2, 0, 1, 0x54, 7, 8] \<and> calls w' = [closesocket_call 200]"
proof -
  let ?f = "[2, 0, 1, 0x54, 7, 8] :: byte list"
  have wf: "whole_frame ?f" by (simp add: whole_frame_def frame_data_size_def bytes_word16_def)
  have fl: "packet_checkSum (pad ?f) \<noteq> Inr 0x55" "packet_flag (pad ?f) = Inr 0x01"
    by (simp_all add: pad_def packet_checkSum_def packet_flag_def)
  have room: "has_room (demo_client 200 0 2) (pad ?f)"
    using whole_frame_of_pad[OF wf] by (simp add: has_room_def BUFFER_SIZE_val)
  from bad_checksum_echoed[OF demo_sessions_ok(1)[of 1] demo_server_fields(1) whole_frame_mem[OF wf] room fl,
      of calm_winsock]
  show ?thesis using whole_frame_of_pad[OF wf] by simp
qed

section \<open>Buffers and packets\<close>

text \<open>C14. Round trip through a buffer: whatever fits, written in any number of pieces, comes back as one
  sequence, and the buffer is empty again.\<close>

theorem buffer_round_trip:
  assumes "length (concat xss) \<le> nat BUFFER_SIZE"
  shows "\<exists>b1 b2. pulled.write_all xss PulledBuffer_new = Inr b1
    \<and> read_bytes (length (concat xss)) b1 = Inr (concat xss, b2) \<and> buf_ok b2 \<and> contents b2 = []"
  by (rule pulled.write_all_read[OF assms])

theorem buffer_round_trip_witness:
  "\<exists>b1 b2. pulled.write_all [[1, 2], [], [3]] PulledBuffer_new = Inr b1
    \<and> read_bytes 3 b1 = Inr ([1, 2, 3], b2) \<and> buf_ok b2 \<and> contents b2 = []"
  using buffer_round_trip[of "[[1, 2], [], [3]]"] by (simp add: BUFFER_SIZE_val numeral_3_eq_3)

text \<open>Reading takes the oldest bytes and keeps the order of the rest; reading more than is stored ends
  the process.\<close>

lemma buffer_read:
  assumes "buf_ok b" "0 \<le> n" "n \<le> destLen" "destLen = int (length dest)" "destLen \<le> BUFFER_SIZE"
  shows "if n \<le> GetLength b
    then \<exists>b'. Read n dest destLen b = Inr ((n, mem_write dest 0 (take (nat n) (contents b))), b')
      \<and> buf_ok b' \<and> contents b' = drop (nat n) (contents b)
    else Read n dest destLen b = Inl Terminate"
proof (cases "n \<le> GetLength b")
  case True
  then show ?thesis
    using Read_ok[OF assms(1,2), of dest destLen] assms(3-5) by (simp add: GetLength_def BUFFER_SIZE_val)
next
  case False
  then show ?thesis by (simp add: Read_def GetLength_def)
qed




text \<open>The frames of a stream of packets, cut anywhere, are the packets: reading the stream in two parts
  finds every packet once, in order.\<close>

lemma stream_reassembly:
  assumes "\<forall>p\<in>set ps. sendable p" "xs @ ys = concat (map wire_frame ps)"
  shows "\<exists>fs rest gs. frames xs = (fs, rest) \<and> frames (rest @ ys) = (gs, []) \<and> fs @ gs = map wire_frame ps"
proof -
  have "\<not> frame_ready []" by (simp add: frame_ready_def)
  from frames_wire_frames[OF assms(1) this] assms(2) have "frames (xs @ ys) = (map wire_frame ps, [])" by simp
  then show ?thesis using frames_append[of xs ys] by (auto split: prod.splits)
qed

section \<open>Locks, pools and the session list\<close>

text \<open>C17. Guards exclude each other: on every reachable state of threads that construct and destroy
  \<open>AutoLock\<close> objects on one lock, at most one thread has live guards, and destroying one of its guards
  always succeeds.\<close>

theorem guards_exclusive:
  assumes "guard_reach s" "0 < guards s t"
  shows "(\<forall>u. 0 < guards s u \<longrightarrow> u = t) \<and> (\<exists>cs'. AutoLock_dtor t (Some (the_lock s)) = Inr (Some cs'))
    \<and> (\<forall>u. u \<noteq> t \<longrightarrow> AutoLock_ctor u (Some (the_lock s)) = Inl LockBusy)"
proof -
  obtain v where v: "OwningThread (the_lock s) = Some v" "RecursionCount (the_lock s) = guards s v"
    "\<forall>u. u \<noteq> v \<longrightarrow> guards s u = 0"
    using guard_reach_match[OF assms(1)] assms(2) by (auto simp: guards_match_def split: option.splits)
  then have "v = t" using assms(2) by (metis less_irrefl)
  with v assms(2) show ?thesis
    by (auto simp: AutoLock_dtor_def Leave_def AutoLock_ctor_busy)
qed

theorem guards_exclusive_witness:
  "\<exists>s. guard_reach s \<and> guards s 1 = 1 \<and> (\<forall>u. 0 < guards s u \<longrightarrow> u = 1)"
proof -
  have "AutoLock_ctor 1 (Some (the_lock lock_sys_init)) = Inr (Some \<lparr>OwningThread = Some 1, RecursionCount = 1\<rparr>)"
    by (simp add: AutoLock_ctor_def Enter_def lock_sys_init_def CriticalSectionLock_new_def)
  from guard_step.construct[OF this]
  have "guard_reach (lock_sys_init\<lparr>the_lock := \<lparr>OwningThread = Some 1, RecursionCount = 1\<rparr>,
      guards := (guards lock_sys_init)(1 := Suc (guards lock_sys_init 1))\<rparr>)" (is "guard_reach ?s")
    by (rule guard_reach.more[OF guard_reach.none])
  moreover have g: "guards ?s 1 = 1" by (simp add: lock_sys_init_def)
  moreover have "0 < guards ?s 1" unfolding g by simp
  ultimately show ?thesis using guards_exclusive[of ?s 1] by blast
qed

text \<open>C18. A client of a fresh pool that takes structures and gives back structures it holds never fails,
  never holds a structure twice, and holds exactly what the pool has handed out, however often the
  pool has to grow.\<close>

theorem pool_exclusive:
  "\<exists>mine s. io_pool.session t ops [] (io_heap_empty, OverlappedIoPool_new (Some CriticalSectionLock_new)) = Inr (mine, s)
    \<and> pool_ok t s \<and> distinct mine \<and> set mine = pool_owned s - set (m_waitingQueue (snd s))"
proof -
  let ?s = "(io_heap_empty, OverlappedIoPool_new (Some CriticalSectionLock_new))"
  have "pool_ok t ?s" by simp
  moreover have "set [] = io_pool.in_use ?s" by (simp add: io_pool.in_use_def pool_owned_def OverlappedIoPool_new_def)
  ultimately show ?thesis
    using io_pool.session_exclusive[of t ?s "[]" ops] by (simp add: io_pool.in_use_def)
qed

text \<open>C19. After any sequence of additions and removals the manager lists exactly the sessions whose last
  operation was an addition, each once.\<close>

theorem registry_lists_sessions:
  "\<exists>m. foldE (tcp_registry.apply_op t) ops (TcpSessionManager_new :: cid option TcpSessionManager) = Inr m
    \<and> distinct (GetWholeClients m) \<and> set (GetWholeClients m) = tcp_registry.registered ops {}"
  using tcp_registry.apply_ops_members[of t "TcpSessionManager_new :: cid option TcpSessionManager" ops]
  by (auto simp: GetWholeClients_def)



end
